(* ===== verification/Omp_Prelude.thy ===== *)
theory Omp_Prelude
  imports Main "HOL-Library.Char_ord" "HOL-Library.List_Lexorder"
begin

text \<open>
  Shared vocabulary of the development: the result type of operations that may throw, the
  JavaScript string operations the sources use (\<open>trim\<close>, \<open>split\<close>, \<open>join\<close>, decimal
  printing and reading, whitespace collapsing), the insertion-ordered \<open>Map\<close> of JavaScript
  with its interface as a locale, and the collections of simplification rules that the
  component theories extend.

  A JavaScript string is a sequence of UTF-16 code units; the model's \<open>string\<close> is a list
  of \<open>char\<close>, so a character stands for one code unit below 256 (Latin-1), and \<open>length\<close>
  counts code units as the sources' \<open>.length\<close> does.
\<close>

section \<open>Results and rule collections\<close>

text \<open>An operation that may throw returns \<open>Inl\<close> the error or \<open>Inr\<close> the value.\<close>

type_synonym ('e, 'a) result = "'e + 'a"

text \<open>Milliseconds since the epoch, as \<open>Date.now()\<close> yields them.\<close>

type_synonym epoch_ms = int

named_theorems row_simps \<open>unfolding rules of the table operations of the stores\<close>
named_theorems handler_simps \<open>unfolding rules of the operations of one component\<close>

fun result_bind :: "('e, 'a) result \<Rightarrow> ('a \<Rightarrow> ('e, 'b) result) \<Rightarrow> ('e, 'b) result" where
  "result_bind (Inl e) f = Inl e"
| "result_bind (Inr a) f = f a"

lemma result_bind_Inr_iff:
  "result_bind r f = Inr b \<longleftrightarrow> (\<exists>a. r = Inr a \<and> f a = Inr b)"
  by (cases r) auto

lemma result_bind_Inl_iff:
  "result_bind r f = Inl e \<longleftrightarrow> r = Inl e \<or> (\<exists>a. r = Inr a \<and> f a = Inl e)"
  by (cases r) auto

text \<open>Sequential mapping that stops at the first error, as a \<open>for\<close> loop that throws does.\<close>

fun result_mapM :: "('a \<Rightarrow> ('e, 'b) result) \<Rightarrow> 'a list \<Rightarrow> ('e, 'b list) result" where
  "result_mapM f [] = Inr []"
| "result_mapM f (x # xs) =
     result_bind (f x) (\<lambda>y. result_bind (result_mapM f xs) (\<lambda>ys. Inr (y # ys)))"

lemma result_pair_cases:
  obtains e s where "x = (Inl e, s)" | v s where "x = (Inr v, s)"
  by (metis sum.exhaust surj_pair)

lemma result_mapM_Inr:
  "result_mapM f xs = Inr ys \<Longrightarrow> list_all2 (\<lambda>x y. f x = Inr y) xs ys"
  by (induction xs arbitrary: ys) (auto simp: result_bind_Inr_iff)

lemma result_mapM_Inr_length:
  "result_mapM f xs = Inr ys \<Longrightarrow> length ys = length xs"
  by (drule result_mapM_Inr) (simp add: list_all2_lengthD)

lemma result_mapM_Inr_in:
  "result_mapM f xs = Inr ys \<Longrightarrow> y \<in> set ys \<Longrightarrow> \<exists>x \<in> set xs. f x = Inr y"
  by (induction xs arbitrary: ys) (auto simp: result_bind_Inr_iff)

section \<open>JavaScript strings\<close>

text \<open>The code units below 256 that \<open>\s\<close> and \<open>trim\<close> treat as white space.\<close>

definition js_ws :: "char \<Rightarrow> bool" where
  "js_ws c \<longleftrightarrow> of_char c \<in> {9, 10, 11, 12, 13, 32, 160 :: nat}"

definition js_trim :: "string \<Rightarrow> string" where
  "js_trim s = rev (dropWhile js_ws (rev (dropWhile js_ws s)))"

text \<open>\<open>s.split(c)\<close> for a one-character separator.\<close>

fun js_split :: "char \<Rightarrow> string \<Rightarrow> string list" where
  "js_split c [] = [[]]"
| "js_split c (x # xs) =
     (if x = c then [] # js_split c xs
      else (case js_split c xs of [] \<Rightarrow> [[x]] | w # ws \<Rightarrow> (x # w) # ws))"

text \<open>\<open>s.split(/\s+/)\<close>: the pieces between maximal runs of white space.\<close>

function js_split_ws :: "string \<Rightarrow> string list" where
  "js_split_ws s =
     (let w = takeWhile (\<lambda>c. \<not> js_ws c) s; r = dropWhile (\<lambda>c. \<not> js_ws c) s
      in if r = [] then [w] else w # js_split_ws (dropWhile js_ws r))"
  by pat_completeness auto
termination
proof (relation "measure length")
  fix s w r :: string
  assume "w = takeWhile (\<lambda>c. \<not> js_ws c) s" and r: "r = dropWhile (\<lambda>c. \<not> js_ws c) s"
    and ne: "r \<noteq> []"
  have "js_ws (hd r)" using hd_dropWhile [of "\<lambda>c. \<not> js_ws c" s] r ne by simp
  then have "length (dropWhile js_ws r) < length r"
    using ne by (cases r) (auto simp: le_imp_less_Suc length_dropWhile_le)
  also have "length r \<le> length s" by (simp add: r length_dropWhile_le)
  finally show "(dropWhile js_ws r, s) \<in> measure length" by simp
qed simp

declare js_split_ws.simps [simp del]

text \<open>\<open>xs.join(sep)\<close>.\<close>

fun js_join :: "string \<Rightarrow> string list \<Rightarrow> string" where
  "js_join sep [] = []"
| "js_join sep [x] = x"
| "js_join sep (x # y # zs) = x @ sep @ js_join sep (y # zs)"

text \<open>\<open>s.replace(/\s+/g, " ")\<close>.\<close>

fun js_collapse_ws :: "string \<Rightarrow> string" where
  "js_collapse_ws [] = []"
| "js_collapse_ws [x] = (if js_ws x then '' '' else [x])"
| "js_collapse_ws (x # y # zs) =
     (if js_ws x then (if js_ws y then js_collapse_ws (y # zs) else CHR '' '' # js_collapse_ws (y # zs))
      else x # js_collapse_ws (y # zs))"

definition js_starts_with :: "string \<Rightarrow> string \<Rightarrow> bool" where
  "js_starts_with p s \<longleftrightarrow> take (length p) s = p"

definition js_ends_with :: "string \<Rightarrow> string \<Rightarrow> bool" where
  "js_ends_with p s \<longleftrightarrow> length p \<le> length s \<and> drop (length s - length p) s = p"

text \<open>\<open>toLowerCase\<close> on the code units of the model.\<close>

definition js_lower :: "string \<Rightarrow> string" where
  "js_lower = map (\<lambda>c. let n = of_char c :: nat
     in if (65 \<le> n \<and> n \<le> 90) \<or> (192 \<le> n \<and> n \<le> 222 \<and> n \<noteq> 215) then char_of (n + 32) else c)"

lemma js_split_nonempty [simp]: "js_split c s \<noteq> []"
  by (induction s) (auto split: list.splits)

lemma js_split_ws_nonempty [simp]: "js_split_ws s \<noteq> []"
  by (subst js_split_ws.simps) (simp add: Let_def)

lemma length_js_collapse_ws: "length (js_collapse_ws s) \<le> length s"
  by (induction s rule: js_collapse_ws.induct) auto

lemma length_js_trim: "length (js_trim s) \<le> length s"
  unfolding js_trim_def
  by (metis length_dropWhile_le length_rev order_trans)

subsection \<open>Decimal digits\<close>

definition is_digit :: "char \<Rightarrow> bool" where
  "is_digit c \<longleftrightarrow> 48 \<le> (of_char c :: nat) \<and> (of_char c :: nat) \<le> 57"

definition digit_char :: "nat \<Rightarrow> char" where
  "digit_char d = char_of (48 + d)"

definition digit_val :: "char \<Rightarrow> nat" where
  "digit_val c = of_char c - 48"

text \<open>\<open>String(n)\<close> for a natural number, and \<open>Number(s)\<close> for a string of digits.\<close>

fun show_nat :: "nat \<Rightarrow> string" where
  "show_nat n = (if n < 10 then [digit_char n] else show_nat (n div 10) @ [digit_char (n mod 10)])"

declare show_nat.simps [simp del]

definition read_nat :: "string \<Rightarrow> nat" where
  "read_nat s = foldl (\<lambda>a c. a * 10 + digit_val c) 0 s"

lemma digit_char_is_digit [simp]: "d < 10 \<Longrightarrow> is_digit (digit_char d)"
  by (simp add: is_digit_def digit_char_def)

lemma digit_val_digit_char [simp]: "d < 10 \<Longrightarrow> digit_val (digit_char d) = d"
  by (simp add: digit_val_def digit_char_def)

lemma show_nat_digits: "\<forall>c \<in> set (show_nat n). is_digit c"
proof (induction n rule: show_nat.induct)
  case (1 n)
  then show ?case by (subst show_nat.simps) auto
qed

lemma show_nat_nonempty [simp]: "show_nat n \<noteq> []"
  by (subst show_nat.simps) simp

lemma read_show_nat [simp]: "read_nat (show_nat n) = n"
proof (induction n rule: show_nat.induct)
  case (1 n)
  then show ?case by (subst show_nat.simps) (auto simp: read_nat_def)
qed

lemma show_nat_inj [simp]: "show_nat m = show_nat n \<longleftrightarrow> m = n"
  by (metis read_show_nat)

lemma takeWhile_digits_show_nat:
  "\<not> is_digit c \<Longrightarrow> takeWhile is_digit (show_nat n @ c # rest) = show_nat n"
  using show_nat_digits [of n] by (simp add: takeWhile_append2)

lemma dropWhile_digits_show_nat:
  "\<not> is_digit c \<Longrightarrow> dropWhile is_digit (show_nat n @ c # rest) = c # rest"
  using show_nat_digits [of n] by (simp add: dropWhile_append2)

section \<open>JavaScript sets and maps in insertion order\<close>

text \<open>\<open>[...new Set(xs)]\<close>: the distinct elements in the order of first occurrence.\<close>

definition js_set_list :: "'a list \<Rightarrow> 'a list" where
  "js_set_list xs = rev (remdups (rev xs))"

lemma set_js_set_list [simp]: "set (js_set_list xs) = set xs"
  by (simp add: js_set_list_def)

lemma distinct_js_set_list [simp]: "distinct (js_set_list xs)"
  by (simp add: js_set_list_def)

text \<open>
  A JavaScript \<open>Map\<close> iterates in insertion order: it is an association list with distinct
  keys. \<open>set\<close> of a present key keeps the key's position; \<open>delete\<close> and a later
  \<open>set\<close> move it to the end.
\<close>

type_synonym ('k, 'v) js_map = "('k \<times> 'v) list"

definition map_get :: "('k, 'v) js_map \<Rightarrow> 'k \<Rightarrow> 'v option" where
  "map_get m k = map_of m k"

fun map_set :: "('k, 'v) js_map \<Rightarrow> 'k \<Rightarrow> 'v \<Rightarrow> ('k, 'v) js_map" where
  "map_set [] k v = [(k, v)]"
| "map_set ((k', v') # m) k v = (if k' = k then (k, v) # m else (k', v') # map_set m k v)"

definition map_delete :: "('k, 'v) js_map \<Rightarrow> 'k \<Rightarrow> ('k, 'v) js_map" where
  "map_delete m k = filter (\<lambda>kv. fst kv \<noteq> k) m"

definition map_ok :: "('k, 'v) js_map \<Rightarrow> bool" where
  "map_ok m \<longleftrightarrow> distinct (map fst m)"

lemma map_get_set: "map_get (map_set m k v) k' = (if k' = k then Some v else map_get m k')"
  unfolding map_get_def by (induction m) auto

lemma map_get_delete: "map_get (map_delete m k) k' = (if k' = k then None else map_get m k')"
  unfolding map_get_def map_delete_def by (induction m) auto

lemma fst_set_map_set: "fst ` set (map_set m k v) = insert k (fst ` set m)"
proof (induction m)
  case (Cons a m)
  then show ?case by (cases a) (simp add: insert_commute)
qed simp

lemma map_ok_set: "map_ok m \<Longrightarrow> map_ok (map_set m k v)"
  unfolding map_ok_def
proof (induction m)
  case (Cons a m)
  then show ?case by (cases a) (use fst_set_map_set [of m k v] in auto)
qed simp

lemma map_ok_delete: "map_ok m \<Longrightarrow> map_ok (map_delete m k)"
  unfolding map_ok_def map_delete_def by (induction m) auto

text \<open>
  The interface the components use: what a lookup returns after each operation, and that
  every operation keeps the keys distinct.
\<close>

locale keyed_map =
  fixes get :: "'m \<Rightarrow> 'k \<Rightarrow> 'v option"
    and put :: "'m \<Rightarrow> 'k \<Rightarrow> 'v \<Rightarrow> 'm"
    and del :: "'m \<Rightarrow> 'k \<Rightarrow> 'm"
    and ok :: "'m \<Rightarrow> bool"
    and empty :: 'm
  assumes get_empty: "get empty k = None"
    and get_put: "get (put m k v) k' = (if k' = k then Some v else get m k')"
    and get_del: "get (del m k) k' = (if k' = k then None else get m k')"
    and ok_empty: "ok empty"
    and ok_put: "ok m \<Longrightarrow> ok (put m k v)"
    and ok_del: "ok m \<Longrightarrow> ok (del m k)"
begin

lemma get_put_same [simp]: "get (put m k v) k = Some v"
  by (simp add: get_put)

lemma get_put_other [simp]: "k' \<noteq> k \<Longrightarrow> get (put m k v) k' = get m k'"
  by (simp add: get_put)

lemma get_del_same [simp]: "get (del m k) k = None"
  by (simp add: get_del)

lemma get_del_other [simp]: "k' \<noteq> k \<Longrightarrow> get (del m k) k' = get m k'"
  by (simp add: get_del)

lemma put_put_get: "get (put (put m k v) k w) = get (put m k w)"
  by (rule ext) (simp add: get_put)

lemma put_commute_get: "k \<noteq> k' \<Longrightarrow> get (put (put m k v) k' w) = get (put (put m k' w) k v)"
  by (rule ext) (simp add: get_put)

end

interpretation jm: keyed_map map_get map_set map_delete map_ok "[]"
proof unfold_locales
  show "map_get [] k = None" for k :: 'a by (simp add: map_get_def)
  show "map_ok ([] :: ('a, 'b) js_map)" by (simp add: map_ok_def)
qed (simp_all add: map_get_set map_get_delete map_ok_set map_ok_delete)

end
