(* ===== verification/Sql_Table.thy ===== *)
theory Sql_Table
  imports Omp_Prelude
begin

text \<open>
  The SQL statements of the three durable stores (\<open>idempotency_store\<close>,
  \<open>session_registry\<close>, \<open>outbound_outbox\<close>) over a table that is the list of its rows in
  insertion order: \<open>UPDATE .. WHERE\<close> and \<open>DELETE .. WHERE\<close> with the number of changed
  rows, \<open>SELECT\<close> of one row, and \<open>INSERT\<close> under a primary key. The locales
  \<open>row_update\<close> and \<open>row_cas\<close> are the contract of one guarded \<open>UPDATE\<close>: it keeps the
  primary key and the \<open>CHECK\<close> constraints; their lemmas are used by every store.
\<close>

section \<open>Statements\<close>

definition sql_update :: "('r \<Rightarrow> bool) \<Rightarrow> ('r \<Rightarrow> 'r) \<Rightarrow> 'r list \<Rightarrow> 'r list \<times> nat" where
  "sql_update P f t = (map (\<lambda>r. if P r then f r else r) t, length (filter P t))"

definition sql_delete :: "('r \<Rightarrow> bool) \<Rightarrow> 'r list \<Rightarrow> 'r list \<times> nat" where
  "sql_delete P t = (filter (\<lambda>r. \<not> P r) t, length (filter P t))"

definition sql_get :: "('r \<Rightarrow> bool) \<Rightarrow> 'r list \<Rightarrow> 'r option" where
  "sql_get P t = (case filter P t of [] \<Rightarrow> None | r # _ \<Rightarrow> Some r)"

text \<open>\<open>None\<close> is the uniqueness violation of the primary key.\<close>

definition sql_insert :: "('r \<Rightarrow> 'k) \<Rightarrow> 'r \<Rightarrow> 'r list \<Rightarrow> 'r list option" where
  "sql_insert key r t = (if key r \<in> key ` set t then None else Some (t @ [r]))"

text \<open>Primary key unique, every row within its \<open>CHECK\<close> constraints.\<close>

definition tbl_ok :: "('r \<Rightarrow> 'k) \<Rightarrow> ('r \<Rightarrow> bool) \<Rightarrow> 'r list \<Rightarrow> bool" where
  "tbl_ok key ok t \<longleftrightarrow> distinct (map key t) \<and> (\<forall>r \<in> set t. ok r)"

text \<open>The row of a key: the abstraction of a table to a partial map.\<close>

definition row_at :: "('r \<Rightarrow> 'k) \<Rightarrow> 'r list \<Rightarrow> 'k \<Rightarrow> 'r option" where
  "row_at key t k = sql_get (\<lambda>r. key r = k) t"

section \<open>Rows of a well-formed table\<close>

lemma sql_get_Nil [simp]: "sql_get P [] = None"
  by (simp add: sql_get_def)

lemma sql_get_Cons [simp]: "sql_get P (r # t) = (if P r then Some r else sql_get P t)"
  by (simp add: sql_get_def)

lemma sql_get_append: "sql_get P (t @ u) = (case sql_get P t of None \<Rightarrow> sql_get P u | Some r \<Rightarrow> Some r)"
  by (induction t) auto

lemma sql_get_SomeD: "sql_get P t = Some r \<Longrightarrow> r \<in> set t \<and> P r"
  by (induction t) (auto split: if_splits)

lemma sql_get_None_iff: "sql_get P t = None \<longleftrightarrow> (\<forall>r \<in> set t. \<not> P r)"
  by (induction t) auto

lemma row_at_Nil [simp]: "row_at key [] k = None"
  by (simp add: row_at_def)

lemma row_at_Cons [simp]: "row_at key (r # t) k = (if key r = k then Some r else row_at key t k)"
  by (simp add: row_at_def)

lemma row_at_SomeD: "row_at key t k = Some r \<Longrightarrow> r \<in> set t \<and> key r = k"
  unfolding row_at_def by (drule sql_get_SomeD) simp

lemma row_at_None_iff: "row_at key t k = None \<longleftrightarrow> k \<notin> key ` set t"
  unfolding row_at_def by (auto simp: sql_get_None_iff)

lemma row_at_in: "tbl_ok key ok t \<Longrightarrow> r \<in> set t \<Longrightarrow> row_at key t (key r) = Some r"
  unfolding tbl_ok_def
  by (induction t) (auto dest: imageI [of _ _ key])

lemma row_at_iff: "tbl_ok key ok t \<Longrightarrow> row_at key t k = Some r \<longleftrightarrow> r \<in> set t \<and> key r = k"
  using row_at_in row_at_SomeD by metis

lemma tbl_ok_row: "tbl_ok key ok t \<Longrightarrow> row_at key t k = Some r \<Longrightarrow> ok r"
  using row_at_SomeD by (fastforce simp: tbl_ok_def)

lemma tbl_ok_Nil [simp]: "tbl_ok key ok []"
  by (simp add: tbl_ok_def)

lemma sql_insert_Some_iff:
  "sql_insert key r t = Some t' \<longleftrightarrow> row_at key t (key r) = None \<and> t' = t @ [r]"
  by (auto simp: sql_insert_def row_at_None_iff)

lemma tbl_ok_insert:
  "tbl_ok key ok t \<Longrightarrow> ok r \<Longrightarrow> row_at key t (key r) = None \<Longrightarrow> tbl_ok key ok (t @ [r])"
  by (auto simp: tbl_ok_def row_at_None_iff)

lemma row_at_insert:
  "row_at key t (key r) = None \<Longrightarrow>
   row_at key (t @ [r]) k = (if k = key r then Some r else row_at key t k)"
  by (auto simp: row_at_def sql_get_append split: option.splits)

lemma tbl_ok_delete: "tbl_ok key ok t \<Longrightarrow> tbl_ok key ok (fst (sql_delete P t))"
  unfolding tbl_ok_def sql_delete_def by (simp add: distinct_map_filter)

lemma row_at_filter:
  "tbl_ok key ok t \<Longrightarrow>
   row_at key (filter Q t) k = (case row_at key t k of Some r \<Rightarrow> if Q r then Some r else None | None \<Rightarrow> None)"
  unfolding tbl_ok_def
proof (induction t)
  case (Cons r t)
  then have "key r = k \<Longrightarrow> row_at key t k = None"
    by (auto simp: row_at_None_iff)
  with Cons show ?case by (auto split: option.splits)
qed simp

lemma row_at_delete:
  "tbl_ok key ok t \<Longrightarrow>
   row_at key (fst (sql_delete P t)) k =
     (case row_at key t k of Some r \<Rightarrow> if P r then None else Some r | None \<Rightarrow> None)"
  by (simp add: sql_delete_def row_at_filter split: option.splits)

lemma filter_key_row_at:
  "tbl_ok key ok t \<Longrightarrow>
   filter (\<lambda>r. key r = k \<and> G r) t = (case row_at key t k of Some r \<Rightarrow> if G r then [r] else [] | None \<Rightarrow> [])"
  unfolding tbl_ok_def
proof (induction t)
  case (Cons r t)
  then have "key r = k \<Longrightarrow> row_at key t k = None"
    by (auto simp: row_at_None_iff)
  with Cons show ?case by (auto split: option.splits)
qed simp

lemma sql_delete_changes:
  "tbl_ok key ok t \<Longrightarrow>
   snd (sql_delete (\<lambda>r. key r = k \<and> G r) t) = (case row_at key t k of Some r \<Rightarrow> if G r then 1 else 0 | None \<Rightarrow> 0)"
  by (simp add: sql_delete_def filter_key_row_at split: option.splits)

lemma sql_update_cong:
  "(\<And>r. r \<in> set t \<Longrightarrow> P r \<longleftrightarrow> Q r) \<Longrightarrow> sql_update P f t = sql_update Q f t"
  unfolding sql_update_def by (simp cong: filter_cong map_cong)

lemma sql_update_none: "snd (sql_update P f t) = 0 \<Longrightarrow> fst (sql_update P f t) = t"
  unfolding sql_update_def by (induction t) (auto split: if_splits)

lemma sql_update_none_guard: "(\<And>r. r \<in> set t \<Longrightarrow> \<not> P r) \<Longrightarrow> fst (sql_update P f t) = t"
  unfolding sql_update_def by (induction t) auto

section \<open>The contract of a guarded UPDATE\<close>

locale row_update =
  fixes key :: "'r \<Rightarrow> 'k"
    and ok :: "'r \<Rightarrow> bool"
    and guard :: "'r \<Rightarrow> bool"
    and change :: "'r \<Rightarrow> 'r"
  assumes key_change: "key (change r) = key r"
    and ok_change: "guard r \<Longrightarrow> ok r \<Longrightarrow> ok (change r)"
begin

lemma map_key_update: "map key (fst (sql_update guard change t)) = map key t"
  unfolding sql_update_def by (simp add: key_change)

lemma tbl_ok_update: "tbl_ok key ok t \<Longrightarrow> tbl_ok key ok (fst (sql_update guard change t))"
  unfolding tbl_ok_def map_key_update
  by (auto simp: sql_update_def intro: ok_change)

lemma row_at_update:
  "row_at key (fst (sql_update guard change t)) k =
     map_option (\<lambda>r. if guard r then change r else r) (row_at key t k)"
  unfolding sql_update_def by (induction t) (auto simp: key_change)

lemma keys_update: "key ` set (fst (sql_update guard change t)) = key ` set t"
  using map_key_update [of t] by (metis list.set_map)

end

text \<open>A compare-and-set on the row of one key: the guard also names the primary key.\<close>

locale row_cas =
  fixes key :: "'r \<Rightarrow> 'k"
    and ok :: "'r \<Rightarrow> bool"
    and k :: 'k
    and expect :: "'r \<Rightarrow> bool"
    and change :: "'r \<Rightarrow> 'r"
  assumes cas_key: "key (change r) = key r"
    and cas_ok: "expect r \<Longrightarrow> ok r \<Longrightarrow> ok (change r)"
begin

sublocale row_update key ok "\<lambda>r. key r = k \<and> expect r" change
  by unfold_locales (auto simp: cas_key cas_ok)

lemma cas_changes:
  "tbl_ok key ok t \<Longrightarrow>
   snd (sql_update (\<lambda>r. key r = k \<and> expect r) change t) =
     (case row_at key t k of Some r \<Rightarrow> if expect r then 1 else 0 | None \<Rightarrow> 0)"
  by (simp add: sql_update_def filter_key_row_at split: option.splits)

lemma cas_row:
  "row_at key (fst (sql_update (\<lambda>r. key r = k \<and> expect r) change t)) k' =
     (case row_at key t k' of
        None \<Rightarrow> None
      | Some r \<Rightarrow> Some (if k' = k \<and> expect r then change r else r))"
  by (auto simp: row_at_update split: option.splits dest: row_at_SomeD)

lemma cas_frame:
  "k' \<noteq> k \<Longrightarrow> row_at key (fst (sql_update (\<lambda>r. key r = k \<and> expect r) change t)) k' = row_at key t k'"
  by (auto simp: cas_row split: option.splits)

lemma cas_no_change:
  "snd (sql_update (\<lambda>r. key r = k \<and> expect r) change t) = 0 \<Longrightarrow>
   fst (sql_update (\<lambda>r. key r = k \<and> expect r) change t) = t"
  by (rule sql_update_none)

end

lemmas [row_simps] = row_at_Nil row_at_Cons sql_insert_Some_iff row_at_insert

end
