(* ===== verification/Json.thy ===== *)
theory Json
  imports Omp_Prelude "HOL-Library.Multiset"
begin

text \<open>
  JSON values as the sources use them: an object is the list of its properties in
  enumeration order (distinct keys), a number is an integer. \<open>json_stringify\<close> and
  \<open>json_parse\<close> model \<open>JSON.stringify\<close> and \<open>JSON.parse\<close> on these values;
  \<open>canonicalize\<close> is the function of \<open>idempotency-store.ts\<close> that sorts object keys at
  every depth. The lemmas show that parsing inverts printing, so that printed text
  determines the value, and that canonical forms agree exactly on the values that differ
  in property order only.
\<close>

datatype json =
    JNull
  | JBool bool
  | JNum int
  | JStr string
  | JArr "json list"
  | JObj "(string \<times> json) list"

text \<open>Property read \<open>o[k]\<close>: \<open>None\<close> is \<open>undefined\<close>; a value that is no object has none.\<close>

fun jget :: "string \<Rightarrow> json \<Rightarrow> json option" where
  "jget k (JObj kvs) = map_of kvs k"
| "jget k _ = None"

fun jstring :: "json option \<Rightarrow> string option" where
  "jstring (Some (JStr s)) = Some s"
| "jstring _ = None"

text \<open>Every object of the value has distinct keys, as \<open>JSON.parse\<close> guarantees.\<close>

fun json_ok :: "json \<Rightarrow> bool" where
  "json_ok (JArr xs) = (\<forall>x \<in> set xs. json_ok x)"
| "json_ok (JObj kvs) = (distinct (map fst kvs) \<and> (\<forall>kv \<in> set kvs. json_ok (snd kv)))"
| "json_ok _ = True"

section \<open>Printing\<close>

definition hex_digit :: "nat \<Rightarrow> char" where
  "hex_digit d = (if d < 10 then char_of (48 + d) else char_of (87 + d))"

definition json_escape :: "char \<Rightarrow> string" where
  "json_escape c =
     (let n = of_char c :: nat; bs = CHR 0x5C
      in if n = 34 then [bs, CHR 0x22] else if n = 92 then [bs, bs]
      else if n = 8 then [bs, CHR ''b''] else if n = 9 then [bs, CHR ''t'']
      else if n = 10 then [bs, CHR ''n''] else if n = 12 then [bs, CHR ''f'']
      else if n = 13 then [bs, CHR ''r'']
      else if n < 32 then [bs, CHR ''u'', CHR ''0'', CHR ''0'', hex_digit (n div 16), hex_digit (n mod 16)]
      else [c])"

definition dquote :: char where
  "dquote = CHR 0x22"

definition json_quote :: "string \<Rightarrow> string" where
  "json_quote s = dquote # concat (map json_escape s) @ [dquote]"

definition show_int :: "int \<Rightarrow> string" where
  "show_int n = (if n < 0 then CHR ''-'' # show_nat (nat (- n)) else show_nat (nat n))"

fun json_stringify :: "json \<Rightarrow> string" where
  "json_stringify JNull = ''null''"
| "json_stringify (JBool b) = (if b then ''true'' else ''false'')"
| "json_stringify (JNum n) = show_int n"
| "json_stringify (JStr s) = json_quote s"
| "json_stringify (JArr xs) = ''['' @ js_join '','' (map json_stringify xs) @ '']''"
| "json_stringify (JObj kvs) =
     ''{'' @ js_join '','' (map (\<lambda>kv. json_quote (fst kv) @ '':'' @ json_stringify (snd kv)) kvs) @ ''}''"

section \<open>Parsing\<close>

definition json_ws :: "char \<Rightarrow> bool" where
  "json_ws c \<longleftrightarrow> of_char c \<in> {9, 10, 13, 32 :: nat}"

definition skip_ws :: "string \<Rightarrow> string" where
  "skip_ws s = dropWhile json_ws s"

definition hex_val :: "char \<Rightarrow> nat option" where
  "hex_val c =
     (let n = of_char c :: nat
      in if 48 \<le> n \<and> n \<le> 57 then Some (n - 48)
         else if 97 \<le> n \<and> n \<le> 102 then Some (n - 87)
         else if 65 \<le> n \<and> n \<le> 70 then Some (n - 55) else None)"

definition unescape :: "char \<Rightarrow> char option" where
  "unescape c =
     (let n = of_char c :: nat
      in if n = 34 \<or> n = 92 \<or> n = 47 then Some c
         else if c = CHR ''b'' then Some (CHR 0x08)
         else if c = CHR ''t'' then Some (CHR 0x09)
         else if c = CHR ''n'' then Some (CHR 0x0A)
         else if c = CHR ''f'' then Some (CHR 0x0C)
         else if c = CHR ''r'' then Some (CHR 0x0D) else None)"

text \<open>
  The characters of a string literal up to the closing quote. A \<open>\u\<close> escape denotes a code
  unit; only those below 256 are characters of the model.
\<close>

fun parse_chars :: "string \<Rightarrow> (string \<times> string) option" where
  "parse_chars [] = None"
| "parse_chars (c # s) =
     (if c = dquote then Some ([], s)
      else if c = CHR 0x5C then
        (case s of
           [] \<Rightarrow> None
         | e # r \<Rightarrow>
             if e = CHR ''u'' then
               (case r of
                  a # b # h # l # r' \<Rightarrow>
                    (case (hex_val a, hex_val b, hex_val h, hex_val l) of
                       (Some w, Some z, Some x, Some y) \<Rightarrow>
                         if w = 0 \<and> z = 0
                         then map_option (map_prod ((#) (char_of (16 * x + y))) id) (parse_chars r')
                         else None
                     | _ \<Rightarrow> None)
                | _ \<Rightarrow> None)
             else
               (case unescape e of
                  Some d \<Rightarrow> map_option (map_prod ((#) d) id) (parse_chars r)
                | None \<Rightarrow> None))
      else if (of_char c :: nat) < 32 then None
      else map_option (map_prod ((#) c) id) (parse_chars s))"

definition parse_nat :: "string \<Rightarrow> (nat \<times> string) option" where
  "parse_nat s =
     (let ds = takeWhile is_digit s
      in if ds = [] \<or> (hd ds = CHR ''0'' \<and> tl ds \<noteq> []) then None
         else Some (read_nat ds, dropWhile is_digit s))"

definition parse_int :: "string \<Rightarrow> (int \<times> string) option" where
  "parse_int s =
     (case s of
        [] \<Rightarrow> None
      | c # r \<Rightarrow> if c = CHR ''-'' then map_option (map_prod (\<lambda>n. - int n) id) (parse_nat r)
                 else map_option (map_prod int id) (parse_nat s))"

text \<open>The text after the delimiter \<open>c\<close>, white space before it skipped.\<close>

definition expect :: "char \<Rightarrow> string \<Rightarrow> string option" where
  "expect c s = (case skip_ws s of [] \<Rightarrow> None | x # q \<Rightarrow> if x = c then Some q else None)"

text \<open>
  Recursive descent. The fuel bounds the nesting; \<open>json_parse\<close> supplies more than the text
  can use, as the round trip below shows.
\<close>

fun parse_value :: "nat \<Rightarrow> string \<Rightarrow> (json \<times> string) option"
  and parse_elems :: "nat \<Rightarrow> string \<Rightarrow> (json list \<times> string) option"
  and parse_members :: "nat \<Rightarrow> string \<Rightarrow> ((string \<times> json) list \<times> string) option" where
  "parse_value 0 s = None"
| "parse_value (Suc n) s =
     (case skip_ws s of
        [] \<Rightarrow> None
      | c # r \<Rightarrow>
          if c = dquote then map_option (map_prod JStr id) (parse_chars r)
          else if c = CHR ''['' then
            (case expect (CHR '']'') r of
               Some q \<Rightarrow> Some (JArr [], q)
             | None \<Rightarrow> map_option (map_prod JArr id) (parse_elems n r))
          else if c = CHR ''{'' then
            (case expect (CHR ''}'') r of
               Some q \<Rightarrow> Some (JObj [], q)
             | None \<Rightarrow> map_option (map_prod JObj id) (parse_members n r))
          else if js_starts_with ''null'' (c # r) then Some (JNull, drop 4 (c # r))
          else if js_starts_with ''true'' (c # r) then Some (JBool True, drop 4 (c # r))
          else if js_starts_with ''false'' (c # r) then Some (JBool False, drop 5 (c # r))
          else map_option (map_prod JNum id) (parse_int (c # r)))"
| "parse_elems 0 s = None"
| "parse_elems (Suc n) s =
     (case parse_value n s of
        None \<Rightarrow> None
      | Some (v, r) \<Rightarrow>
          (case expect (CHR '','') r of
             Some q \<Rightarrow> map_option (map_prod ((#) v) id) (parse_elems n q)
           | None \<Rightarrow> map_option (\<lambda>q. ([v], q)) (expect (CHR '']'') r)))"
| "parse_members 0 s = None"
| "parse_members (Suc n) s =
     (case expect dquote s of
        None \<Rightarrow> None
      | Some r \<Rightarrow>
          (case parse_chars r of
             None \<Rightarrow> None
           | Some (k, r1) \<Rightarrow>
               (case expect (CHR '':'') r1 of
                  None \<Rightarrow> None
                | Some r2 \<Rightarrow>
                    (case parse_value n r2 of
                       None \<Rightarrow> None
                     | Some (v, r3) \<Rightarrow>
                         (case expect (CHR '','') r3 of
                            Some q \<Rightarrow> map_option (map_prod ((#) (k, v)) id) (parse_members n q)
                          | None \<Rightarrow> map_option (\<lambda>q. ([(k, v)], q)) (expect (CHR ''}'') r3))))))"

text \<open>A repeated key keeps its first position and its last value, as \<open>JSON.parse\<close> does.\<close>

primrec json_dedup :: "json \<Rightarrow> json" where
  "json_dedup JNull = JNull"
| "json_dedup (JBool b) = JBool b"
| "json_dedup (JNum n) = JNum n"
| "json_dedup (JStr s) = JStr s"
| "json_dedup (JArr xs) = JArr (map json_dedup xs)"
| "json_dedup (JObj kvs) = JObj (foldl (\<lambda>m kv. map_set m (fst kv) (snd kv)) [] (map (map_prod id json_dedup) kvs))"

text \<open>\<open>JSON.parse\<close>: \<open>None\<close> is the thrown \<open>SyntaxError\<close>.\<close>

definition json_parse :: "string \<Rightarrow> json option" where
  "json_parse s =
     (case parse_value (2 * length s + 2) s of
        Some (v, r) \<Rightarrow> if skip_ws r = [] then Some (json_dedup v) else None
      | None \<Rightarrow> None)"

section \<open>Canonical form\<close>

primrec canonicalize :: "json \<Rightarrow> json" where
  "canonicalize JNull = JNull"
| "canonicalize (JBool b) = JBool b"
| "canonicalize (JNum n) = JNum n"
| "canonicalize (JStr s) = JStr s"
| "canonicalize (JArr xs) = JArr (map canonicalize xs)"
| "canonicalize (JObj kvs) = JObj (sort_key fst (map (map_prod id canonicalize) kvs))"

section \<open>Parsing inverts printing\<close>

lemma hex_val_hex_digit [simp]: "d < 16 \<Longrightarrow> hex_val (hex_digit d) = Some d"
  by (auto simp: hex_val_def hex_digit_def Let_def)

lemma char_literals:
  "char_of (34 :: nat) = CHR 0x22" "char_of (92 :: nat) = CHR 0x5C" "char_of (8 :: nat) = CHR 0x08"
  "char_of (9 :: nat) = CHR 0x09" "char_of (10 :: nat) = CHR 0x0A" "char_of (12 :: nat) = CHR 0x0C"
  "char_of (13 :: nat) = CHR 0x0D"
  by (simp_all add: char_of_def bit_0)

lemma parse_chars_escape:
  "parse_chars (json_escape c @ t) = map_option (map_prod ((#) c) id) (parse_chars t)"
proof -
  define n where "n = (of_char c :: nat)"
  have c: "c = char_of n" by (simp add: n_def)
  have n256: "n < 256" unfolding n_def by (rule nat_of_char_less_256)
  consider "n \<in> {34, 92, 8, 9, 10, 12, 13}" | "n \<notin> {34, 92, 8, 9, 10, 12, 13}" "n < 32" | "n \<notin> {34, 92}" "32 \<le> n"
    by fastforce
  then show ?thesis
  proof cases
    case 1
    then show ?thesis
      by (elim insertE) (simp_all add: c char_literals json_escape_def dquote_def unescape_def Let_def)
  next
    case 2
    then have e: "json_escape c = [CHR 0x5C, CHR ''u'', CHR ''0'', CHR ''0'', hex_digit (n div 16), hex_digit (n mod 16)]"
      by (simp add: c json_escape_def Let_def n256)
    from 2 have "n div 16 < 16" and "n mod 16 < 16" by auto
    moreover have "char_of (16 * (n div 16) + n mod 16) = c" by (simp add: c)
    moreover have "hex_val (CHR ''0'') = Some 0" by (simp add: hex_val_def)
    ultimately show ?thesis unfolding e by (simp add: dquote_def)
  next
    case 3
    then have "c \<noteq> CHR 0x5C" and "c \<noteq> CHR 0x22" by (auto simp: n_def)
    with 3 show ?thesis by (simp add: json_escape_def dquote_def flip: n_def)
  qed
qed

lemma parse_chars_quote: "parse_chars (concat (map json_escape s) @ dquote # r) = Some (s, r)"
  by (induction s) (simp_all add: parse_chars_escape)

lemma parse_nat_show:
  assumes "r = [] \<or> \<not> is_digit (hd r)"
  shows "parse_nat (show_nat n @ r) = Some (n, r)"
proof -
  have tw: "takeWhile is_digit (show_nat n @ r) = show_nat n"
    and dw: "dropWhile is_digit (show_nat n @ r) = r"
    using assms show_nat_digits [of n] by (cases r; simp add: takeWhile_append2 dropWhile_append2)+
  have "hd (show_nat n) = CHR ''0'' \<Longrightarrow> tl (show_nat n) = []"
  proof (induction n rule: show_nat.induct)
    case (1 n)
    show ?case
    proof (cases "n < 10")
      case True
      then show ?thesis by (simp add: show_nat.simps [of n])
    next
      case False
      then have h: "hd (show_nat (n div 10)) = CHR ''0''"
        using "1.prems" by (simp add: show_nat.simps [of n])
      with False "1.IH" have "tl (show_nat (n div 10)) = []" by simp
      with h have "show_nat (n div 10) = [CHR ''0'']"
        by (metis hd_Cons_tl show_nat_nonempty)
      then have "read_nat (show_nat (n div 10)) = 0" by (simp add: read_nat_def digit_val_def)
      with False show ?thesis by simp
    qed
  qed
  then show ?thesis by (simp add: parse_nat_def Let_def tw dw)
qed

lemma hd_show_nat: "\<exists>c s. show_nat n = c # s \<and> is_digit c"
  using show_nat_digits [of n] show_nat_nonempty [of n] by (metis list.exhaust list.set_intros(1))

lemma parse_int_show:
  assumes "r = [] \<or> \<not> is_digit (hd r)"
  shows "parse_int (show_int i @ r) = Some (i, r)"
proof (cases "i < 0")
  case True
  then show ?thesis using parse_nat_show [OF assms, of "nat (- i)"]
    by (simp add: parse_int_def show_int_def)
next
  case False
  obtain c s where cs: "show_nat (nat i) = c # s" "is_digit c" using hd_show_nat by blast
  from cs(2) have "c \<noteq> CHR ''-''" by (auto simp: is_digit_def)
  with False cs parse_nat_show [OF assms, of "nat i"] show ?thesis
    by (simp add: parse_int_def show_int_def)
qed

text \<open>Text that may follow a value: nothing, or one of the three closing delimiters.\<close>

definition value_end :: "string \<Rightarrow> bool" where
  "value_end r \<longleftrightarrow> r = [] \<or> hd r \<in> {CHR '','', CHR '']'', CHR ''}''}"

lemma value_end_no_digit: "value_end r \<Longrightarrow> r = [] \<or> \<not> is_digit (hd r)"
  by (auto simp: value_end_def is_digit_def)

lemma skip_ws_id: "s \<noteq> [] \<Longrightarrow> \<not> json_ws (hd s) \<Longrightarrow> skip_ws s = s"
  by (cases s) (auto simp: skip_ws_def)

definition first_char :: "char \<Rightarrow> bool" where
  "first_char c \<longleftrightarrow> c = dquote \<or> c = CHR ''['' \<or> c = CHR ''{'' \<or> c = CHR ''n'' \<or> c = CHR ''t'' \<or> c = CHR ''f'' \<or> c = CHR ''-'' \<or> is_digit c"

lemma stringify_first: "\<exists>c s. json_stringify j = c # s \<and> first_char c"
proof (cases j)
  case (JNum i)
  then show ?thesis using hd_show_nat [of "nat i"]
    by (auto simp: show_int_def first_char_def)
qed (auto simp: first_char_def json_quote_def)

lemma skip_ws_stringify: "skip_ws (json_stringify j @ r) = json_stringify j @ r"
proof -
  obtain c s where "json_stringify j = c # s" "first_char c" using stringify_first by blast
  then show ?thesis
    by (auto simp: skip_ws_def first_char_def json_ws_def dquote_def is_digit_def)
qed

fun jfuel :: "json \<Rightarrow> nat" where
  "jfuel (JArr xs) = 1 + sum_list (map (\<lambda>x. jfuel x + 1) xs)"
| "jfuel (JObj kvs) = 1 + sum_list (map (\<lambda>kv. jfuel (snd kv) + 1) kvs)"
| "jfuel _ = 1"

lemma not_num_first:
  assumes "json_stringify (JNum i) = c # s"
  shows "c \<noteq> dquote" "c \<noteq> CHR ''[''" "c \<noteq> CHR ''{''" "c \<noteq> CHR ''n''" "c \<noteq> CHR ''t''" "c \<noteq> CHR ''f''"
  using assms hd_show_nat [of "nat i"]
  by (auto simp: show_int_def dquote_def is_digit_def split: if_splits)

lemma parse_value_num:
  assumes "value_end r"
  shows "parse_value (Suc n) (json_stringify (JNum i) @ r) = Some (JNum i, r)"
proof -
  obtain c s where cs: "json_stringify (JNum i) = c # s" using stringify_first by blast
  note f = not_num_first [OF cs]
  have "skip_ws (c # s @ r) = c # s @ r" using skip_ws_stringify [of "JNum i" r] cs by simp
  moreover have "parse_int (c # s @ r) = Some (i, r)"
    using parse_int_show [OF value_end_no_digit [OF assms], of i] cs by simp
  ultimately show ?thesis using f by (simp add: cs js_starts_with_def del: json_stringify.simps)
qed


lemma expect_Cons: "\<not> json_ws x \<Longrightarrow> expect c (x # s) = (if x = c then Some s else None)"
  by (simp add: expect_def skip_ws_def)

lemma expect_stringify:
  assumes "\<not> first_char c"
  shows "expect c (json_stringify j @ r) = None"
proof -
  obtain x s where "json_stringify j = x # s" "first_char x" using stringify_first by blast
  moreover have "skip_ws (x # s @ r) = x # s @ r" using skip_ws_stringify [of j r] calculation by simp
  ultimately show ?thesis using assms by (auto simp: expect_def)
qed

lemma delimiters:
  "\<not> json_ws (CHR '','')" "\<not> json_ws (CHR '']'')" "\<not> json_ws (CHR ''}'')" "\<not> json_ws (CHR '':'')" "\<not> json_ws dquote"
  "\<not> first_char (CHR '']'')"  "\<not> first_char (CHR ''}'')"
  by (simp_all add: json_ws_def first_char_def dquote_def is_digit_def)

lemma value_end_delim: "value_end (CHR '','' # s)" "value_end (CHR '']'' # s)" "value_end (CHR ''}'' # s)" "value_end []"
  by (simp_all add: value_end_def)

lemma parse_elems_stringify:
  assumes "\<And>x n r. x \<in> set xs \<Longrightarrow> jfuel x \<le> n \<Longrightarrow> value_end r \<Longrightarrow> parse_value n (json_stringify x @ r) = Some (x, r)"
    and "xs \<noteq> []" and "sum_list (map (\<lambda>x. jfuel x + 1) xs) \<le> n"
  shows "parse_elems n (js_join '','' (map json_stringify xs) @ CHR '']'' # r) = Some (xs, r)"
  using assms
proof (induction xs arbitrary: n)
  case (Cons x xs)
  then obtain m where n: "n = Suc m" by (cases n) auto
  show ?case
  proof (cases xs)
    case Nil
    then show ?thesis using Cons.prems n
      by (simp add: expect_Cons delimiters value_end_delim)
  next
    case (Cons y ys)
    have fx: "jfuel x \<le> m" and fxs: "sum_list (map (\<lambda>x. jfuel x + 1) xs) \<le> m"
      using Cons.prems(3) n by auto
    have "parse_value m (json_stringify x @ CHR '','' # js_join '','' (map json_stringify xs) @ CHR '']'' # r) =
        Some (x, CHR '','' # js_join '','' (map json_stringify xs) @ CHR '']'' # r)"
      using Cons.prems(1) fx by (simp add: value_end_delim)
    moreover have "parse_elems m (js_join '','' (map json_stringify xs) @ CHR '']'' # r) = Some (xs, r)"
      using Cons.IH Cons.prems(1) fxs Cons by simp
    ultimately show ?thesis using Cons n
      by (simp add: expect_Cons delimiters)
  qed
qed simp


abbreviation member_text :: "string \<times> json \<Rightarrow> string" where
  "member_text kv \<equiv> json_quote (fst kv) @ '':'' @ json_stringify (snd kv)"

lemma parse_members_stringify:
  assumes "\<And>kv n r. kv \<in> set kvs \<Longrightarrow> jfuel (snd kv) \<le> n \<Longrightarrow> value_end r \<Longrightarrow>
      parse_value n (json_stringify (snd kv) @ r) = Some (snd kv, r)"
    and "kvs \<noteq> []" and "sum_list (map (\<lambda>kv. jfuel (snd kv) + 1) kvs) \<le> n"
  shows "parse_members n (js_join '','' (map member_text kvs) @ CHR ''}'' # r) = Some (kvs, r)"
  using assms
proof (induction kvs arbitrary: n)
  case (Cons kv kvs)
  then obtain m where n: "n = Suc m" by (cases n) auto
  have head: "parse_members n (member_text kv @ q) =
      (case parse_value m (json_stringify (snd kv) @ q) of None \<Rightarrow> None
       | Some (v, r3) \<Rightarrow>
           (case expect (CHR '','') r3 of
              Some q \<Rightarrow> map_option (map_prod ((#) (fst kv, v)) id) (parse_members m q)
            | None \<Rightarrow> map_option (\<lambda>q. ([(fst kv, v)], q)) (expect (CHR ''}'') r3)))" for q
    by (simp add: n json_quote_def expect_Cons delimiters parse_chars_quote)
  show ?case
  proof (cases kvs)
    case Nil
    then show ?thesis using Cons.prems n head [of "CHR ''}'' # r"]
      by (simp add: expect_Cons delimiters value_end_delim)
  next
    case (Cons y ys)
    let ?rest = "js_join '','' (map member_text kvs) @ CHR ''}'' # r"
    have fx: "jfuel (snd kv) \<le> m" and fxs: "sum_list (map (\<lambda>kv. jfuel (snd kv) + 1) kvs) \<le> m"
      using Cons.prems(3) n by auto
    have v: "parse_value m (json_stringify (snd kv) @ CHR '','' # ?rest) = Some (snd kv, CHR '','' # ?rest)"
      using Cons.prems(1) fx by (simp add: value_end_delim)
    moreover have "parse_members m ?rest = Some (kvs, r)"
      using Cons.IH Cons.prems(1) fxs Cons by simp
    moreover have "js_join '','' (map member_text (kv # kvs)) @ CHR ''}'' # r = member_text kv @ CHR '','' # ?rest"
      using Cons by simp
    ultimately show ?thesis using head [of "CHR '','' # ?rest"]
      by (simp only: v) (simp add: expect_Cons delimiters)
  qed
qed simp

lemma js_join_first:
  "xs \<noteq> [] \<Longrightarrow> \<exists>s. js_join sep xs = hd xs @ s"
  by (cases xs rule: list.exhaust; cases "tl xs") auto

lemma expect_join_stringify:
  assumes "xs \<noteq> []" "\<not> first_char c"
  shows "expect c (js_join '','' (map json_stringify xs) @ r) = None"
proof -
  obtain s where "js_join '','' (map json_stringify xs) = json_stringify (hd xs) @ s"
    using js_join_first [of "map json_stringify xs" "'',''"] assms(1) by (auto simp: hd_map)
  then show ?thesis using expect_stringify [OF assms(2)] by simp
qed

lemma expect_join_members:
  assumes "kvs \<noteq> []" "c \<noteq> dquote"
  shows "expect c (js_join '','' (map member_text kvs) @ r) = None"
proof -
  obtain s where "js_join '','' (map member_text kvs) = member_text (hd kvs) @ s"
    using js_join_first [of "map member_text kvs" "'',''"] assms(1) by (auto simp: hd_map)
  then show ?thesis using assms(2) by (simp add: json_quote_def expect_Cons delimiters)
qed

lemma parse_value_stringify:
  "jfuel j \<le> n \<Longrightarrow> value_end r \<Longrightarrow> parse_value n (json_stringify j @ r) = Some (j, r)"
proof (induction j arbitrary: n r)
  case JNull
  then show ?case by (cases n) (simp_all add: skip_ws_def json_ws_def dquote_def js_starts_with_def)
next
  case (JBool b)
  then show ?case
    by (cases n; cases b) (simp_all add: skip_ws_def json_ws_def dquote_def js_starts_with_def)
next
  case (JNum i)
  then show ?case using parse_value_num by (cases n) auto
next
  case (JStr s)
  then show ?case by (cases n) (simp_all add: json_quote_def skip_ws_def delimiters parse_chars_quote)
next
  case (JArr xs)
  then obtain m where n: "n = Suc m" by (cases n) auto
  show ?case
  proof (cases "xs = []")
    case True
    then show ?thesis by (simp add: n skip_ws_def json_ws_def dquote_def expect_Cons)
  next
    case False
    have "parse_elems m (js_join '','' (map json_stringify xs) @ CHR '']'' # r) = Some (xs, r)"
      using JArr n False by (intro parse_elems_stringify) auto
    then show ?thesis using expect_join_stringify [OF False, of "CHR '']''"] delimiters
      by (simp add: n skip_ws_def json_ws_def dquote_def)
  qed
next
  case (JObj kvs)
  then obtain m where n: "n = Suc m" by (cases n) auto
  show ?case
  proof (cases "kvs = []")
    case True
    then show ?thesis by (simp add: n skip_ws_def json_ws_def dquote_def expect_Cons)
  next
    case False
    have "parse_members m (js_join '','' (map member_text kvs) @ CHR ''}'' # r) = Some (kvs, r)"
    proof (rule parse_members_stringify)
      fix kv n r assume "kv \<in> set kvs" "jfuel (snd kv) \<le> n" "value_end r"
      then show "parse_value n (json_stringify (snd kv) @ r) = Some (snd kv, r)"
        using JObj.IH [of kv "snd kv" n r] by (cases kv) (auto simp: snds.simps)
    qed (use JObj.prems n False in auto)
    then show ?thesis using expect_join_members [OF False, of "CHR ''}''" "CHR ''}'' # r"]
      by (simp add: n skip_ws_def json_ws_def dquote_def)
  qed
qed

lemma length_js_join_ge: "sum_list (map length xs) + length xs \<le> length (js_join '','' xs) + 1"
  by (induction "'',''" xs rule: js_join.induct) auto

lemma jfuel_le: "jfuel j \<le> 2 * length (json_stringify j)"
proof (induction j)
  case (JArr xs)
  have "sum_list (map (\<lambda>x. jfuel x + 1) xs) \<le> sum_list (map (\<lambda>x. 2 * length (json_stringify x) + 1) xs)"
    using JArr by (intro sum_list_mono) auto
  also have "\<dots> = 2 * sum_list (map length (map json_stringify xs)) + length xs"
    by (induction xs) auto
  also have "\<dots> \<le> 2 * (length (js_join '','' (map json_stringify xs)) + 1)"
    using length_js_join_ge [of "map json_stringify xs"] by simp
  finally show ?case by simp
next
  case (JObj kvs)
  have "sum_list (map (\<lambda>kv. jfuel (snd kv) + 1) kvs) \<le> sum_list (map (\<lambda>kv. 2 * length (member_text kv) + 1) kvs)"
    using JObj by (intro sum_list_mono) (fastforce simp: snds.simps)
  also have "\<dots> = 2 * sum_list (map length (map member_text kvs)) + length kvs"
    by (induction kvs) auto
  also have "\<dots> \<le> 2 * (length (js_join '','' (map member_text kvs)) + 1)"
    using length_js_join_ge [of "map member_text kvs"] by simp
  finally show ?case by simp
next
  case (JNum i)
  then show ?case using hd_show_nat [of "nat i"] by (auto simp: show_int_def)
qed (auto simp: json_quote_def)

lemma map_set_append_new: "k \<notin> fst ` set m \<Longrightarrow> map_set m k v = m @ [(k, v)]"
  by (induction m) auto

lemma foldl_map_set_distinct:
  "distinct (map fst (m @ kvs)) \<Longrightarrow> foldl (\<lambda>m kv. map_set m (fst kv) (snd kv)) m kvs = m @ kvs"
proof (induction kvs arbitrary: m)
  case (Cons kv kvs)
  then have "map_set m (fst kv) (snd kv) = m @ [kv]"
    using map_set_append_new [of "fst kv" m "snd kv"] by auto
  with Cons show ?case by simp
qed simp

lemma json_dedup_id: "json_ok j \<Longrightarrow> json_dedup j = j"
proof (induction j)
  case (JArr xs)
  then show ?case by (simp add: map_idI)
next
  case (JObj kvs)
  have "map (map_prod id json_dedup) kvs = kvs"
    using JObj by (intro map_idI) (auto simp: snds.simps)
  with JObj.prems foldl_map_set_distinct [of "[]" kvs] show ?case by simp
qed auto

lemma set_map_set_subset: "set (map_set m k v) \<subseteq> insert (k, v) (set m)"
  by (induction m k v rule: map_set.induct) auto

lemma json_ok_dedup: "json_ok (json_dedup j)"
proof (induction j)
  case (JObj kvs)
  have keep: "distinct (map fst m) \<and> (\<forall>kv \<in> set m. json_ok (snd kv)) \<Longrightarrow> \<forall>kv \<in> set xs. json_ok (snd kv) \<Longrightarrow>
      distinct (map fst (foldl (\<lambda>m kv. map_set m (fst kv) (snd kv)) m xs)) \<and>
      (\<forall>kv \<in> set (foldl (\<lambda>m kv. map_set m (fst kv) (snd kv)) m xs). json_ok (snd kv))" for m xs :: "(string \<times> json) list"
  proof (induction xs arbitrary: m)
    case (Cons x xs)
    have "map_ok (map_set m (fst x) (snd x))" using Cons.prems(1) by (intro jm.ok_put) (simp add: map_ok_def)
    moreover have "\<forall>kv \<in> set (map_set m (fst x) (snd x)). json_ok (snd kv)"
      using Cons.prems set_map_set_subset [of m "fst x" "snd x"] by auto
    ultimately show ?case using Cons.IH [of "map_set m (fst x) (snd x)"] Cons.prems by (simp add: map_ok_def)
  qed simp
  show ?case proof -
    have "\<forall>kv \<in> set (map (map_prod id json_dedup) kvs). json_ok (snd kv)" using JObj by (auto simp: snds.simps)
    then show ?thesis using keep [of "[]" "map (map_prod id json_dedup) kvs"] by simp
  qed
qed auto

lemma json_parse_ok: "json_parse s = Some j \<Longrightarrow> json_ok j"
  by (auto simp: json_parse_def json_ok_dedup split: option.splits if_splits)

lemma json_parse_stringify: "json_ok j \<Longrightarrow> json_parse (json_stringify j) = Some j"
  using parse_value_stringify [of j "2 * length (json_stringify j) + 2" "[]"] jfuel_le [of j]
  by (simp add: json_parse_def value_end_delim json_dedup_id skip_ws_def)

lemma json_stringify_inj: "json_ok a \<Longrightarrow> json_ok b \<Longrightarrow> json_stringify a = json_stringify b \<longleftrightarrow> a = b"
  by (metis json_parse_stringify option.inject)


section \<open>Canonical forms\<close>

text \<open>Two values are the same up to the order of properties, at every depth.\<close>

inductive json_eqv :: "json \<Rightarrow> json \<Rightarrow> bool" where
  atom: "json_eqv j j"
| arr: "list_all2 json_eqv xs ys \<Longrightarrow> json_eqv (JArr xs) (JArr ys)"
| obj: "list_all2 (\<lambda>a b. fst a = fst b \<and> json_eqv (snd a) (snd b)) kvs kvs' \<Longrightarrow> mset kvs' = mset kvs'' \<Longrightarrow>
    json_eqv (JObj kvs) (JObj kvs'')"

lemma sort_key_fst_unique:
  assumes "distinct (map fst kvs)" and "mset kvs = mset kvs'"
  shows "sort_key fst kvs = sort_key fst kvs'"
proof (rule map_sorted_distinct_set_unique [where f = fst])
  have m: "mset (map fst kvs) = mset (map fst kvs')" using assms(2) by simp
  have s: "set kvs = set kvs'" using assms(2) by (rule mset_eq_setD)
  have d': "distinct (map fst kvs')" using assms(1) m mset_eq_imp_distinct_iff by blast
  show "inj_on fst (set (sort_key fst kvs) \<union> set (sort_key fst kvs'))"
    using assms(1) s by (simp add: distinct_map)
  show "set (sort_key fst kvs) = set (sort_key fst kvs')" using s by simp
  have "mset (map fst (sort_key fst kvs)) = mset (map fst kvs)"
    and "mset (map fst (sort_key fst kvs')) = mset (map fst kvs')" by simp_all
  then show "distinct (map fst (sort_key fst kvs))" and "distinct (map fst (sort_key fst kvs'))"
    using assms(1) d' mset_eq_imp_distinct_iff by blast+
qed simp_all

lemma canonicalize_obj_eqI:
  assumes "distinct (map fst kvs)" "distinct (map fst kvs')"
    and "\<And>k. map_option canonicalize (map_of kvs k) = map_option canonicalize (map_of kvs' k)"
  shows "canonicalize (JObj kvs) = canonicalize (JObj kvs')"
proof -
  let ?c = "map (map_prod id canonicalize)"
  have d: "distinct (map fst (?c kvs))" "distinct (map fst (?c kvs'))" using assms(1,2) by (simp_all add: comp_def)
  have m: "map_of (?c l) k = map_option canonicalize (map_of l k)" for l k by (induction l) auto
  have "map_of (?c kvs) = map_of (?c kvs')" using assms(3) by (simp add: m fun_eq_iff)
  then have "set (?c kvs) = set (?c kvs')" using d map_of_inject_set by blast
  moreover have "distinct (?c kvs)" "distinct (?c kvs')"
    using d [unfolded distinct_map [of fst]] by blast+
  ultimately have "mset (?c kvs) = mset (?c kvs')" using set_eq_iff_mset_eq_distinct by blast
  then show ?thesis using sort_key_fst_unique [OF d(1)] by simp
qed
lemma json_ok_canonicalize: "json_ok j \<Longrightarrow> json_ok (canonicalize j)"
proof (induction j)
  case (JObj kvs)
  have "mset (map fst (sort_key fst (map (map_prod id canonicalize) kvs))) = mset (map fst kvs)"
    unfolding mset_map mset_sort by (simp add: multiset.map_comp comp_def)
  then have "distinct (map fst (sort_key fst (map (map_prod id canonicalize) kvs)))"
    using JObj.prems mset_eq_imp_distinct_iff by (metis json_ok.simps(2))
  then show ?case using JObj by (fastforce simp: snds.simps)
qed auto

lemma canonicalize_eqv: "json_eqv a b \<Longrightarrow> json_ok a \<Longrightarrow> canonicalize a = canonicalize b"
proof (induction rule: json_eqv.induct)
  case (arr xs ys)
  then show ?case by (auto simp: list_all2_conv_all_nth intro!: nth_equalityI)
next
  case (obj kvs kvs' kvs'')
  let ?c = "map_prod id canonicalize"
  have "map ?c kvs = map ?c kvs'"
    using obj.IH obj.prems by (auto simp: list_all2_conv_all_nth map_prod_def split_beta intro!: nth_equalityI)
  moreover have "sort_key fst (map ?c kvs') = sort_key fst (map ?c kvs'')"
  proof (rule sort_key_fst_unique)
    have "map fst kvs = map fst kvs'"
      using obj.IH by (auto simp: list_all2_conv_all_nth intro!: nth_equalityI)
    with obj.prems show "distinct (map fst (map ?c kvs'))"
      by (simp add: comp_def)
    show "mset (map ?c kvs') = mset (map ?c kvs'')" using obj.hyps by simp
  qed
  ultimately show ?case by simp
qed simp

lemma eqv_canonicalize: "json_eqv j (canonicalize j)"
proof (induction j)
  case (JArr xs)
  then show ?case by (auto simp: list_all2_map2 intro!: json_eqv.arr list.rel_refl_strong)
next
  case (JObj kvs)
  have "list_all2 (\<lambda>a b. fst a = fst b \<and> json_eqv (snd a) (snd b)) kvs (map (map_prod id canonicalize) kvs)"
    using JObj by (fastforce simp: list_all2_map2 snds.simps intro!: list.rel_refl_strong)
  then show ?case by (auto intro: json_eqv.obj)
qed (auto intro: json_eqv.atom)

lemma canonicalize_idem: "json_ok j \<Longrightarrow> canonicalize (canonicalize j) = canonicalize j"
  using canonicalize_eqv [OF eqv_canonicalize] by metis

lemma jget_canonicalize:
  assumes "json_ok j"
  shows "jget k (canonicalize j) = map_option canonicalize (jget k j)"
proof (cases j)
  case (JObj kvs)
  let ?ms = "map (map_prod id canonicalize) kvs"
  have "distinct (map fst ?ms)" using assms JObj by (simp add: map_map comp_def)
  moreover have "mset (map fst (sort_key fst ?ms)) = mset (map fst ?ms)" by (simp only: mset_map mset_sort)
  then have "distinct (map fst (sort_key fst ?ms))"
    using \<open>distinct (map fst ?ms)\<close> by (metis mset_eq_imp_distinct_iff)
  ultimately have "map_of (sort_key fst ?ms) = map_of ?ms"
    by (intro iffD2 [OF map_of_inject_set]) simp_all
  moreover have "map_of ?ms k = map_option canonicalize (map_of kvs k)"
    by (induction kvs) auto
  ultimately show ?thesis using JObj by simp
qed simp_all

end
