(* ===== verification/Adapter_Registry.thy ===== *)
theory Adapter_Registry
  imports Json
begin

text \<open>
  \<open>packages/core/src/adapter-registry.ts\<close>: the immutable registry of adapter
  registrations. The constructor validates the registrations it is given (a JSON value from
  the process configuration) and throws on the first bad one; lookups throw for an unknown
  adapter; inbound authentication compares the UTF-8 bytes of two secrets; outbound signing
  prefixes an HMAC. \<open>new URL(..)\<close> and \<open>createHmac\<close> are platform code and are
  parameters: \<open>url_protocol\<close> gives the protocol of a parseable absolute URL, \<open>hmac\<close> the
  lowercase hex digest of a key and a byte string.

  \<open>conversationStorageKey\<close> is the key under which every per-conversation map of the core
  is indexed. The locale \<open>conv_key\<close> is what those components rely on: the encoding
  separates conversations.
\<close>

section \<open>UTF-8\<close>

definition utf8_char :: "char \<Rightarrow> nat list" where
  "utf8_char c = (let n = of_char c in if n < 128 then [n] else [192 + n div 64, 128 + n mod 64])"

definition utf8 :: "string \<Rightarrow> nat list" where
  "utf8 s = concat (map utf8_char s)"

section \<open>Registry\<close>

record AdapterRegistration =
  ar_adapterId :: string
  ar_callbackUrl :: string
  ar_sharedSecret :: string
  ar_agentId :: "json option"

record AdapterDescriptor =
  ad_adapterId :: string
  ad_callbackUrl :: string

text \<open>The \<open>AdapterRegistrationError\<close> and \<open>UnknownAdapterError\<close> of the source.\<close>

datatype registry_error =
    RegistrationsNotArray
  | RegistrationNotObject
  | AdapterIdInvalid
  | CallbackUrlInvalid string
  | SharedSecretInvalid string
  | DuplicateAdapterId string
  | UnknownAdapter string

type_synonym registry = "(string, AdapterRegistration) js_map"

definition SIGNATURE_PREFIX :: string where
  "SIGNATURE_PREFIX = ''sha256=''"

definition parseCallbackUrl :: "(string \<Rightarrow> string option) \<Rightarrow> json option \<Rightarrow> string option" where
  "parseCallbackUrl url_protocol callbackUrl =
     (case jstring callbackUrl of
        None \<Rightarrow> None
      | Some u \<Rightarrow>
          if u = [] then None
          else (case url_protocol u of
                  None \<Rightarrow> None
                | Some p \<Rightarrow> if p \<noteq> ''http:'' \<and> p \<noteq> ''https:'' then None else Some u))"

definition secretEquals :: "string \<Rightarrow> string \<Rightarrow> bool" where
  "secretEquals candidate registered =
     (let a = utf8 candidate; b = utf8 registered
      in if length a \<noteq> length b then False else a = b)"

text \<open>One entry of the constructor's loop: its checks in order, then the frozen copy.\<close>

definition validate_entry :: "(string \<Rightarrow> string option) \<Rightarrow> registry \<Rightarrow> json \<Rightarrow> (registry_error, AdapterRegistration) result" where
  "validate_entry url_protocol m entry =
     (case entry of
        JObj _ \<Rightarrow>
          (case jstring (jget ''adapterId'' entry) of
             None \<Rightarrow> Inl AdapterIdInvalid
           | Some adapterId \<Rightarrow>
               if adapterId = [] then Inl AdapterIdInvalid
               else (case parseCallbackUrl url_protocol (jget ''callbackUrl'' entry) of
                  None \<Rightarrow> Inl (CallbackUrlInvalid adapterId)
                | Some callbackUrl \<Rightarrow>
                    (case jstring (jget ''sharedSecret'' entry) of
                       None \<Rightarrow> Inl (SharedSecretInvalid adapterId)
                     | Some sharedSecret \<Rightarrow>
                         if sharedSecret = [] then Inl (SharedSecretInvalid adapterId)
                         else if map_get m adapterId \<noteq> None then Inl (DuplicateAdapterId adapterId)
                         else Inr \<lparr>ar_adapterId = adapterId, ar_callbackUrl = callbackUrl,
                                    ar_sharedSecret = sharedSecret, ar_agentId = jget ''agentId'' entry\<rparr>)))
      | _ \<Rightarrow> Inl RegistrationNotObject)"

fun build_registry :: "(string \<Rightarrow> string option) \<Rightarrow> registry \<Rightarrow> json list \<Rightarrow> (registry_error, registry) result" where
  "build_registry url_protocol m [] = Inr m"
| "build_registry url_protocol m (entry # rest) =
     (case validate_entry url_protocol m entry of
        Inl e \<Rightarrow> Inl e
      | Inr r \<Rightarrow> build_registry url_protocol (map_set m (ar_adapterId r) r) rest)"

definition newAdapterRegistry :: "(string \<Rightarrow> string option) \<Rightarrow> json \<Rightarrow> (registry_error, registry) result" where
  "newAdapterRegistry url_protocol registrations =
     (case registrations of
        JArr entries \<Rightarrow> build_registry url_protocol [] entries
      | _ \<Rightarrow> Inl RegistrationsNotArray)"

definition hasAdapter :: "registry \<Rightarrow> string \<Rightarrow> bool" where
  "hasAdapter reg adapterId \<longleftrightarrow> map_get reg adapterId \<noteq> None"

definition requireAdapter :: "registry \<Rightarrow> string \<Rightarrow> (registry_error, AdapterRegistration) result" where
  "requireAdapter reg adapterId =
     (case map_get reg adapterId of None \<Rightarrow> Inl (UnknownAdapter adapterId) | Some r \<Rightarrow> Inr r)"

definition getCallbackUrl :: "registry \<Rightarrow> string \<Rightarrow> (registry_error, string) result" where
  "getCallbackUrl reg adapterId = result_bind (requireAdapter reg adapterId) (\<lambda>r. Inr (ar_callbackUrl r))"

definition authenticateInbound :: "registry \<Rightarrow> string \<Rightarrow> string \<Rightarrow> (registry_error, bool) result" where
  "authenticateInbound reg adapterId presentedSecret =
     result_bind (requireAdapter reg adapterId) (\<lambda>r. Inr (secretEquals presentedSecret (ar_sharedSecret r)))"

definition signOutbound :: "(string \<Rightarrow> nat list \<Rightarrow> string) \<Rightarrow> registry \<Rightarrow> string \<Rightarrow> string \<Rightarrow> (registry_error, string) result" where
  "signOutbound hmac reg adapterId body =
     result_bind (requireAdapter reg adapterId)
       (\<lambda>r. Inr (SIGNATURE_PREFIX @ hmac (ar_sharedSecret r) (utf8 body)))"

definition listAdapters :: "registry \<Rightarrow> AdapterDescriptor list" where
  "listAdapters reg =
     map (\<lambda>kv. \<lparr>ad_adapterId = ar_adapterId (snd kv), ad_callbackUrl = ar_callbackUrl (snd kv)\<rparr>) reg"

definition conversationStorageKey :: "string \<Rightarrow> string \<Rightarrow> string" where
  "conversationStorageKey adapterId conversationKey =
     show_nat (length adapterId) @ '':'' @ adapterId @ conversationKey"

section \<open>The conversation key separates conversations\<close>

text \<open>
  What the components that index a map by conversation rely on, and what follows for such a
  map: writing or deleting one conversation's entry leaves every other conversation's.
\<close>

locale conv_key =
  fixes enc :: "string \<Rightarrow> string \<Rightarrow> string"
  assumes enc_inj: "enc a k = enc a' k' \<Longrightarrow> a = a' \<and> k = k'"
begin

lemma enc_eq [simp]: "enc a k = enc a' k' \<longleftrightarrow> a = a' \<and> k = k'"
  by (blast dest: enc_inj)

lemma conv_set_other:
  "(a, k) \<noteq> (a', k') \<Longrightarrow> map_get (map_set m (enc a k) v) (enc a' k') = map_get m (enc a' k')"
  by (auto simp: jm.get_put)

lemma conv_delete_other:
  "(a, k) \<noteq> (a', k') \<Longrightarrow> map_get (map_delete m (enc a k)) (enc a' k') = map_get m (enc a' k')"
  by (auto simp: jm.get_del)

end

text \<open>The decoding the comment of \<open>storageKey\<close> describes.\<close>

definition decode_storage_key :: "string \<Rightarrow> string \<times> string" where
  "decode_storage_key s =
     (let n = read_nat (takeWhile is_digit s); r = tl (dropWhile is_digit s) in (take n r, drop n r))"

lemma decode_conversationStorageKey:
  "decode_storage_key (conversationStorageKey a k) = (a, k)"
proof -
  have "\<not> is_digit (CHR '':'')" by (simp add: is_digit_def)
  then show ?thesis
    by (simp add: decode_storage_key_def conversationStorageKey_def Let_def
        takeWhile_digits_show_nat dropWhile_digits_show_nat)
qed

interpretation ck: conv_key conversationStorageKey
  by unfold_locales (metis decode_conversationStorageKey prod.inject)

section \<open>Secrets\<close>

lemma utf8_Cons: "utf8 (c # s) = utf8_char c @ utf8 s"
  by (simp add: utf8_def)

lemma utf8_char_cases:
  "utf8_char c = [of_char c] \<and> (of_char c :: nat) < 128 \<or>
   utf8_char c = [192 + of_char c div 64, 128 + of_char c mod 64]"
  by (auto simp: utf8_char_def Let_def)

lemma char_eq_divmod:
  "(of_char c :: nat) div 64 = of_char d div 64 \<Longrightarrow> (of_char c :: nat) mod 64 = of_char d mod 64 \<Longrightarrow> c = d"
  by (metis div_mult_mod_eq of_char_eq_iff)

lemma utf8_char_append_eq:
  assumes "utf8_char c @ xs = utf8_char d @ ys"
  shows "c = d \<and> xs = ys"
  using assms utf8_char_cases [of c] utf8_char_cases [of d]
  by (auto intro: char_eq_divmod)

lemma utf8_inj: "utf8 s = utf8 t \<Longrightarrow> s = t"
proof (induction s arbitrary: t)
  case Nil
  then show ?case by (cases t) (auto simp: utf8_def utf8_char_def Let_def split: if_splits)
next
  case (Cons c s)
  then obtain d t' where t: "t = d # t'"
    by (cases t) (auto simp: utf8_def utf8_char_def Let_def split: if_splits)
  with Cons utf8_char_append_eq [of c "utf8 s" d "utf8 t'"] show ?case by (simp add: utf8_Cons)
qed

lemma secretEquals_iff [simp]: "secretEquals a b \<longleftrightarrow> a = b"
  by (auto simp: secretEquals_def Let_def dest: utf8_inj)

section \<open>The constructor\<close>

lemma validate_entry_Inr:
  assumes "validate_entry up m entry = Inr r"
  shows "map_get m (ar_adapterId r) = None \<and> ar_adapterId r \<noteq> [] \<and> ar_sharedSecret r \<noteq> []
    \<and> jget ''adapterId'' entry = Some (JStr (ar_adapterId r))
    \<and> jget ''callbackUrl'' entry = Some (JStr (ar_callbackUrl r))
    \<and> jget ''sharedSecret'' entry = Some (JStr (ar_sharedSecret r))
    \<and> jget ''agentId'' entry = ar_agentId r
    \<and> (up (ar_callbackUrl r) = Some ''http:'' \<or> up (ar_callbackUrl r) = Some ''https:'')"
proof -
  have js: "jstring x = Some s \<Longrightarrow> x = Some (JStr s)" for x s
    by (cases x rule: jstring.cases) auto
  show ?thesis
    using assms unfolding validate_entry_def parseCallbackUrl_def
    by (auto split: json.splits option.splits if_splits dest!: js)
qed

lemma map_set_new: "map_get m k = None \<Longrightarrow> map_set m k v = m @ [(k, v)]"
  by (simp add: map_get_def map_of_eq_None_iff map_set_append_new)

lemma build_registry_Inr:
  "build_registry up m entries = Inr reg \<Longrightarrow>
   \<exists>rs. reg = m @ map (\<lambda>r. (ar_adapterId r, r)) rs
     \<and> list_all2 (\<lambda>entry r. \<exists>m'. validate_entry up m' entry = Inr r) entries rs
     \<and> (map_ok m \<longrightarrow> map_ok reg)"
proof (induction entries arbitrary: m)
  case (Cons entry rest)
  then obtain r where r: "validate_entry up m entry = Inr r"
    and b: "build_registry up (map_set m (ar_adapterId r) r) rest = Inr reg"
    by (auto split: sum.splits)
  have "map_set m (ar_adapterId r) r = m @ [(ar_adapterId r, r)]"
    using validate_entry_Inr [OF r] by (simp add: map_set_new)
  moreover have "map_ok m \<Longrightarrow> map_ok (map_set m (ar_adapterId r) r)" by (rule map_ok_set)
  moreover obtain rs where "reg = map_set m (ar_adapterId r) r @ map (\<lambda>r. (ar_adapterId r, r)) rs"
    "list_all2 (\<lambda>entry r. \<exists>m'. validate_entry up m' entry = Inr r) rest rs"
    "map_ok (map_set m (ar_adapterId r) r) \<longrightarrow> map_ok reg"
    using Cons.IH [OF b] by blast
  ultimately show ?case using r by (intro exI [of _ "r # rs"]) auto
qed auto

section \<open>Properties of the registry\<close>

text \<open>
  C25. A registry that could be built has one registration per configured entry, in the
  configured order and with distinct ids; each entry's adapter authenticates exactly with the
  secret configured for it, and an id that was not configured is refused by every lookup.\<close>

theorem adapter_registry_sound:
  assumes "newAdapterRegistry up (JArr entries) = Inr reg"
  shows "distinct (map ad_adapterId (listAdapters reg)) \<and> length (listAdapters reg) = length entries \<and>
    (\<forall>i < length entries. jget ''adapterId'' (entries ! i) = Some (JStr (ad_adapterId (listAdapters reg ! i))) \<and>
       jget ''callbackUrl'' (entries ! i) = Some (JStr (ad_callbackUrl (listAdapters reg ! i))) \<and>
       getCallbackUrl reg (ad_adapterId (listAdapters reg ! i)) = Inr (ad_callbackUrl (listAdapters reg ! i)) \<and>
       (\<forall>s. authenticateInbound reg (ad_adapterId (listAdapters reg ! i)) s =
              Inr (jget ''sharedSecret'' (entries ! i) = Some (JStr s)))) \<and>
    (\<forall>a s. a \<notin> ad_adapterId ` set (listAdapters reg) \<longrightarrow>
       \<not> hasAdapter reg a \<and> authenticateInbound reg a s = Inl (UnknownAdapter a))"
proof -
  obtain rs where reg: "reg = map (\<lambda>r. (ar_adapterId r, r)) rs"
    and all: "list_all2 (\<lambda>entry r. \<exists>m'. validate_entry up m' entry = Inr r) entries rs" and ok: "map_ok reg"
    using build_registry_Inr [of up "[]" entries reg] assms by (auto simp: newAdapterRegistry_def map_ok_def)
  have dist: "distinct (map ar_adapterId rs)" using ok by (simp add: reg map_ok_def comp_def)
  have ids: "map ad_adapterId (listAdapters reg) = map ar_adapterId rs" by (simp add: listAdapters_def reg)
  have get: "map_get reg (ar_adapterId r) = Some r" if "r \<in> set rs" for r
    using dist that by (auto simp: reg map_get_def comp_def intro!: map_of_is_SomeI)
  have la: "listAdapters reg = map (\<lambda>r. \<lparr>ad_adapterId = ar_adapterId r, ad_callbackUrl = ar_callbackUrl r\<rparr>) rs"
    by (simp add: listAdapters_def reg)
  have none: "map_get reg a = None" if "a \<notin> ad_adapterId ` set (listAdapters reg)" for a
    using that arg_cong [OF ids, of set] by (auto simp: reg map_get_def map_of_eq_None_iff image_image)
  have len: "length rs = length entries" using all by (simp add: list_all2_conv_all_nth)
  have ent: "jget ''adapterId'' (entries ! i) = Some (JStr (ar_adapterId (rs ! i))) \<and>
      jget ''callbackUrl'' (entries ! i) = Some (JStr (ar_callbackUrl (rs ! i))) \<and>
      jget ''sharedSecret'' (entries ! i) = Some (JStr (ar_sharedSecret (rs ! i))) \<and>
      map_get reg (ar_adapterId (rs ! i)) = Some (rs ! i)" if i: "i < length entries" for i
  proof -
    obtain m' where "validate_entry up m' (entries ! i) = Inr (rs ! i)"
      using all i by (auto simp: list_all2_conv_all_nth)
    then show ?thesis using validate_entry_Inr get i len by auto
  qed
  show ?thesis
  proof (intro conjI allI impI)
    show "distinct (map ad_adapterId (listAdapters reg))" using dist ids by simp
  qed (use none ent len in \<open>auto simp: la hasAdapter_def authenticateInbound_def getCallbackUrl_def requireAdapter_def\<close>)
qed

definition w_entries :: "json list" where
  "w_entries = [JObj [(''adapterId'', JStr ''web''), (''callbackUrl'', JStr ''http://h/cb''), (''sharedSecret'', JStr ''s1'')],
     JObj [(''adapterId'', JStr ''chat''), (''callbackUrl'', JStr ''http://h/cb2''), (''sharedSecret'', JStr ''s2'')]]"

theorem adapter_registry_sound_witness:
  "\<exists>reg. newAdapterRegistry (\<lambda>u. Some ''http:'') (JArr w_entries) = Inr reg \<and> length (listAdapters reg) = 2"
proof -
  obtain reg where "newAdapterRegistry (\<lambda>u. Some ''http:'') (JArr w_entries) = Inr reg"
    by (simp add: newAdapterRegistry_def w_entries_def validate_entry_def parseCallbackUrl_def map_get_def)
  with adapter_registry_sound [OF this] show ?thesis by (auto simp: w_entries_def)
qed

text \<open>
  C26. The storage key of a conversation separates conversations: two pairs of adapter id and
  conversation key share a storage key only when they are the same pair, whatever characters
  (digits and colons included) they contain.\<close>

theorem conversationStorageKey_separates:
  "conversationStorageKey a k = conversationStorageKey a' k' \<longleftrightarrow> a = a' \<and> k = k'"
  by (rule ck.enc_eq)

end
