(* ===== verification/Session_Registry.thy ===== *)
theory Session_Registry
  imports Sql_Table Adapter_Registry
begin

text \<open>
  \<open>packages/core/src/session-registry.ts\<close>: the table that maps a conversation (adapter id
  and conversation key) to the session file of the agent process, with compare-and-set
  ownership. The SQL statements are those of the source. The answers of the child process
  to \<open>new_session\<close>, \<open>get_state\<close> and \<open>switch_session\<close> are arguments, the calls made on it are
  part of the results, and \<open>ts\<close> is the time the operation reads from the clock.

  \<open>getOrCreate\<close> is asynchronous: it is modelled by its synchronous first half, and by the
  step that completes a creation once the child has answered. The step relation
  \<open>registry_step\<close> interleaves those halves with every other operation; its invariant is
  that a conversation never has two creations in flight.
\<close>

section \<open>Data\<close>

record SessionRecord =
  sr_adapterId :: string
  sr_conversationKey :: string
  sr_sessionFile :: string
  sr_createdAt :: string
  sr_lastActive :: string
  sr_currentOwner :: "string option"

record AcquireResult =
  aq_record :: SessionRecord
  aq_acquired :: bool

text \<open>The answer of the child process to one command.\<close>

record RpcResponse =
  rr_success :: bool
  rr_error :: "string option"
  rr_data :: "json option"

datatype child_call = NewSession "string option" | GetState | SwitchSession string

datatype session_error =
    AdapterIdRequired
  | ConversationKeyRequired
  | SessionAlreadyExists string string
  | SessionRace string string
  | NewSessionFailed string
  | GetStateFailed string
  | GetStateNoData
  | NoSessionFile
  | SwitchSessionFailed string string
  | NoSessionMapping string string
  | OwnerMismatch string string "string option"
  | SessionDisappeared string string

definition session_key :: "SessionRecord \<Rightarrow> string \<times> string" where
  "session_key r = (sr_adapterId r, sr_conversationKey r)"

text \<open>JavaScript's falsy values among JSON values and \<open>undefined\<close>.\<close>

fun jfalsy :: "json option \<Rightarrow> bool" where
  "jfalsy None = True"
| "jfalsy (Some JNull) = True"
| "jfalsy (Some (JBool b)) = (\<not> b)"
| "jfalsy (Some (JNum n)) = (n = 0)"
| "jfalsy (Some (JStr s)) = (s = [])"
| "jfalsy (Some _) = False"

definition or_unknown :: "string option \<Rightarrow> string" where
  "or_unknown e = (case e of None \<Rightarrow> ''unknown'' | Some s \<Rightarrow> s)"

section \<open>Operations\<close>

definition getRaw :: "SessionRecord list \<Rightarrow> string \<Rightarrow> string \<Rightarrow> SessionRecord option" where
  "getRaw rows a k = sql_get (\<lambda>r. sr_adapterId r = a \<and> sr_conversationKey r = k) rows"

text \<open>The part of \<open>create\<close> that runs before the child process is touched.\<close>

definition create_guard :: "SessionRecord list \<Rightarrow> string \<Rightarrow> string \<Rightarrow> session_error option" where
  "create_guard rows a k =
     (if a = [] then Some AdapterIdRequired
      else if k = [] then Some ConversationKeyRequired
      else if getRaw rows a k \<noteq> None then Some (SessionAlreadyExists a k)
      else None)"

text \<open>What \<open>create\<close> reads from the child's answers: the session file, or the error thrown.\<close>

definition created_session_file :: "RpcResponse \<Rightarrow> RpcResponse \<Rightarrow> (session_error, string) result" where
  "created_session_file newRes stateRes =
     (if \<not> rr_success newRes then Inl (NewSessionFailed (or_unknown (rr_error newRes)))
      else if \<not> rr_success stateRes then Inl (GetStateFailed (or_unknown (rr_error stateRes)))
      else if jfalsy (rr_data stateRes) then Inl GetStateNoData
      else (case rr_data stateRes of
              None \<Rightarrow> Inl GetStateNoData
            | Some state \<Rightarrow>
                (case jstring (jget ''sessionFile'' state) of
                   None \<Rightarrow> Inl NoSessionFile
                 | Some f \<Rightarrow> if f = [] then Inl NoSessionFile else Inr f)))"

text \<open>The commit of \<open>create\<close>: the \<open>INSERT\<close> under the primary key.\<close>

definition create_commit :: "SessionRecord list \<Rightarrow> RpcResponse \<Rightarrow> RpcResponse \<Rightarrow> string \<Rightarrow> string \<Rightarrow> string
    \<Rightarrow> (session_error, SessionRecord) result \<times> SessionRecord list" where
  "create_commit rows newRes stateRes a k ts =
     (case created_session_file newRes stateRes of
        Inl e \<Rightarrow> (Inl e, rows)
      | Inr f \<Rightarrow>
          let r = \<lparr>sr_adapterId = a, sr_conversationKey = k, sr_sessionFile = f,
                   sr_createdAt = ts, sr_lastActive = ts, sr_currentOwner = None\<rparr>
          in (case sql_insert session_key r rows of
                None \<Rightarrow> (Inl (SessionRace a k), rows)
              | Some rows' \<Rightarrow> (Inr r, rows')))"

text \<open>The child commands \<open>create\<close> issues: \<open>get_state\<close> only after \<open>new_session\<close> succeeded.\<close>

definition create_calls :: "RpcResponse \<Rightarrow> string option \<Rightarrow> child_call list" where
  "create_calls newRes parentSessionFile =
     NewSession parentSessionFile # (if rr_success newRes then [GetState] else [])"

definition createSession :: "SessionRecord list \<Rightarrow> RpcResponse \<Rightarrow> RpcResponse \<Rightarrow> string \<Rightarrow> string
    \<Rightarrow> string option \<Rightarrow> string \<Rightarrow> (session_error, SessionRecord) result \<times> SessionRecord list \<times> child_call list" where
  "createSession rows newRes stateRes a k parentSessionFile ts =
     (case create_guard rows a k of
        Some e \<Rightarrow> (Inl e, rows, [])
      | None \<Rightarrow>
          let (r, rows') = create_commit rows newRes stateRes a k ts
          in (r, rows', create_calls newRes parentSessionFile))"

definition attach :: "RpcResponse \<Rightarrow> string \<Rightarrow> (session_error, unit) result" where
  "attach res sessionFile =
     (if \<not> rr_success res then Inl (SwitchSessionFailed sessionFile (or_unknown (rr_error res))) else Inr ())"

definition resolve :: "SessionRecord list \<Rightarrow> RpcResponse \<Rightarrow> string \<Rightarrow> string
    \<Rightarrow> (session_error, SessionRecord) result \<times> child_call list" where
  "resolve rows res a k =
     (case getRaw rows a k of
        None \<Rightarrow> (Inl (NoSessionMapping a k), [])
      | Some row \<Rightarrow>
          (result_bind (attach res (sr_sessionFile row)) (\<lambda>_. Inr row), [SwitchSession (sr_sessionFile row)]))"

definition setOwner :: "SessionRecord list \<Rightarrow> string \<Rightarrow> string \<Rightarrow> string option \<Rightarrow> string option \<Rightarrow> string
    \<Rightarrow> (session_error, AcquireResult) result \<times> SessionRecord list" where
  "setOwner rows a k currentOwner newOwner ts =
     (let (rows', changes) =
        sql_update (\<lambda>r. session_key r = (a, k) \<and> sr_currentOwner r = currentOwner)
          (\<lambda>r. r\<lparr>sr_currentOwner := newOwner, sr_lastActive := ts\<rparr>) rows
      in if changes = 0 then (Inl (OwnerMismatch a k currentOwner), rows)
         else (case getRaw rows' a k of
                 None \<Rightarrow> (Inl (SessionDisappeared a k), rows')
               | Some record \<Rightarrow> (Inr \<lparr>aq_record = record, aq_acquired = newOwner \<noteq> None\<rparr>, rows')))"

definition heartbeat :: "SessionRecord list \<Rightarrow> string \<Rightarrow> string \<Rightarrow> string \<Rightarrow> string \<Rightarrow> bool \<times> SessionRecord list" where
  "heartbeat rows a k owner ts =
     (let (rows', changes) =
        sql_update (\<lambda>r. session_key r = (a, k) \<and> sr_currentOwner r = Some owner)
          (\<lambda>r. r\<lparr>sr_lastActive := ts\<rparr>) rows
      in (changes > 0, rows'))"

definition touch :: "SessionRecord list \<Rightarrow> string \<Rightarrow> string \<Rightarrow> string \<Rightarrow> bool \<times> SessionRecord list" where
  "touch rows a k ts =
     (let (rows', changes) =
        sql_update (\<lambda>r. session_key r = (a, k) \<and> True) (\<lambda>r. r\<lparr>sr_lastActive := ts\<rparr>) rows
      in (changes > 0, rows'))"

definition release :: "SessionRecord list \<Rightarrow> string \<Rightarrow> string \<Rightarrow> string \<Rightarrow> string
    \<Rightarrow> (session_error, SessionRecord) result \<times> SessionRecord list" where
  "release rows a k owner ts =
     (let (rows', changes) =
        sql_update (\<lambda>r. session_key r = (a, k) \<and> sr_currentOwner r = Some owner)
          (\<lambda>r. r\<lparr>sr_currentOwner := None, sr_lastActive := ts\<rparr>) rows
      in if changes = 0
         then (case getRaw rows a k of
                 None \<Rightarrow> (Inl (NoSessionMapping a k), rows)
               | Some _ \<Rightarrow> (Inl (OwnerMismatch a k (Some owner)), rows))
         else (case getRaw rows' a k of
                 None \<Rightarrow> (Inl (SessionDisappeared a k), rows')
               | Some record \<Rightarrow> (Inr record, rows')))"

section \<open>getOrCreate and forget with creations in flight\<close>

text \<open>
  The registry object: its table, and the map of in-flight creations. A creation is named by
  the number of its promise; \<open>creating\<close> holds the conversations whose \<open>new_session\<close>
  round-trip is under way.
\<close>

record SessionRegistry =
  reg_rows :: "SessionRecord list"
  reg_inflight :: "(string, nat) js_map"
  reg_creating :: "(nat \<times> string \<times> string) list"

datatype getOrCreate_outcome =
    Existing SessionRecord
  | Join nat
  | Create nat "string option"
  | Rejected session_error

text \<open>
  The synchronous half of \<open>getOrCreate\<close>; \<open>p\<close> names the promise of a creation it starts.
  \<open>create\<close> runs up to its first \<open>await\<close> inside it, so its guard decides here as well.
\<close>

definition getOrCreate_begin :: "SessionRegistry \<Rightarrow> nat \<Rightarrow> string \<Rightarrow> string \<Rightarrow> string option
    \<Rightarrow> getOrCreate_outcome \<times> SessionRegistry" where
  "getOrCreate_begin reg p a k parentConversationKey =
     (case getRaw (reg_rows reg) a k of
        Some existing \<Rightarrow> (Existing existing, reg)
      | None \<Rightarrow>
          (case map_get (reg_inflight reg) (conversationStorageKey a k) of
             Some q \<Rightarrow> (Join q, reg)
           | None \<Rightarrow>
               let parentSessionFile =
                     (case parentConversationKey of
                        None \<Rightarrow> None
                      | Some pk \<Rightarrow> if pk = [] then None else map_option sr_sessionFile (getRaw (reg_rows reg) a pk))
               in (case create_guard (reg_rows reg) a k of
                     Some e \<Rightarrow> (Rejected e, reg)
                   | None \<Rightarrow>
                       (Create p parentSessionFile,
                        reg\<lparr>reg_inflight := map_set (reg_inflight reg) (conversationStorageKey a k) p,
                            reg_creating := reg_creating reg @ [(p, a, k)]\<rparr>))))"

text \<open>The rest of \<open>getOrCreate\<close> for an existing mapping, once \<open>switch_session\<close> has answered.\<close>

definition getOrCreate_existing :: "RpcResponse \<Rightarrow> SessionRecord \<Rightarrow> (session_error, SessionRecord) result" where
  "getOrCreate_existing res existing =
     result_bind (attach res (sr_sessionFile existing)) (\<lambda>_. Inr existing)"

text \<open>The child has answered: commit, then the \<open>finally\<close> handler clears the in-flight entry.\<close>

definition getOrCreate_finish :: "SessionRegistry \<Rightarrow> nat \<Rightarrow> string \<Rightarrow> string \<Rightarrow> RpcResponse \<Rightarrow> RpcResponse \<Rightarrow> string
    \<Rightarrow> (session_error, SessionRecord) result \<times> SessionRegistry" where
  "getOrCreate_finish reg p a k newRes stateRes ts =
     (let (r, rows') = create_commit (reg_rows reg) newRes stateRes a k ts
      in (r, reg\<lparr>reg_rows := rows',
                 reg_inflight := map_delete (reg_inflight reg) (conversationStorageKey a k),
                 reg_creating := filter (\<lambda>c. c \<noteq> (p, a, k)) (reg_creating reg)\<rparr>))"

definition forget :: "SessionRegistry \<Rightarrow> string \<Rightarrow> string \<Rightarrow> bool \<times> SessionRegistry" where
  "forget reg a k =
     (case getRaw (reg_rows reg) a k of
        None \<Rightarrow> (False, reg)
      | Some _ \<Rightarrow>
          (True, reg\<lparr>reg_rows := fst (sql_delete (\<lambda>r. session_key r = (a, k) \<and> True) (reg_rows reg)),
                     reg_inflight := map_delete (reg_inflight reg) (conversationStorageKey a k)\<rparr>))"

text \<open>
  One step of the registry in a running supervisor. Any caller may begin a \<open>getOrCreate\<close>,
  any creation under way may be answered (with success or failure), and the synchronous
  operations run at any time in between.
\<close>

inductive registry_step :: "SessionRegistry \<Rightarrow> SessionRegistry \<Rightarrow> bool" where
  begin_step: "p \<notin> fst ` set (reg_creating reg) \<Longrightarrow>
     registry_step reg (snd (getOrCreate_begin reg p a k parent))"
| finish_step: "(p, a, k) \<in> set (reg_creating reg) \<Longrightarrow>
     registry_step reg (snd (getOrCreate_finish reg p a k newRes stateRes ts))"
| forget_step: "registry_step reg (snd (forget reg a k))"
| setOwner_step: "registry_step reg (reg\<lparr>reg_rows := snd (setOwner (reg_rows reg) a k cur new ts)\<rparr>)"
| heartbeat_step: "registry_step reg (reg\<lparr>reg_rows := snd (heartbeat (reg_rows reg) a k owner ts)\<rparr>)"
| touch_step: "registry_step reg (reg\<lparr>reg_rows := snd (touch (reg_rows reg) a k ts)\<rparr>)"
| release_step: "registry_step reg (reg\<lparr>reg_rows := snd (release (reg_rows reg) a k owner ts)\<rparr>)"

definition empty_registry :: SessionRegistry where
  "empty_registry = \<lparr>reg_rows = [], reg_inflight = [], reg_creating = []\<rparr>"

inductive registry_reachable :: "SessionRegistry \<Rightarrow> bool" where
  start: "registry_reachable empty_registry"
| step: "registry_reachable reg \<Longrightarrow> registry_step reg reg' \<Longrightarrow> registry_reachable reg'"

section \<open>The compare-and-set statements\<close>

abbreviation any_session :: "SessionRecord \<Rightarrow> bool" where
  "any_session \<equiv> \<lambda>_. True"

interpretation own: row_cas session_key any_session "(a, k)" "\<lambda>r. sr_currentOwner r = cur"
    "\<lambda>r. r\<lparr>sr_currentOwner := new, sr_lastActive := ts\<rparr>" for a k cur new ts
  by unfold_locales (simp_all add: session_key_def)

interpretation beat: row_cas session_key any_session "(a, k)" "\<lambda>r. sr_currentOwner r = Some owner"
    "\<lambda>r. r\<lparr>sr_lastActive := ts\<rparr>" for a k owner ts
  by unfold_locales (simp_all add: session_key_def)

interpretation tch: row_cas session_key any_session "(a, k)" "\<lambda>r. True"
    "\<lambda>r. r\<lparr>sr_lastActive := ts\<rparr>" for a k ts
  by unfold_locales (simp_all add: session_key_def)

abbreviation session_row :: "SessionRecord list \<Rightarrow> string \<Rightarrow> string \<Rightarrow> SessionRecord option" where
  "session_row rows a k \<equiv> row_at session_key rows (a, k)"

abbreviation rows_ok :: "SessionRecord list \<Rightarrow> bool" where
  "rows_ok \<equiv> tbl_ok session_key any_session"

lemma getRaw_row_at: "getRaw rows a k = session_row rows a k"
  by (simp add: getRaw_def row_at_def session_key_def)

lemma setOwner_cases:
  assumes "rows_ok rows"
  shows "setOwner rows a k cur new ts =
    (case session_row rows a k of
       None \<Rightarrow> (Inl (OwnerMismatch a k cur), rows)
     | Some r \<Rightarrow>
         if sr_currentOwner r = cur
         then (Inr \<lparr>aq_record = r\<lparr>sr_currentOwner := new, sr_lastActive := ts\<rparr>, aq_acquired = new \<noteq> None\<rparr>,
               fst (sql_update (\<lambda>r. session_key r = (a, k) \<and> sr_currentOwner r = cur)
                 (\<lambda>r. r\<lparr>sr_currentOwner := new, sr_lastActive := ts\<rparr>) rows))
         else (Inl (OwnerMismatch a k cur), rows))"
  using own.cas_changes [OF assms, where a = a and k = k and cur = cur and new = new and ts = ts]
    own.cas_row [where a = a and k = k and cur = cur and new = new and ts = ts and k' = "(a, k)" and t = rows]
  by (simp add: setOwner_def Let_def case_prod_beta getRaw_row_at split: option.splits)

lemma release_cases:
  assumes "rows_ok rows"
  shows "release rows a k owner ts =
    (case session_row rows a k of
       None \<Rightarrow> (Inl (NoSessionMapping a k), rows)
     | Some r \<Rightarrow>
         if sr_currentOwner r = Some owner
         then (Inr (r\<lparr>sr_currentOwner := None, sr_lastActive := ts\<rparr>),
               fst (sql_update (\<lambda>r. session_key r = (a, k) \<and> sr_currentOwner r = Some owner)
                 (\<lambda>r. r\<lparr>sr_currentOwner := None, sr_lastActive := ts\<rparr>) rows))
         else (Inl (OwnerMismatch a k (Some owner)), rows))"
  using own.cas_changes [OF assms, where a = a and k = k and cur = "Some owner" and new = None and ts = ts]
    own.cas_row [where a = a and k = k and cur = "Some owner" and new = None and ts = ts and k' = "(a, k)" and t = rows]
  by (simp add: release_def Let_def case_prod_beta getRaw_row_at split: option.splits)

lemma heartbeat_cases:
  "rows_ok rows \<Longrightarrow>
   fst (heartbeat rows a k owner ts) \<longleftrightarrow> (\<exists>r. session_row rows a k = Some r \<and> sr_currentOwner r = Some owner)"
  using beat.cas_changes [where t = rows and a = a and k = k and owner = owner and ts = ts]
  by (simp add: heartbeat_def Let_def case_prod_beta split: option.splits)

lemma rows_ok_setOwner: "rows_ok rows \<Longrightarrow> rows_ok (snd (setOwner rows a k cur new ts))"
  using own.tbl_ok_update [where a = a and k = k and cur = cur and new = new and ts = ts and t = rows] by (simp add: setOwner_cases split: option.splits)

lemma rows_ok_release: "rows_ok rows \<Longrightarrow> rows_ok (snd (release rows a k owner ts))"
  using own.tbl_ok_update [where a = a and k = k and cur = "Some owner" and new = None and ts = ts and t = rows] by (simp add: release_cases split: option.splits)

lemma rows_ok_heartbeat: "rows_ok rows \<Longrightarrow> rows_ok (snd (heartbeat rows a k owner ts))"
  using beat.tbl_ok_update [where t = rows and a = a and k = k and owner = owner and ts = ts] by (simp add: heartbeat_def Let_def case_prod_beta)

lemma rows_ok_touch: "rows_ok rows \<Longrightarrow> rows_ok (snd (touch rows a k ts))"
  using tch.tbl_ok_update [where t = rows and a = a and k = k and ts = ts] by (simp add: touch_def Let_def case_prod_beta)

lemma mapped_setOwner: "session_row (snd (setOwner rows a k cur new ts)) a' k' = None \<longleftrightarrow> session_row rows a' k' = None"
  using own.keys_update [where a = a and k = k and cur = cur and new = new and ts = ts and t = rows]
  by (auto simp: setOwner_def Let_def case_prod_beta row_at_None_iff split: option.splits)

lemma mapped_release: "session_row (snd (release rows a k owner ts)) a' k' = None \<longleftrightarrow> session_row rows a' k' = None"
  using own.keys_update [where a = a and k = k and cur = "Some owner" and new = None and ts = ts and t = rows]
  by (auto simp: release_def Let_def case_prod_beta row_at_None_iff split: option.splits)

lemma mapped_heartbeat: "session_row (snd (heartbeat rows a k owner ts)) a' k' = None \<longleftrightarrow> session_row rows a' k' = None"
  using beat.keys_update [where t = rows and a = a and k = k and owner = owner and ts = ts]
  by (auto simp: heartbeat_def Let_def case_prod_beta row_at_None_iff)

lemma mapped_touch: "session_row (snd (touch rows a k ts)) a' k' = None \<longleftrightarrow> session_row rows a' k' = None"
  using tch.keys_update [where t = rows and a = a and k = k and ts = ts]
  by (auto simp: touch_def Let_def case_prod_beta row_at_None_iff)

lemmas rows_ok_ops = rows_ok_setOwner rows_ok_release rows_ok_heartbeat rows_ok_touch
lemmas mapped_ops = mapped_setOwner mapped_release mapped_heartbeat mapped_touch

section \<open>Creation\<close>

lemma create_commit_new:
  assumes "session_row rows a k = None"
  shows "create_commit rows newRes stateRes a k ts =
    (case created_session_file newRes stateRes of
       Inl e \<Rightarrow> (Inl e, rows)
     | Inr f \<Rightarrow>
         let r = \<lparr>sr_adapterId = a, sr_conversationKey = k, sr_sessionFile = f,
                  sr_createdAt = ts, sr_lastActive = ts, sr_currentOwner = None\<rparr>
         in (Inr r, rows @ [r]))"
  using assms by (auto simp: create_commit_def sql_insert_def row_at_None_iff session_key_def Let_def split: sum.splits)

lemma create_commit_rows:
  "snd (create_commit rows newRes stateRes a k ts) = rows \<or>
   (\<exists>r. session_key r = (a, k) \<and> session_row rows a k = None \<and> snd (create_commit rows newRes stateRes a k ts) = rows @ [r])"
  by (auto simp: create_commit_def sql_insert_def row_at_None_iff session_key_def Let_def split: sum.splits)

lemma rows_ok_create_commit:
  assumes "rows_ok rows"
  shows "rows_ok (snd (create_commit rows newRes stateRes a k ts))"
  using create_commit_rows [of rows newRes stateRes a k ts]
proof (elim disjE exE conjE)
  fix r assume "session_key r = (a, k)" "session_row rows a k = None"
    and e: "snd (create_commit rows newRes stateRes a k ts) = rows @ [r]"
  then have "rows_ok (rows @ [r])" using assms by (intro tbl_ok_insert) simp_all
  then show ?thesis by (simp only: e)
qed (simp add: assms)

lemma mapped_create_commit:
  assumes "(a', k') \<noteq> (a, k)"
  shows "session_row (snd (create_commit rows newRes stateRes a k ts)) a' k' = session_row rows a' k'"
  using create_commit_rows [of rows newRes stateRes a k ts]
proof (elim disjE exE conjE)
  fix r assume "session_key r = (a, k)" "session_row rows a k = None"
    and e: "snd (create_commit rows newRes stateRes a k ts) = rows @ [r]"
  then have "session_row (rows @ [r]) a' k' = session_row rows a' k'"
    using assms row_at_insert [of session_key rows r "(a', k')"] by simp
  then show ?thesis by (simp only: e)
qed simp

section \<open>At most one creation per conversation\<close>

definition registry_inv :: "SessionRegistry \<Rightarrow> bool" where
  "registry_inv reg \<longleftrightarrow>
     rows_ok (reg_rows reg) \<and> distinct (map snd (reg_creating reg)) \<and>
     (\<forall>(p, a, k) \<in> set (reg_creating reg).
        map_get (reg_inflight reg) (conversationStorageKey a k) = Some p \<and> session_row (reg_rows reg) a k = None)"

lemma creatingD:
  "registry_inv reg \<Longrightarrow> (p, a, k) \<in> set (reg_creating reg) \<Longrightarrow>
   map_get (reg_inflight reg) (conversationStorageKey a k) = Some p \<and> session_row (reg_rows reg) a k = None"
  by (auto simp: registry_inv_def)

lemma registry_inv_begin:
  assumes inv: "registry_inv reg"
  shows "registry_inv (snd (getOrCreate_begin reg p a k parent))"
proof (cases "\<exists>e. getOrCreate_begin reg p a k parent = (e, reg)")
  case False
  then have row: "session_row (reg_rows reg) a k = None"
    and fl: "map_get (reg_inflight reg) (conversationStorageKey a k) = None"
    and new: "snd (getOrCreate_begin reg p a k parent) =
      reg\<lparr>reg_inflight := map_set (reg_inflight reg) (conversationStorageKey a k) p,
          reg_creating := reg_creating reg @ [(p, a, k)]\<rparr>"
    by (auto simp: getOrCreate_begin_def getRaw_row_at Let_def split: option.splits)
  have other: "(q, b, l) \<in> set (reg_creating reg) \<Longrightarrow> (b, l) \<noteq> (a, k)" for q b l
    using creatingD [OF inv] fl by force
  then have "(a, k) \<notin> snd ` set (reg_creating reg)" by fastforce
  then have "distinct (map snd (reg_creating reg @ [(p, a, k)]))"
    using inv by (simp add: registry_inv_def)
  moreover have "map_get (map_set (reg_inflight reg) (conversationStorageKey a k) p) (conversationStorageKey b l) = Some q"
    if "(q, b, l) \<in> set (reg_creating reg)" for q b l
    using other [OF that] creatingD [OF inv that] by (auto simp: jm.get_put)
  ultimately show ?thesis using inv row unfolding new registry_inv_def
    by (auto simp: jm.get_put dest: other)
qed (use inv in auto)

lemma registry_inv_finish:
  assumes inv: "registry_inv reg" and c: "(p, a, k) \<in> set (reg_creating reg)"
  shows "registry_inv (snd (getOrCreate_finish reg p a k newRes stateRes ts))"
proof -
  have uniq: "x \<in> set (reg_creating reg) \<Longrightarrow> x \<noteq> (p, a, k) \<Longrightarrow> snd x \<noteq> (a, k)" for x
  proof -
    assume "x \<in> set (reg_creating reg)" "x \<noteq> (p, a, k)"
    moreover have "inj_on snd (set (reg_creating reg))" using inv by (simp add: registry_inv_def distinct_map)
    ultimately show ?thesis using c inj_onD [of snd _ x "(p, a, k)"] by auto
  qed
  have "distinct (map snd (filter (\<lambda>c. c \<noteq> (p, a, k)) (reg_creating reg)))"
    using inv by (simp add: registry_inv_def distinct_map_filter)
  moreover have "rows_ok (snd (create_commit (reg_rows reg) newRes stateRes a k ts))"
    using inv by (simp add: registry_inv_def rows_ok_create_commit)
  moreover have "(q, b, l) \<in> set (reg_creating reg) \<Longrightarrow> (q, b, l) \<noteq> (p, a, k) \<Longrightarrow>
      map_get (map_delete (reg_inflight reg) (conversationStorageKey a k)) (conversationStorageKey b l) = Some q
      \<and> session_row (snd (create_commit (reg_rows reg) newRes stateRes a k ts)) b l = None" for q b l
    using uniq [of "(q, b, l)"] creatingD [OF inv, of q b l] ck.conv_delete_other [of a k b l "reg_inflight reg"]
      mapped_create_commit [of b l a k] by auto
  ultimately show ?thesis
    by (auto simp: registry_inv_def getOrCreate_finish_def Let_def case_prod_beta)
qed

lemma registry_inv_forget:
  assumes inv: "registry_inv reg"
  shows "registry_inv (snd (forget reg a k))"
proof (cases "session_row (reg_rows reg) a k")
  case (Some r)
  then have other: "(q, b, l) \<in> set (reg_creating reg) \<Longrightarrow> (a, k) \<noteq> (b, l)" for q b l
    using creatingD [OF inv] by auto
  have ok: "rows_ok (reg_rows reg)" using inv by (simp add: registry_inv_def)
  have "(q, b, l) \<in> set (reg_creating reg) \<Longrightarrow>
      map_get (map_delete (reg_inflight reg) (conversationStorageKey a k)) (conversationStorageKey b l) = Some q
      \<and> session_row (fst (sql_delete (\<lambda>r. session_key r = (a, k) \<and> True) (reg_rows reg))) b l = None" for q b l
    using creatingD [OF inv, of q b l] other [of q b l] ck.conv_delete_other [of a k b l "reg_inflight reg"] row_at_delete [OF ok]
    by (simp split: option.splits)
  then show ?thesis using Some inv tbl_ok_delete [OF ok]
    by (auto simp: registry_inv_def forget_def getRaw_row_at)
qed (use inv in \<open>simp add: forget_def getRaw_row_at\<close>)

lemma registry_inv_rows:
  assumes "registry_inv reg" and "rows_ok rows'"
    and "\<And>a k. session_row rows' a k = None \<longleftrightarrow> session_row (reg_rows reg) a k = None"
  shows "registry_inv (reg\<lparr>reg_rows := rows'\<rparr>)"
  using assms by (auto simp: registry_inv_def)

lemma registry_step_inv: "registry_step reg reg' \<Longrightarrow> registry_inv reg \<Longrightarrow> registry_inv reg'"
proof (induction rule: registry_step.induct)
  case (begin_step p reg a k parent)
  then show ?case by (intro registry_inv_begin)
next
  case (finish_step p a k reg newRes stateRes ts)
  then show ?case by (intro registry_inv_finish)
next
  case (forget_step reg a k)
  then show ?case by (intro registry_inv_forget)
qed (rule registry_inv_rows; simp add: registry_inv_def rows_ok_ops mapped_ops)+

lemma registry_reachable_inv: "registry_reachable reg \<Longrightarrow> registry_inv reg"
proof (induction rule: registry_reachable.induct)
  case start
  show ?case by (simp add: registry_inv_def empty_registry_def)
qed (blast intro: registry_step_inv)

section \<open>Properties\<close>

text \<open>
  C3. In every state the registry can reach, under any interleaving of its operations and any
  answers of the child processes, a conversation has at most one creation in flight; a
  further \<open>getOrCreate\<close> for it joins that creation instead of spawning a second session; the
  conversation has no row yet, so the commit never meets the duplicate-row race.
\<close>

theorem registry_single_flight:
  assumes "registry_reachable reg" and "(p, a, k) \<in> set (reg_creating reg)"
  shows "((q, a, k) \<in> set (reg_creating reg) \<longrightarrow> q = p)
    \<and> getOrCreate_begin reg q a k parent = (Join p, reg)
    \<and> fst (getOrCreate_finish reg p a k newRes stateRes ts) \<noteq> Inl (SessionRace a k)"
proof -
  note inv = registry_reachable_inv [OF assms(1)]
  note c = creatingD [OF inv assms(2)]
  have "(q, a, k) \<in> set (reg_creating reg) \<longrightarrow> q = p" using creatingD [OF inv] c by fastforce
  moreover have "created_session_file newRes stateRes \<noteq> Inl (SessionRace a k)"
    by (auto simp: created_session_file_def split: option.splits)
  ultimately show ?thesis using c
    by (auto simp: getOrCreate_begin_def getRaw_row_at getOrCreate_finish_def create_commit_new Let_def
        split: sum.splits)
qed

theorem registry_single_flight_witness:
  "let reg = snd (getOrCreate_begin empty_registry 0 ''pumble'' ''room'' None)
   in registry_reachable reg \<and> (0, ''pumble'', ''room'') \<in> set (reg_creating reg)
     \<and> getOrCreate_begin reg 1 ''pumble'' ''room'' None = (Join 0, reg)"
proof -
  let ?reg = "snd (getOrCreate_begin empty_registry 0 ''pumble'' ''room'' None)"
  have r: "registry_reachable ?reg"
    by (rule registry_reachable.step [OF registry_reachable.start], rule registry_step.begin_step)
      (simp add: empty_registry_def)
  have c: "(0, ''pumble'', ''room'') \<in> set (reg_creating ?reg)"
    by (simp add: getOrCreate_begin_def empty_registry_def getRaw_def create_guard_def map_get_def)
  from registry_single_flight [OF r c, of 1 None] r c show ?thesis by (simp add: Let_def)
qed

text \<open>
  C22. Ownership is exclusive: once a caller acquired an unowned conversation, every further
  acquisition of it as unowned fails and changes nothing, only that owner's heartbeats are
  accepted, and only that owner can release it.
\<close>

theorem setOwner_exclusive:
  assumes "rows_ok rows" and "setOwner rows a k None (Some owner) ts = (Inr res, rows')"
  shows "setOwner rows' a k None new ts' = (Inl (OwnerMismatch a k None), rows')
    \<and> (fst (heartbeat rows' a k other ts') \<longleftrightarrow> other = owner)
    \<and> ((\<exists>r. fst (release rows' a k other ts') = Inr r) \<longleftrightarrow> other = owner)
    \<and> (other \<noteq> owner \<longrightarrow> release rows' a k other ts' = (Inl (OwnerMismatch a k (Some other)), rows'))"
proof -
  have ok': "rows_ok rows'" using rows_ok_setOwner [OF assms(1), of a k None "Some owner" ts] assms(2) by simp
  obtain r where "session_row rows' a k = Some r" and "sr_currentOwner r = Some owner"
    using assms own.cas_row [where k' = "(a, k)" and t = rows and a = a and k = k and cur = None and new = "Some owner" and ts = ts]
    by (auto simp: setOwner_cases split: option.splits if_splits)
  then show ?thesis using ok' by (auto simp: setOwner_cases release_cases heartbeat_cases)
qed

theorem setOwner_exclusive_witness:
  "let rows = [\<lparr>sr_adapterId = ''p'', sr_conversationKey = ''c'', sr_sessionFile = ''f'', sr_createdAt = ''0'',
               sr_lastActive = ''0'', sr_currentOwner = None\<rparr>];
       rows' = snd (setOwner rows ''p'' ''c'' None (Some ''w1'') ''1'')
   in rows_ok rows \<and> setOwner rows' ''p'' ''c'' None (Some ''w2'') ''2'' = (Inl (OwnerMismatch ''p'' ''c'' None), rows')"
proof -
  let ?r = "\<lparr>sr_adapterId = ''p'', sr_conversationKey = ''c'', sr_sessionFile = ''f'', sr_createdAt = ''0'',
             sr_lastActive = ''0'', sr_currentOwner = None\<rparr>"
  have ok: "rows_ok [?r]" by (simp add: tbl_ok_def)
  have s: "setOwner [?r] ''p'' ''c'' None (Some ''w1'') ''1'' =
      (Inr \<lparr>aq_record = ?r\<lparr>sr_currentOwner := Some ''w1'', sr_lastActive := ''1''\<rparr>, aq_acquired = True\<rparr>,
       [?r\<lparr>sr_currentOwner := Some ''w1'', sr_lastActive := ''1''\<rparr>])"
    by (simp add: setOwner_def sql_update_def session_key_def getRaw_def)
  show ?thesis using setOwner_exclusive [OF ok s] ok s by (simp add: Let_def)
qed

text \<open>
  \<open>create\<close> on every branch: a bad argument or an existing mapping is refused before the
  child is touched; otherwise the child is asked for a new session (forked from the parent
  file when one is given) and, if that succeeds, for its state; the row is committed, unowned
  and with both timestamps set, exactly when the answers name a non-empty session file; and
  no other conversation's mapping changes.
\<close>

theorem createSession_cases:
  assumes "rows_ok rows" and "createSession rows newRes stateRes a k parent ts = (res, rows', calls)"
  shows "(case create_guard rows a k of
      Some e \<Rightarrow> res = Inl e \<and> rows' = rows \<and> calls = []
    | None \<Rightarrow> hd calls = NewSession parent \<and> (GetState \<in> set calls \<longleftrightarrow> rr_success newRes) \<and>
        (case created_session_file newRes stateRes of
           Inl e \<Rightarrow> res = Inl e \<and> rows' = rows
         | Inr f \<Rightarrow> \<exists>r. res = Inr r \<and> sr_sessionFile r = f \<and> f \<noteq> [] \<and> sr_currentOwner r = None
             \<and> sr_createdAt r = ts \<and> sr_lastActive r = ts \<and> session_row rows' a k = Some r))
    \<and> rows_ok rows' \<and> ((b, l) \<noteq> (a, k) \<longrightarrow> session_row rows' b l = session_row rows b l)"
proof (cases "create_guard rows a k")
  case None
  then have row: "session_row rows a k = None" by (simp add: create_guard_def getRaw_row_at split: if_splits)
  have ne: "created_session_file newRes stateRes = Inr f \<Longrightarrow> f \<noteq> []" for f
    by (auto simp: created_session_file_def split: if_splits option.splits)
  have fresh: "session_key r = (a, k) \<Longrightarrow> session_row (rows @ [r]) a k = Some r" for r
    using row row_at_insert [of session_key rows r "(a, k)"] by simp
  have "rows' = snd (create_commit rows newRes stateRes a k ts)"
    using assms(2) None by (auto simp: createSession_def case_prod_beta)
  then have "rows_ok rows' \<and> ((b, l) \<noteq> (a, k) \<longrightarrow> session_row rows' b l = session_row rows b l)"
    using rows_ok_create_commit [OF assms(1)] mapped_create_commit by simp
  then show ?thesis using assms(2) None
    by (auto simp: createSession_def create_commit_new [OF row] create_calls_def Let_def session_key_def
        split: sum.splits dest!: ne intro!: fresh)
next
  case (Some e)
  then show ?thesis using assms by (auto simp: createSession_def)
qed

theorem createSession_cases_witness:
  "let ok = \<lparr>rr_success = True, rr_error = None, rr_data = Some (JObj [(''sessionFile'', JStr ''/s.jsonl'')])\<rparr>;
       rows' = fst (snd (createSession [] ok ok ''p'' ''c'' (Some ''/parent'') ''t''))
   in map_option sr_sessionFile (session_row rows' ''p'' ''c'') = Some ''/s.jsonl'' \<and> rows_ok rows'"
proof -
  let ?ok = "\<lparr>rr_success = True, rr_error = None, rr_data = Some (JObj [(''sessionFile'', JStr ''/s.jsonl'')])\<rparr>"
  obtain res rows' calls where c: "createSession [] ?ok ?ok ''p'' ''c'' (Some ''/parent'') ''t'' = (res, rows', calls)"
    by (cases "createSession [] ?ok ?ok ''p'' ''c'' (Some ''/parent'') ''t''") auto
  have g: "create_guard [] ''p'' ''c'' = None" by (simp add: create_guard_def getRaw_def)
  have f: "created_session_file ?ok ?ok = Inr ''/s.jsonl''" by (simp add: created_session_file_def)
  show ?thesis using createSession_cases [OF tbl_ok_Nil c, of "''q''" "''c''"] c g f by (auto simp: Let_def)
qed

end
