(* ===== verification/Contracts.thy ===== *)
theory Contracts
  imports Json
begin

text \<open>
  The v1 adapter contract (\<open>packages/contracts/src\<close>): the inbound message, the outbound
  events with their common fields, and the JSON objects both are on the wire. An optional
  property is an \<open>option\<close>; \<open>None\<close> leaves the property out, as \<open>JSON.stringify\<close> does with
  \<open>undefined\<close>.
\<close>

definition ADAPTER_API_VERSION :: string where
  "ADAPTER_API_VERSION = ''v1''"

section \<open>Inbound messages\<close>

record Speaker =
  sp_id :: string
  sp_displayName :: string

record WorkspaceAttachment =
  wa_path :: string
  wa_name :: "string option"
  wa_mediaType :: "string option"

record InboundMessage =
  im_messageId :: string
  im_conversationKey :: string
  im_parentConversationKey :: "string option"
  im_speaker :: Speaker
  im_text :: string
  im_attachments :: "WorkspaceAttachment list"
  im_addressed :: bool

text \<open>A property that is left out when its value is \<open>undefined\<close>.\<close>

definition opt_prop :: "string \<Rightarrow> string option \<Rightarrow> (string \<times> json) list" where
  "opt_prop k v = (case v of None \<Rightarrow> [] | Some s \<Rightarrow> [(k, JStr s)])"

definition speaker_json :: "Speaker \<Rightarrow> json" where
  "speaker_json s = JObj [(''id'', JStr (sp_id s)), (''displayName'', JStr (sp_displayName s))]"

definition attachment_json :: "WorkspaceAttachment \<Rightarrow> json" where
  "attachment_json a =
     JObj ([(''path'', JStr (wa_path a))] @ opt_prop ''name'' (wa_name a) @ opt_prop ''mediaType'' (wa_mediaType a))"

definition inbound_json :: "InboundMessage \<Rightarrow> json" where
  "inbound_json m =
     JObj ([(''messageId'', JStr (im_messageId m)), (''conversationKey'', JStr (im_conversationKey m))]
       @ opt_prop ''parentConversationKey'' (im_parentConversationKey m)
       @ [(''speaker'', speaker_json (im_speaker m)), (''text'', JStr (im_text m)),
          (''attachments'', JArr (map attachment_json (im_attachments m))),
          (''addressed'', JBool (im_addressed m))])"

section \<open>Outbound events\<close>

datatype Presence = Active | Idle | Offline

record TurnUsage =
  tu_input :: int
  tu_output :: int
  tu_cacheRead :: int
  tu_cacheWrite :: int
  tu_costUsd :: int

datatype event_body =
    TurnStarted
  | TurnProgress string
  | TurnDelta string
  | TurnReply string "WorkspaceAttachment list" TurnUsage
  | PresenceChanged Presence
  | TurnError string string bool
  | TurnCancelled

record OutboundEvent =
  ev_body :: event_body
  ev_eventId :: string
  ev_conversationKey :: string
  ev_correlationId :: string
  ev_sequence :: nat
  ev_occurredAt :: string

fun event_type :: "event_body \<Rightarrow> string" where
  "event_type TurnStarted = ''turn.started''"
| "event_type (TurnProgress m) = ''turn.progress''"
| "event_type (TurnDelta t) = ''turn.delta''"
| "event_type (TurnReply t as u) = ''turn.reply''"
| "event_type (PresenceChanged p) = ''presence.changed''"
| "event_type (TurnError c m r) = ''turn.error''"
| "event_type TurnCancelled = ''turn.cancelled''"

fun presence_str :: "Presence \<Rightarrow> string" where
  "presence_str Active = ''active''"
| "presence_str Idle = ''idle''"
| "presence_str Offline = ''offline''"

definition usage_json :: "TurnUsage \<Rightarrow> json" where
  "usage_json u =
     JObj [(''input'', JNum (tu_input u)), (''output'', JNum (tu_output u)),
       (''cacheRead'', JNum (tu_cacheRead u)), (''cacheWrite'', JNum (tu_cacheWrite u)),
       (''costUsd'', JNum (tu_costUsd u))]"

fun body_props :: "event_body \<Rightarrow> (string \<times> json) list" where
  "body_props TurnStarted = []"
| "body_props (TurnProgress m) = [(''message'', JStr m)]"
| "body_props (TurnDelta t) = [(''text'', JStr t)]"
| "body_props (TurnReply t as u) =
     [(''text'', JStr t), (''attachments'', JArr (map attachment_json as)), (''usage'', usage_json u)]"
| "body_props (PresenceChanged p) = [(''presence'', JStr (presence_str p))]"
| "body_props (TurnError c m r) = [(''code'', JStr c), (''message'', JStr m), (''retryable'', JBool r)]"
| "body_props TurnCancelled = []"

definition event_json :: "OutboundEvent \<Rightarrow> json" where
  "event_json e =
     JObj ([(''version'', JStr ADAPTER_API_VERSION), (''type'', JStr (event_type (ev_body e))),
        (''eventId'', JStr (ev_eventId e)), (''conversationKey'', JStr (ev_conversationKey e)),
        (''correlationId'', JStr (ev_correlationId e)), (''sequence'', JNum (int (ev_sequence e))),
        (''occurredAt'', JStr (ev_occurredAt e))] @ body_props (ev_body e))"

section \<open>Shape of the JSON objects\<close>

lemma json_ok_attachment [simp]: "json_ok (attachment_json a)"
  by (simp add: attachment_json_def opt_prop_def split: option.splits)

lemma json_ok_speaker [simp]: "json_ok (speaker_json s)"
  by (simp add: speaker_json_def)

lemma json_ok_inbound [simp]: "json_ok (inbound_json m)"
  by (auto simp: inbound_json_def opt_prop_def split: option.splits)

lemma json_ok_usage [simp]: "json_ok (usage_json u)"
  by (simp add: usage_json_def)

lemma json_ok_event [simp]: "json_ok (event_json e)"
  by (cases "ev_body e") (auto simp: event_json_def)

lemma jget_event [simp]:
  "jget ''type'' (event_json e) = Some (JStr (event_type (ev_body e)))"
  "jget ''eventId'' (event_json e) = Some (JStr (ev_eventId e))"
  "jget ''conversationKey'' (event_json e) = Some (JStr (ev_conversationKey e))"
  "jget ''correlationId'' (event_json e) = Some (JStr (ev_correlationId e))"
  by (simp_all add: event_json_def)

text \<open>Distinct inbound messages have distinct canonical texts.\<close>

lemma attachment_json_inj [simp]: "attachment_json a = attachment_json b \<longleftrightarrow> a = b"
  by (cases a; cases b) (auto simp: attachment_json_def opt_prop_def split: option.splits)

lemma speaker_json_inj [simp]: "speaker_json a = speaker_json b \<longleftrightarrow> a = b"
  by (cases a; cases b) (auto simp: speaker_json_def)

lemma map_attachment_json_inj [simp]:
  "map attachment_json as = map attachment_json bs \<longleftrightarrow> as = bs"
  by (rule inj_map_eq_map) (simp add: inj_def)

lemma canonicalize_attachment_inj:
  assumes "canonicalize (attachment_json a) = canonicalize (attachment_json b)"
  shows "a = b"
proof -
  have "map_option canonicalize (jget k (attachment_json a)) = map_option canonicalize (jget k (attachment_json b))" for k
    using assms by (metis jget_canonicalize json_ok_attachment)
  from this [of "''path''"] this [of "''name''"] this [of "''mediaType''"] show ?thesis
    by (cases a; cases b) (auto simp: attachment_json_def opt_prop_def split: option.splits)
qed

lemma canonicalize_speaker_inj:
  assumes "canonicalize (speaker_json a) = canonicalize (speaker_json b)"
  shows "a = b"
proof -
  have "map_option canonicalize (jget k (speaker_json a)) = map_option canonicalize (jget k (speaker_json b))" for k
    using assms by (metis jget_canonicalize json_ok_speaker)
  from this [of "''id''"] this [of "''displayName''"] show ?thesis
    by (cases a; cases b) (auto simp: speaker_json_def)
qed

lemma canonicalize_inbound_inj:
  assumes "canonicalize (inbound_json a) = canonicalize (inbound_json b)"
  shows "a = b"
proof -
  have eq: "map_option canonicalize (jget k (inbound_json a)) = map_option canonicalize (jget k (inbound_json b))" for k
    using assms by (metis jget_canonicalize json_ok_inbound)
  have "map (canonicalize \<circ> attachment_json) (im_attachments a) = map (canonicalize \<circ> attachment_json) (im_attachments b)"
    using eq [of "''attachments''"] by (auto simp: inbound_json_def opt_prop_def split: option.splits)
  then have "im_attachments a = im_attachments b"
    by (rule map_injective) (simp add: inj_def canonicalize_attachment_inj)
  moreover have "im_speaker a = im_speaker b"
    using eq [of "''speaker''"] by (auto simp: inbound_json_def opt_prop_def split: option.splits intro: canonicalize_speaker_inj)
  ultimately show ?thesis
    using eq [of "''messageId''"] eq [of "''conversationKey''"] eq [of "''parentConversationKey''"] eq [of "''text''"] eq [of "''addressed''"]
    by (cases a; cases b) (auto simp: inbound_json_def opt_prop_def split: option.splits)
qed

end
