(* ===== verification/Idempotency_Store.thy ===== *)
theory Idempotency_Store
  imports Sql_Table Contracts Adapter_Registry
begin

text \<open>
  \<open>packages/core/src/idempotency-store.ts\<close>: the durable table that makes inbound messages
  idempotent and keeps a terminal event until its delivery is confirmed. A row has two
  independent tracks, the ingest state and the delivery state; every operation is a guarded
  statement whose change count is checked. The response column holds JSON text, which is
  parsed when a row is read. Arguments stand for what the source takes from outside: \<open>sha256\<close>
  (the hex digest of a byte string), \<open>uuid\<close> (a fresh random id) and \<open>ts\<close> (the clock).
  An event is the JSON object the emitter passes; its properties are read as the source
  reads them.
\<close>

section \<open>Data\<close>

datatype IngestState = IngestPending | IngestCompleted

datatype DeliveryState = DPending | DSaved | DSent | DFailed

text \<open>The columns of a row; an entry is a row whose response text has been parsed.\<close>

record 'p idem =
  ie_adapterId :: string
  ie_messageId :: string
  ie_conversationKey :: string
  ie_correlationId :: string
  ie_payloadHash :: string
  ie_ingestState :: IngestState
  ie_deliveryState :: DeliveryState
  ie_response :: 'p
  ie_errorText :: "string option"
  ie_createdAt :: string
  ie_updatedAt :: string

type_synonym idem_row = "string option idem"
type_synonym IdempotencyEntry = "json option idem"

datatype transition_detail =
    NoEntry
  | AlreadyAccepted
  | ExpectedState string string string

datatype idem_error =
    AdapterIdMissing
  | MessageIdMissing
  | CorrelationIdEmpty
  | IdempotencyConflict string string string string
  | InvalidStateTransition string string transition_detail
  | EventWithoutType
  | NonTerminalEvent
  | CorrelationMismatch string string
  | ConversationMismatch string string
  | NoEntriesForCorrelation string
  | TerminalEventMismatch string string
  | CannotConfirmDelivery string string
  | CannotRecordFailure string string
  | CorrelationChanged string
  | InsertFailed
  | CorruptPayload

datatype BeginInboundResult =
    Created string
  | BPending string
  | ResponseSaved string json
  | AlreadySent string
  | DeliveryFailed string json string

definition TERMINAL_EVENT_TYPES :: "string list" where
  "TERMINAL_EVENT_TYPES = [''turn.reply'', ''turn.error'', ''turn.cancelled'']"

definition isTerminalEventType :: "json option \<Rightarrow> bool" where
  "isTerminalEventType t \<longleftrightarrow> (case jstring t of Some s \<Rightarrow> s \<in> set TERMINAL_EVENT_TYPES | None \<Rightarrow> False)"

definition MAX_ERROR_TEXT_LEN :: nat where
  "MAX_ERROR_TEXT_LEN = 2000"

definition idem_key :: "idem_row \<Rightarrow> string \<times> string" where
  "idem_key r = (ie_adapterId r, ie_messageId r)"

text \<open>The two \<open>CHECK\<close> constraints of the schema that relate columns.\<close>

definition schema_check :: "idem_row \<Rightarrow> bool" where
  "schema_check r \<longleftrightarrow>
     (ie_deliveryState r = DPending \<longleftrightarrow> ie_response r = None) \<and>
     (ie_deliveryState r = DFailed \<longleftrightarrow> ie_errorText r \<noteq> None)"

section \<open>Helpers\<close>

definition canonicalPayloadHash :: "(nat list \<Rightarrow> string) \<Rightarrow> InboundMessage \<Rightarrow> string" where
  "canonicalPayloadHash sha256 message =
     sha256 (utf8 (json_stringify (canonicalize (inbound_json message))))"

definition curateErrorText :: "string option \<Rightarrow> string" where
  "curateErrorText input =
     (let text = (case input of None \<Rightarrow> [] | Some s \<Rightarrow> s);
          collapsed = js_trim (js_collapse_ws text)
      in if length collapsed \<le> MAX_ERROR_TEXT_LEN then collapsed
         else take (MAX_ERROR_TEXT_LEN - 3) collapsed @ ''...'')"

definition rowToEntry :: "idem_row \<Rightarrow> (idem_error, IdempotencyEntry) result" where
  "rowToEntry r =
     result_bind
       (case ie_response r of
          None \<Rightarrow> Inr None
        | Some text \<Rightarrow> (case json_parse text of None \<Rightarrow> Inl CorruptPayload | Some v \<Rightarrow> Inr (Some v)))
       (\<lambda>response. Inr \<lparr>ie_adapterId = ie_adapterId r, ie_messageId = ie_messageId r,
          ie_conversationKey = ie_conversationKey r, ie_correlationId = ie_correlationId r,
          ie_payloadHash = ie_payloadHash r, ie_ingestState = ie_ingestState r,
          ie_deliveryState = ie_deliveryState r, ie_response = response,
          ie_errorText = ie_errorText r, ie_createdAt = ie_createdAt r, ie_updatedAt = ie_updatedAt r\<rparr>)"

fun ingest_str :: "IngestState \<Rightarrow> string" where
  "ingest_str IngestPending = ''pending''"
| "ingest_str IngestCompleted = ''completed''"

fun delivery_str :: "DeliveryState \<Rightarrow> string" where
  "delivery_str DPending = ''pending''"
| "delivery_str DSaved = ''saved''"
| "delivery_str DSent = ''sent''"
| "delivery_str DFailed = ''failed''"

section \<open>Reading\<close>

definition idem_getRaw :: "idem_row list \<Rightarrow> string \<Rightarrow> string \<Rightarrow> (idem_error, IdempotencyEntry option) result" where
  "idem_getRaw rows a m =
     (case sql_get (\<lambda>r. ie_adapterId r = a \<and> ie_messageId r = m) rows of
        None \<Rightarrow> Inr None
      | Some r \<Rightarrow> result_bind (rowToEntry r) (\<lambda>e. Inr (Some e)))"

text \<open>\<open>getEntry\<close> is the public name of the same read.\<close>

definition getEntry :: "idem_row list \<Rightarrow> string \<Rightarrow> string \<Rightarrow> (idem_error, IdempotencyEntry option) result" where
  "getEntry rows a m = idem_getRaw rows a m"

definition getSavedResponse :: "idem_row list \<Rightarrow> string \<Rightarrow> string \<Rightarrow> (idem_error, json option) result" where
  "getSavedResponse rows a m =
     result_bind (idem_getRaw rows a m)
       (\<lambda>row. case row of
          None \<Rightarrow> Inr None
        | Some e \<Rightarrow>
            if ie_deliveryState e = DSaved \<or> ie_deliveryState e = DFailed then Inr (ie_response e)
            else Inr None)"

text \<open>\<open>ORDER BY created_at, message_id\<close>: stable sorts from the last key to the first.\<close>

definition getEntriesByCorrelation :: "idem_row list \<Rightarrow> string \<Rightarrow> string \<Rightarrow> (idem_error, IdempotencyEntry list) result" where
  "getEntriesByCorrelation rows a c =
     result_mapM rowToEntry
       (sort_key ie_createdAt (sort_key ie_messageId
          (filter (\<lambda>r. ie_adapterId r = a \<and> ie_correlationId r = c) rows)))"

definition listSavedResponses :: "idem_row list \<Rightarrow> (idem_error, IdempotencyEntry list) result" where
  "listSavedResponses rows =
     result_mapM rowToEntry
       (sort_key ie_createdAt (sort_key ie_adapterId (sort_key ie_correlationId (sort_key ie_messageId
          (filter (\<lambda>r. ie_deliveryState r = DSaved) rows)))))"

section \<open>Begin\<close>

definition classifyExisting :: "IdempotencyEntry \<Rightarrow> BeginInboundResult" where
  "classifyExisting row =
     (case ie_deliveryState row of
        DSent \<Rightarrow> AlreadySent (ie_correlationId row)
      | DSaved \<Rightarrow> ResponseSaved (ie_correlationId row) (case ie_response row of Some e \<Rightarrow> e | None \<Rightarrow> JNull)
      | DFailed \<Rightarrow> DeliveryFailed (ie_correlationId row) (case ie_response row of Some e \<Rightarrow> e | None \<Rightarrow> JNull)
                     (case ie_errorText row of Some t \<Rightarrow> t | None \<Rightarrow> [])
      | DPending \<Rightarrow> BPending (ie_correlationId row))"

text \<open>
  \<open>beginInbound\<close> reads the row and then inserts in a transaction; another process sharing
  the database may write in between, so the table at the insert is a second argument. In one
  process the two are the same table.
\<close>

definition beginInbound_race :: "(nat list \<Rightarrow> string) \<Rightarrow> string \<Rightarrow> string \<Rightarrow> idem_row list \<Rightarrow> idem_row list
    \<Rightarrow> string \<Rightarrow> InboundMessage \<Rightarrow> string option \<Rightarrow> (idem_error, BeginInboundResult) result \<times> idem_row list" where
  "beginInbound_race sha256 uuid ts rows rows' adapterId message correlationId =
     (if adapterId = [] then (Inl AdapterIdMissing, rows')
      else if im_messageId message = [] then (Inl MessageIdMissing, rows')
      else if correlationId = Some [] then (Inl CorrelationIdEmpty, rows')
      else
        let payloadHash = canonicalPayloadHash sha256 message;
            m = im_messageId message
        in (case idem_getRaw rows adapterId m of
              Inl e \<Rightarrow> (Inl e, rows')
            | Inr None \<Rightarrow>
                let assignedCorrelationId = (case correlationId of Some c \<Rightarrow> c | None \<Rightarrow> uuid);
                    row = \<lparr>ie_adapterId = adapterId, ie_messageId = m,
                           ie_conversationKey = im_conversationKey message,
                           ie_correlationId = assignedCorrelationId, ie_payloadHash = payloadHash,
                           ie_ingestState = IngestPending, ie_deliveryState = DPending,
                           ie_response = None, ie_errorText = None, ie_createdAt = ts, ie_updatedAt = ts\<rparr>
                in (case sql_insert idem_key row rows' of
                      Some rows'' \<Rightarrow> (Inr (Created assignedCorrelationId), rows'')
                    | None \<Rightarrow>
                        (case idem_getRaw rows' adapterId m of
                           Inl e \<Rightarrow> (Inl e, rows')
                         | Inr None \<Rightarrow> (Inl InsertFailed, rows')
                         | Inr (Some raced) \<Rightarrow>
                             if ie_payloadHash raced = payloadHash then (Inr (classifyExisting raced), rows')
                             else (Inl (IdempotencyConflict adapterId m payloadHash (ie_payloadHash raced)), rows')))
            | Inr (Some existing) \<Rightarrow>
                if ie_payloadHash existing \<noteq> payloadHash
                then (Inl (IdempotencyConflict adapterId m payloadHash (ie_payloadHash existing)), rows')
                else (Inr (classifyExisting existing), rows')))"

definition beginInbound :: "(nat list \<Rightarrow> string) \<Rightarrow> string \<Rightarrow> string \<Rightarrow> idem_row list
    \<Rightarrow> string \<Rightarrow> InboundMessage \<Rightarrow> string option \<Rightarrow> (idem_error, BeginInboundResult) result \<times> idem_row list" where
  "beginInbound sha256 uuid ts rows adapterId message correlationId =
     beginInbound_race sha256 uuid ts rows rows adapterId message correlationId"

section \<open>Transitions of one row\<close>

text \<open>The error of a compare-and-set that changed no row.\<close>

definition assertRowExists :: "idem_row list \<Rightarrow> string \<Rightarrow> string \<Rightarrow> string \<Rightarrow> string \<Rightarrow> idem_error" where
  "assertRowExists rows a m fld expected =
     (case idem_getRaw rows a m of
        Inl e \<Rightarrow> e
      | Inr None \<Rightarrow> InvalidStateTransition a m NoEntry
      | Inr (Some row) \<Rightarrow>
          InvalidStateTransition a m
            (ExpectedState fld expected
              (if fld = ''ingest_state'' then ingest_str (ie_ingestState row)
               else if fld = ''delivery_state'' then delivery_str (ie_deliveryState row)
               else ''null'')))"

definition discardPendingInbound :: "idem_row list \<Rightarrow> string \<Rightarrow> string \<Rightarrow> (idem_error, unit) result \<times> idem_row list" where
  "discardPendingInbound rows a m =
     (let (rows', changes) = sql_delete (\<lambda>r. idem_key r = (a, m) \<and>
            (ie_ingestState r = IngestPending \<and> ie_deliveryState r = DPending \<and> ie_response r = None)) rows
      in if changes = 0
         then (case idem_getRaw rows a m of
                 Inl e \<Rightarrow> (Inl e, rows)
               | Inr None \<Rightarrow> (Inl (InvalidStateTransition a m NoEntry), rows)
               | Inr (Some _) \<Rightarrow> (Inl (InvalidStateTransition a m AlreadyAccepted), rows))
         else (Inr (), rows'))"

definition markIngestComplete :: "string \<Rightarrow> idem_row list \<Rightarrow> string \<Rightarrow> string \<Rightarrow> (idem_error, unit) result \<times> idem_row list" where
  "markIngestComplete ts rows a m =
     (let (rows', changes) = sql_update (\<lambda>r. idem_key r = (a, m) \<and> ie_ingestState r = IngestPending)
            (\<lambda>r. r\<lparr>ie_ingestState := IngestCompleted, ie_updatedAt := ts\<rparr>) rows
      in if changes = 0 then (Inl (assertRowExists rows a m ''ingest_state'' ''pending''), rows)
         else (Inr (), rows'))"

text \<open>The assignments of the two statements that save a response.\<close>

definition save_row :: "string \<Rightarrow> json \<Rightarrow> idem_row \<Rightarrow> idem_row" where
  "save_row ts event r =
     r\<lparr>ie_ingestState := IngestCompleted, ie_deliveryState := DSaved,
        ie_response := Some (json_stringify event), ie_errorText := None, ie_updatedAt := ts\<rparr>"

definition sent_row :: "string \<Rightarrow> idem_row \<Rightarrow> idem_row" where
  "sent_row ts r = r\<lparr>ie_deliveryState := DSent, ie_errorText := None, ie_updatedAt := ts\<rparr>"

definition failed_row :: "string \<Rightarrow> string option \<Rightarrow> idem_row \<Rightarrow> idem_row" where
  "failed_row ts err r =
     r\<lparr>ie_deliveryState := DFailed, ie_errorText := Some (curateErrorText err), ie_updatedAt := ts\<rparr>"

definition unsent :: "idem_row \<Rightarrow> bool" where
  "unsent r \<longleftrightarrow> ie_deliveryState r = DSaved \<or> ie_deliveryState r = DFailed"

definition saveResponse :: "string \<Rightarrow> idem_row list \<Rightarrow> string \<Rightarrow> string \<Rightarrow> json \<Rightarrow> (idem_error, unit) result \<times> idem_row list" where
  "saveResponse ts rows a m event =
     (if jstring (jget ''type'' event) = None then (Inl EventWithoutType, rows)
      else if \<not> isTerminalEventType (jget ''type'' event) then (Inl NonTerminalEvent, rows)
      else (case idem_getRaw rows a m of
              Inl e \<Rightarrow> (Inl e, rows)
            | Inr None \<Rightarrow> (Inl (InvalidStateTransition a m NoEntry), rows)
            | Inr (Some row) \<Rightarrow>
                if jget ''correlationId'' event \<noteq> Some (JStr (ie_correlationId row))
                then (Inl (CorrelationMismatch a m), rows)
                else if jget ''conversationKey'' event \<noteq> Some (JStr (ie_conversationKey row))
                then (Inl (ConversationMismatch a m), rows)
                else
                  let (rows', changes) =
                        sql_update (\<lambda>r. idem_key r = (a, m) \<and> ie_deliveryState r = DPending) (save_row ts event) rows
                  in if changes = 0
                     then (Inl (InvalidStateTransition a m
                            (ExpectedState ''delivery_state'' ''pending''
                              (case idem_getRaw rows a m of
                                 Inr (Some fresh) \<Rightarrow> delivery_str (ie_deliveryState fresh)
                               | _ \<Rightarrow> ''absent''))), rows)
                     else (Inr (), rows')))"

definition markSent :: "string \<Rightarrow> idem_row list \<Rightarrow> string \<Rightarrow> string \<Rightarrow> (idem_error, unit) result \<times> idem_row list" where
  "markSent ts rows a m =
     (let (rows', changes) = sql_update (\<lambda>r. idem_key r = (a, m) \<and> unsent r) (sent_row ts) rows
      in if changes = 0 then (Inl (assertRowExists rows a m ''delivery_state'' ''saved|failed''), rows)
         else (Inr (), rows'))"

definition markFailed :: "string \<Rightarrow> idem_row list \<Rightarrow> string \<Rightarrow> string \<Rightarrow> string option \<Rightarrow> (idem_error, unit) result \<times> idem_row list" where
  "markFailed ts rows a m err =
     (let (rows', changes) =
        sql_update (\<lambda>r. idem_key r = (a, m) \<and> ie_deliveryState r = DSaved) (failed_row ts err) rows
      in if changes = 0 then (Inl (assertRowExists rows a m ''delivery_state'' ''saved''), rows)
         else (Inr (), rows'))"

section \<open>Transitions of a correlation\<close>

definition response_event_id :: "IdempotencyEntry \<Rightarrow> json option" where
  "response_event_id e = (case ie_response e of None \<Rightarrow> None | Some v \<Rightarrow> jget ''eventId'' v)"

text \<open>The loop of \<open>saveResponseForCorrelation\<close>: the number of pending entries, or the error.\<close>

fun count_pending :: "string \<Rightarrow> json \<Rightarrow> IdempotencyEntry list \<Rightarrow> nat \<Rightarrow> (idem_error, nat) result" where
  "count_pending a event [] n = Inr n"
| "count_pending a event (entry # es) n =
     (if jget ''conversationKey'' event \<noteq> Some (JStr (ie_conversationKey entry))
      then Inl (ConversationMismatch a (ie_messageId entry))
      else if ie_deliveryState entry = DPending then count_pending a event es (Suc n)
      else if response_event_id entry \<noteq> jget ''eventId'' event
      then Inl (TerminalEventMismatch a (ie_messageId entry))
      else count_pending a event es n)"

definition saveResponseForCorrelation :: "string \<Rightarrow> idem_row list \<Rightarrow> string \<Rightarrow> string \<Rightarrow> json
    \<Rightarrow> (idem_error, unit) result \<times> idem_row list" where
  "saveResponseForCorrelation ts rows a c event =
     (if \<not> isTerminalEventType (jget ''type'' event) then (Inl NonTerminalEvent, rows)
      else if jget ''correlationId'' event \<noteq> Some (JStr c) then (Inl (CorrelationMismatch a c), rows)
      else (case getEntriesByCorrelation rows a c of
              Inl e \<Rightarrow> (Inl e, rows)
            | Inr entries \<Rightarrow>
                if entries = [] then (Inl (NoEntriesForCorrelation c), rows)
                else (case count_pending a event entries 0 of
                        Inl e \<Rightarrow> (Inl e, rows)
                      | Inr pending \<Rightarrow>
                          if pending = 0 then (Inr (), rows)
                          else
                            let (rows', changes) =
                                  sql_update (\<lambda>r. (ie_adapterId r = a \<and> ie_correlationId r = c) \<and> ie_deliveryState r = DPending)
                                    (save_row ts event) rows
                            in if changes \<noteq> pending then (Inl (CorrelationChanged c), rows')
                               else (Inr (), rows'))))"

text \<open>The loops of \<open>markCorrelationSent\<close> and \<open>markCorrelationFailed\<close>.\<close>

fun count_state :: "(string \<Rightarrow> idem_error) \<Rightarrow> (DeliveryState \<Rightarrow> bool) \<Rightarrow> string \<Rightarrow> IdempotencyEntry list \<Rightarrow> nat
    \<Rightarrow> (idem_error, nat) result" where
  "count_state err counted eventId [] n = Inr n"
| "count_state err counted eventId (entry # es) n =
     (if response_event_id entry \<noteq> Some (JStr eventId) \<or> ie_deliveryState entry = DPending
      then Inl (err (ie_messageId entry))
      else count_state err counted eventId es (if counted (ie_deliveryState entry) then Suc n else n))"

definition markCorrelationSent :: "string \<Rightarrow> idem_row list \<Rightarrow> string \<Rightarrow> string \<Rightarrow> string
    \<Rightarrow> (idem_error, unit) result \<times> idem_row list" where
  "markCorrelationSent ts rows a c eventId =
     (case getEntriesByCorrelation rows a c of
        Inl e \<Rightarrow> (Inl e, rows)
      | Inr entries \<Rightarrow>
          (case count_state (CannotConfirmDelivery a) (\<lambda>d. d \<noteq> DSent) eventId entries 0 of
             Inl e \<Rightarrow> (Inl e, rows)
           | Inr n \<Rightarrow>
               if n = 0 then (Inr (), rows)
               else
                 let (rows', changes) =
                       sql_update (\<lambda>r. (ie_adapterId r = a \<and> ie_correlationId r = c) \<and> unsent r) (sent_row ts) rows
                 in if changes \<noteq> n then (Inl (CorrelationChanged c), rows') else (Inr (), rows')))"

definition markCorrelationFailed :: "string \<Rightarrow> idem_row list \<Rightarrow> string \<Rightarrow> string \<Rightarrow> string \<Rightarrow> string option
    \<Rightarrow> (idem_error, unit) result \<times> idem_row list" where
  "markCorrelationFailed ts rows a c eventId err =
     (case getEntriesByCorrelation rows a c of
        Inl e \<Rightarrow> (Inl e, rows)
      | Inr entries \<Rightarrow>
          (case count_state (CannotRecordFailure a) (\<lambda>d. d = DSaved) eventId entries 0 of
             Inl e \<Rightarrow> (Inl e, rows)
           | Inr n \<Rightarrow>
               if n = 0 then (Inr (), rows)
               else
                 let (rows', changes) =
                       sql_update (\<lambda>r. (ie_adapterId r = a \<and> ie_correlationId r = c) \<and> ie_deliveryState r = DSaved)
                         (failed_row ts err) rows
                 in if changes \<noteq> n then (Inl (CorrelationChanged c), rows') else (Inr (), rows')))"

section \<open>The row invariant\<close>

text \<open>\<open>event_for\<close>: the event may be saved on the row.\<close>

definition event_for :: "json \<Rightarrow> idem_row \<Rightarrow> bool" where
  "event_for event r \<longleftrightarrow> json_ok event \<and> isTerminalEventType (jget ''type'' event) \<and>
     jget ''correlationId'' event = Some (JStr (ie_correlationId r)) \<and>
     jget ''conversationKey'' event = Some (JStr (ie_conversationKey r))"

definition row_ok :: "idem_row \<Rightarrow> bool" where
  "row_ok r \<longleftrightarrow> schema_check r \<and>
     (ie_deliveryState r \<noteq> DPending \<longrightarrow> ie_ingestState r = IngestCompleted) \<and>
     (\<forall>text. ie_response r = Some text \<longrightarrow> (\<exists>event. event_for event r \<and> text = json_stringify event)) \<and>
     (\<forall>text. ie_errorText r = Some text \<longrightarrow> length text \<le> MAX_ERROR_TEXT_LEN)"

abbreviation idem_ok :: "idem_row list \<Rightarrow> bool" where
  "idem_ok \<equiv> tbl_ok idem_key row_ok"

abbreviation idem_row :: "idem_row list \<Rightarrow> string \<Rightarrow> string \<Rightarrow> idem_row option" where
  "idem_row rows a m \<equiv> row_at idem_key rows (a, m)"

lemma curateErrorText_length: "length (curateErrorText input) \<le> MAX_ERROR_TEXT_LEN"
  by (auto simp: curateErrorText_def MAX_ERROR_TEXT_LEN_def Let_def)

lemma row_ok_ingest:
  "ie_ingestState r = IngestPending \<Longrightarrow> row_ok r \<Longrightarrow>
   row_ok (r\<lparr>ie_ingestState := IngestCompleted, ie_updatedAt := ts\<rparr>)"
  by (auto simp: row_ok_def schema_check_def event_for_def)

lemma row_ok_save: "event_for event r \<Longrightarrow> row_ok (save_row ts event r)"
  by (auto simp: row_ok_def schema_check_def event_for_def save_row_def)

lemma row_ok_sent: "unsent r \<Longrightarrow> row_ok r \<Longrightarrow> row_ok (sent_row ts r)"
  by (auto simp: row_ok_def schema_check_def event_for_def sent_row_def unsent_def)

lemma row_ok_failed: "ie_deliveryState r = DSaved \<Longrightarrow> row_ok r \<Longrightarrow> row_ok (failed_row ts err r)"
  by (auto simp: row_ok_def schema_check_def event_for_def failed_row_def curateErrorText_length)

lemma idem_key_changes [simp]:
  "idem_key (save_row ts event r) = idem_key r"
  "idem_key (sent_row ts r) = idem_key r"
  "idem_key (failed_row ts err r) = idem_key r"
  by (simp_all add: idem_key_def save_row_def sent_row_def failed_row_def)

interpretation ing: row_cas idem_key row_ok "(a, m)" "\<lambda>r. ie_ingestState r = IngestPending"
    "\<lambda>r. r\<lparr>ie_ingestState := IngestCompleted, ie_updatedAt := ts\<rparr>" for a m ts
  by unfold_locales (simp_all add: idem_key_def row_ok_ingest)

interpretation sav: row_cas idem_key row_ok "(a, m)" "\<lambda>r. ie_deliveryState r = DPending \<and> event_for event r"
    "save_row ts event" for a m ts event
  by unfold_locales (auto intro: row_ok_save)

interpretation snt: row_cas idem_key row_ok "(a, m)" unsent "sent_row ts" for a m ts
  by unfold_locales (auto intro: row_ok_sent)

interpretation fld: row_cas idem_key row_ok "(a, m)" "\<lambda>r. ie_deliveryState r = DSaved" "failed_row ts err" for a m ts err
  by unfold_locales (auto intro: row_ok_failed)

abbreviation of_corr :: "string \<Rightarrow> string \<Rightarrow> idem_row \<Rightarrow> bool" where
  "of_corr a c r \<equiv> ie_adapterId r = a \<and> ie_correlationId r = c"

interpretation csav: row_update idem_key row_ok
    "\<lambda>r. of_corr a c r \<and> ie_deliveryState r = DPending \<and> event_for event r" "save_row ts event" for a c ts event
  by unfold_locales (auto intro: row_ok_save)

interpretation csnt: row_update idem_key row_ok "\<lambda>r. of_corr a c r \<and> unsent r" "sent_row ts" for a c ts
  by unfold_locales (auto intro: row_ok_sent)

interpretation cfld: row_update idem_key row_ok "\<lambda>r. of_corr a c r \<and> ie_deliveryState r = DSaved"
    "failed_row ts err" for a c ts err
  by unfold_locales (auto intro: row_ok_failed)

section \<open>Reading a well-formed table\<close>

definition entry_of :: "idem_row \<Rightarrow> IdempotencyEntry" where
  "entry_of r = \<lparr>ie_adapterId = ie_adapterId r, ie_messageId = ie_messageId r,
     ie_conversationKey = ie_conversationKey r, ie_correlationId = ie_correlationId r,
     ie_payloadHash = ie_payloadHash r, ie_ingestState = ie_ingestState r,
     ie_deliveryState = ie_deliveryState r, ie_response = Option.bind (ie_response r) json_parse,
     ie_errorText = ie_errorText r, ie_createdAt = ie_createdAt r, ie_updatedAt = ie_updatedAt r\<rparr>"

lemma entry_of_sel [simp]:
  "ie_adapterId (entry_of r) = ie_adapterId r" "ie_messageId (entry_of r) = ie_messageId r"
  "ie_conversationKey (entry_of r) = ie_conversationKey r" "ie_correlationId (entry_of r) = ie_correlationId r"
  "ie_payloadHash (entry_of r) = ie_payloadHash r" "ie_ingestState (entry_of r) = ie_ingestState r"
  "ie_deliveryState (entry_of r) = ie_deliveryState r" "ie_errorText (entry_of r) = ie_errorText r"
  "ie_response (entry_of r) = Option.bind (ie_response r) json_parse"
  by (simp_all add: entry_of_def)

lemma row_okD:
  assumes "row_ok r" "ie_deliveryState r \<noteq> DPending"
  obtains event where "event_for event r" "ie_response r = Some (json_stringify event)"
    "json_parse (json_stringify event) = Some event" "ie_ingestState r = IngestCompleted"
  using assms by (auto simp: row_ok_def schema_check_def event_for_def json_parse_stringify)

lemma row_ok_pending: "row_ok r \<Longrightarrow> ie_deliveryState r = DPending \<Longrightarrow> ie_response r = None \<and> ie_errorText r = None"
  by (auto simp: row_ok_def schema_check_def)

lemma rowToEntry_ok:
  assumes "row_ok r"
  shows "rowToEntry r = Inr (entry_of r)"
proof (cases "ie_deliveryState r = DPending")
  case True
  then show ?thesis using row_ok_pending [OF assms] by (simp add: rowToEntry_def entry_of_def)
next
  case False
  then obtain event where "ie_response r = Some (json_stringify event)" "json_parse (json_stringify event) = Some event"
    using row_okD [OF assms] by metis
  then show ?thesis by (simp add: rowToEntry_def entry_of_def)
qed

lemma idem_getRaw_ok: "idem_ok rows \<Longrightarrow> idem_getRaw rows a m = Inr (map_option entry_of (idem_row rows a m))"
proof -
  assume ok: "idem_ok rows"
  have "sql_get (\<lambda>r. ie_adapterId r = a \<and> ie_messageId r = m) rows = idem_row rows a m"
    by (simp add: row_at_def idem_key_def)
  then show ?thesis using tbl_ok_row [OF ok]
    by (auto simp: idem_getRaw_def rowToEntry_ok split: option.splits)
qed

lemma result_mapM_ok: "\<forall>r \<in> set rs. row_ok r \<Longrightarrow> result_mapM rowToEntry rs = Inr (map entry_of rs)"
  by (induction rs) (simp_all add: rowToEntry_ok)

definition corr_rows :: "idem_row list \<Rightarrow> string \<Rightarrow> string \<Rightarrow> idem_row list" where
  "corr_rows rows a c = sort_key ie_createdAt (sort_key ie_messageId (filter (of_corr a c) rows))"

lemma set_corr_rows [simp]: "set (corr_rows rows a c) = {r \<in> set rows. of_corr a c r}"
  by (simp add: corr_rows_def)

lemma getEntriesByCorrelation_ok:
  "idem_ok rows \<Longrightarrow> getEntriesByCorrelation rows a c = Inr (map entry_of (corr_rows rows a c))"
  unfolding getEntriesByCorrelation_def corr_rows_def [symmetric]
  by (rule result_mapM_ok) (auto simp: tbl_ok_def)

lemma length_filter_corr_rows:
  "length (filter P (corr_rows rows a c)) = length (filter (\<lambda>r. of_corr a c r \<and> P r) rows)"
proof -
  have "mset (filter P (corr_rows rows a c)) = mset (filter P (filter (of_corr a c) rows))"
    by (simp only: corr_rows_def mset_filter mset_sort)
  then have "length (filter P (corr_rows rows a c)) = length (filter P (filter (of_corr a c) rows))"
    by (metis size_mset)
  also have "filter P (filter (of_corr a c) rows) = filter (\<lambda>r. of_corr a c r \<and> P r) rows"
    by (simp add: conj_commute)
  finally show ?thesis .
qed

section \<open>The operations on a well-formed table\<close>

lemma idem_row_ok: "idem_ok rows \<Longrightarrow> idem_row rows a m = Some r \<Longrightarrow> row_ok r \<and> ie_adapterId r = a \<and> ie_messageId r = m"
  by (auto dest: tbl_ok_row row_at_SomeD simp: idem_key_def)

lemma ingest_str_done: "i \<noteq> IngestPending \<Longrightarrow> ingest_str i = ''completed''"
  by (cases i) simp_all

lemma markIngestComplete_cases:
  assumes "idem_ok rows"
  shows "markIngestComplete ts rows a m =
    (case idem_row rows a m of
       None \<Rightarrow> (Inl (InvalidStateTransition a m NoEntry), rows)
     | Some r \<Rightarrow>
         if ie_ingestState r = IngestPending
         then (Inr (), fst (sql_update (\<lambda>r. idem_key r = (a, m) \<and> ie_ingestState r = IngestPending)
                 (\<lambda>r. r\<lparr>ie_ingestState := IngestCompleted, ie_updatedAt := ts\<rparr>) rows))
         else (Inl (InvalidStateTransition a m (ExpectedState ''ingest_state'' ''pending'' ''completed'')), rows))"
  using ing.cas_changes [OF assms, where a = a and m = m and ts = ts]
  by (auto simp: markIngestComplete_def Let_def case_prod_beta assertRowExists_def idem_getRaw_ok [OF assms]
      ingest_str_done split: option.splits)

lemma markSent_cases:
  assumes "idem_ok rows"
  shows "markSent ts rows a m =
    (case idem_row rows a m of
       None \<Rightarrow> (Inl (InvalidStateTransition a m NoEntry), rows)
     | Some r \<Rightarrow>
         if unsent r then (Inr (), fst (sql_update (\<lambda>r. idem_key r = (a, m) \<and> unsent r) (sent_row ts) rows))
         else (Inl (InvalidStateTransition a m
                (ExpectedState ''delivery_state'' ''saved|failed'' (delivery_str (ie_deliveryState r)))), rows))"
  using snt.cas_changes [OF assms, where a = a and m = m and ts = ts]
  by (auto simp: markSent_def Let_def case_prod_beta assertRowExists_def idem_getRaw_ok [OF assms] split: option.splits)

lemma markFailed_cases:
  assumes "idem_ok rows"
  shows "markFailed ts rows a m err =
    (case idem_row rows a m of
       None \<Rightarrow> (Inl (InvalidStateTransition a m NoEntry), rows)
     | Some r \<Rightarrow>
         if ie_deliveryState r = DSaved
         then (Inr (), fst (sql_update (\<lambda>r. idem_key r = (a, m) \<and> ie_deliveryState r = DSaved) (failed_row ts err) rows))
         else (Inl (InvalidStateTransition a m
                (ExpectedState ''delivery_state'' ''saved'' (delivery_str (ie_deliveryState r)))), rows))"
  using fld.cas_changes [OF assms, where a = a and m = m and ts = ts and err = err]
  by (auto simp: markFailed_def Let_def case_prod_beta assertRowExists_def idem_getRaw_ok [OF assms] split: option.splits)

lemma discardPendingInbound_cases:
  assumes "idem_ok rows"
  shows "discardPendingInbound rows a m =
    (case idem_row rows a m of
       None \<Rightarrow> (Inl (InvalidStateTransition a m NoEntry), rows)
     | Some r \<Rightarrow>
         if ie_ingestState r = IngestPending
         then (Inr (), fst (sql_delete (\<lambda>r. idem_key r = (a, m) \<and>
            (ie_ingestState r = IngestPending \<and> ie_deliveryState r = DPending \<and> ie_response r = None)) rows))
         else (Inl (InvalidStateTransition a m AlreadyAccepted), rows))"
proof (cases "idem_row rows a m")
  case (Some r)
  then have "ie_ingestState r = IngestPending \<Longrightarrow> ie_deliveryState r = DPending \<and> ie_response r = None"
    using idem_row_ok [OF assms Some] by (auto simp: row_ok_def schema_check_def)
  then show ?thesis using Some
    sql_delete_changes [OF assms, of "(a, m)" "\<lambda>r. ie_ingestState r = IngestPending \<and> ie_deliveryState r = DPending \<and> ie_response r = None"]
    by (auto simp: discardPendingInbound_def Let_def case_prod_beta idem_getRaw_ok [OF assms])
next
  case None
  then show ?thesis using
    sql_delete_changes [OF assms, of "(a, m)" "\<lambda>r. ie_ingestState r = IngestPending \<and> ie_deliveryState r = DPending \<and> ie_response r = None"]
    by (simp add: discardPendingInbound_def Let_def case_prod_beta idem_getRaw_ok [OF assms])
qed

text \<open>The unguarded columns of \<open>saveResponse\<close>'s statement were checked before it.\<close>

lemma save_guard:
  assumes "idem_ok rows" "\<And>r. idem_row rows a m = Some r \<Longrightarrow> event_for event r"
  shows "sql_update (\<lambda>r. idem_key r = (a, m) \<and> ie_deliveryState r = DPending) (save_row ts event) rows =
    sql_update (\<lambda>r. idem_key r = (a, m) \<and> ie_deliveryState r = DPending \<and> event_for event r) (save_row ts event) rows"
  using assms(2) row_at_in [OF assms(1)] by (intro sql_update_cong) metis

lemma saveResponse_cases:
  assumes ok: "idem_ok rows" and ev: "json_ok event"
  shows "saveResponse ts rows a m event =
    (if jstring (jget ''type'' event) = None then (Inl EventWithoutType, rows)
     else if \<not> isTerminalEventType (jget ''type'' event) then (Inl NonTerminalEvent, rows)
     else case idem_row rows a m of
       None \<Rightarrow> (Inl (InvalidStateTransition a m NoEntry), rows)
     | Some r \<Rightarrow>
         if jget ''correlationId'' event \<noteq> Some (JStr (ie_correlationId r)) then (Inl (CorrelationMismatch a m), rows)
         else if jget ''conversationKey'' event \<noteq> Some (JStr (ie_conversationKey r)) then (Inl (ConversationMismatch a m), rows)
         else if ie_deliveryState r = DPending
         then (Inr (), fst (sql_update (\<lambda>r. idem_key r = (a, m) \<and> ie_deliveryState r = DPending \<and> event_for event r)
                 (save_row ts event) rows))
         else (Inl (InvalidStateTransition a m
                (ExpectedState ''delivery_state'' ''pending'' (delivery_str (ie_deliveryState r)))), rows))"
proof (cases "\<exists>r. idem_row rows a m = Some r \<and> event_for event r")
  case True
  then obtain r where r: "idem_row rows a m = Some r" "event_for event r" by blast
  then have "sql_update (\<lambda>r. idem_key r = (a, m) \<and> ie_deliveryState r = DPending) (save_row ts event) rows =
    sql_update (\<lambda>r. idem_key r = (a, m) \<and> ie_deliveryState r = DPending \<and> event_for event r) (save_row ts event) rows"
    by (intro save_guard [OF ok]) simp
  with r show ?thesis using sav.cas_changes [OF ok, where a = a and m = m and ts = ts and event = event]
    by (simp add: saveResponse_def Let_def case_prod_beta idem_getRaw_ok [OF ok] event_for_def)
next
  case False
  then show ?thesis using ev
    by (auto simp: saveResponse_def Let_def idem_getRaw_ok [OF ok] event_for_def split: option.splits)
qed

text \<open>The loops over the rows of a correlation check every row and count.\<close>

lemma count_pending_Inr_iff:
  "count_pending a event (map entry_of rs) n = Inr k \<longleftrightarrow>
     (\<forall>r \<in> set rs. jget ''conversationKey'' event = Some (JStr (ie_conversationKey r)) \<and>
        (ie_deliveryState r = DPending \<or> response_event_id (entry_of r) = jget ''eventId'' event)) \<and>
     k = n + length (filter (\<lambda>r. ie_deliveryState r = DPending) rs)"
  by (induction rs arbitrary: n) auto

lemma count_state_Inr_iff:
  "count_state err counted eventId (map entry_of rs) n = Inr k \<longleftrightarrow>
     (\<forall>r \<in> set rs. response_event_id (entry_of r) = Some (JStr eventId) \<and> ie_deliveryState r \<noteq> DPending) \<and>
     k = n + length (filter (\<lambda>r. counted (ie_deliveryState r)) rs)"
  by (induction rs arbitrary: n) auto

lemma unsent_iff: "ie_deliveryState r \<noteq> DPending \<Longrightarrow> unsent r \<longleftrightarrow> ie_deliveryState r \<noteq> DSent"
  by (cases "ie_deliveryState r") (auto simp: unsent_def)

lemma saveResponseForCorrelation_cases:
  assumes ok: "idem_ok rows" and ev: "json_ok event"
  shows "saveResponseForCorrelation ts rows a c event =
    (if \<not> isTerminalEventType (jget ''type'' event) then (Inl NonTerminalEvent, rows)
     else if jget ''correlationId'' event \<noteq> Some (JStr c) then (Inl (CorrelationMismatch a c), rows)
     else if corr_rows rows a c = [] then (Inl (NoEntriesForCorrelation c), rows)
     else case count_pending a event (map entry_of (corr_rows rows a c)) 0 of
       Inl e \<Rightarrow> (Inl e, rows)
     | Inr n \<Rightarrow> (Inr (), fst (sql_update (\<lambda>r. of_corr a c r \<and> ie_deliveryState r = DPending \<and> event_for event r)
                  (save_row ts event) rows)))"
proof (cases "isTerminalEventType (jget ''type'' event) \<and> jget ''correlationId'' event = Some (JStr c) \<and>
    (\<exists>n. count_pending a event (map entry_of (corr_rows rows a c)) 0 = Inr n)")
  case True
  then obtain n where t: "isTerminalEventType (jget ''type'' event)" "jget ''correlationId'' event = Some (JStr c)"
    and n: "count_pending a event (map entry_of (corr_rows rows a c)) 0 = Inr n" by blast
  let ?P = "\<lambda>r. of_corr a c r \<and> ie_deliveryState r = DPending"
  let ?Q = "\<lambda>r. of_corr a c r \<and> ie_deliveryState r = DPending \<and> event_for event r"
  have "sql_update ?P (save_row ts event) rows = sql_update ?Q (save_row ts event) rows"
    using t n ev by (intro sql_update_cong) (auto simp: count_pending_Inr_iff event_for_def)
  moreover have "n = length (filter ?P rows)"
    using n by (simp add: count_pending_Inr_iff length_filter_corr_rows)
  then have "n = snd (sql_update ?P (save_row ts event) rows)"
    by (simp add: sql_update_def)
  ultimately have q: "sql_update ?P (save_row ts event) rows = sql_update ?Q (save_row ts event) rows"
    "n = snd (sql_update ?Q (save_row ts event) rows)"
    by simp_all
  show ?thesis using t n q sql_update_none [of ?Q "save_row ts event" rows]
    by (simp add: saveResponseForCorrelation_def getEntriesByCorrelation_ok [OF ok] Let_def case_prod_beta)
next
  case False
  then show ?thesis
    by (auto simp: saveResponseForCorrelation_def getEntriesByCorrelation_ok [OF ok] split: sum.splits)
qed

lemma markCorrelationSent_cases:
  assumes ok: "idem_ok rows"
  shows "markCorrelationSent ts rows a c eventId =
    (case count_state (CannotConfirmDelivery a) (\<lambda>d. d \<noteq> DSent) eventId (map entry_of (corr_rows rows a c)) 0 of
       Inl e \<Rightarrow> (Inl e, rows)
     | Inr n \<Rightarrow> (Inr (), fst (sql_update (\<lambda>r. of_corr a c r \<and> unsent r) (sent_row ts) rows)))"
proof (cases "count_state (CannotConfirmDelivery a) (\<lambda>d. d \<noteq> DSent) eventId (map entry_of (corr_rows rows a c)) 0")
  case (Inr n)
  have "filter (\<lambda>r. of_corr a c r \<and> ie_deliveryState r \<noteq> DSent) rows = filter (\<lambda>r. of_corr a c r \<and> unsent r) rows"
    using Inr by (intro filter_cong) (auto simp: count_state_Inr_iff unsent_iff)
  then have "n = snd (sql_update (\<lambda>r. of_corr a c r \<and> unsent r) (sent_row ts) rows)"
    using Inr by (simp add: count_state_Inr_iff length_filter_corr_rows sql_update_def)
  with Inr show ?thesis using sql_update_none [of "\<lambda>r. of_corr a c r \<and> unsent r" "sent_row ts" rows]
    by (simp add: markCorrelationSent_def getEntriesByCorrelation_ok [OF ok] Let_def case_prod_beta)
qed (simp add: markCorrelationSent_def getEntriesByCorrelation_ok [OF ok])

lemma markCorrelationFailed_cases:
  assumes ok: "idem_ok rows"
  shows "markCorrelationFailed ts rows a c eventId err =
    (case count_state (CannotRecordFailure a) (\<lambda>d. d = DSaved) eventId (map entry_of (corr_rows rows a c)) 0 of
       Inl e \<Rightarrow> (Inl e, rows)
     | Inr n \<Rightarrow> (Inr (), fst (sql_update (\<lambda>r. of_corr a c r \<and> ie_deliveryState r = DSaved) (failed_row ts err) rows)))"
proof (cases "count_state (CannotRecordFailure a) (\<lambda>d. d = DSaved) eventId (map entry_of (corr_rows rows a c)) 0")
  case (Inr n)
  then have "n = snd (sql_update (\<lambda>r. of_corr a c r \<and> ie_deliveryState r = DSaved) (failed_row ts err) rows)"
    by (simp add: count_state_Inr_iff length_filter_corr_rows sql_update_def)
  with Inr show ?thesis using sql_update_none [of "\<lambda>r. of_corr a c r \<and> ie_deliveryState r = DSaved" "failed_row ts err" rows]
    by (simp add: markCorrelationFailed_def getEntriesByCorrelation_ok [OF ok] Let_def case_prod_beta)
qed (simp add: markCorrelationFailed_def getEntriesByCorrelation_ok [OF ok])

text \<open>The row a first delivery inserts.\<close>

definition fresh_row :: "(nat list \<Rightarrow> string) \<Rightarrow> string \<Rightarrow> string \<Rightarrow> string \<Rightarrow> InboundMessage \<Rightarrow> string option \<Rightarrow> idem_row" where
  "fresh_row sha256 uuid ts a message correlationId =
     \<lparr>ie_adapterId = a, ie_messageId = im_messageId message, ie_conversationKey = im_conversationKey message,
      ie_correlationId = (case correlationId of Some c \<Rightarrow> c | None \<Rightarrow> uuid),
      ie_payloadHash = canonicalPayloadHash sha256 message, ie_ingestState = IngestPending,
      ie_deliveryState = DPending, ie_response = None, ie_errorText = None, ie_createdAt = ts, ie_updatedAt = ts\<rparr>"

lemma fresh_row_ok: "row_ok (fresh_row sha256 uuid ts a message correlationId)"
  by (simp add: row_ok_def schema_check_def fresh_row_def)

lemma fresh_row_key: "idem_key (fresh_row sha256 uuid ts a message correlationId) = (a, im_messageId message)"
  by (simp add: idem_key_def fresh_row_def)

lemma beginInbound_cases:
  assumes ok: "idem_ok rows"
  shows "beginInbound sha256 uuid ts rows a message correlationId =
    (if a = [] then (Inl AdapterIdMissing, rows)
     else if im_messageId message = [] then (Inl MessageIdMissing, rows)
     else if correlationId = Some [] then (Inl CorrelationIdEmpty, rows)
     else case idem_row rows a (im_messageId message) of
       None \<Rightarrow> (Inr (Created (case correlationId of Some c \<Rightarrow> c | None \<Rightarrow> uuid)),
                rows @ [fresh_row sha256 uuid ts a message correlationId])
     | Some r \<Rightarrow>
         if ie_payloadHash r = canonicalPayloadHash sha256 message then (Inr (classifyExisting (entry_of r)), rows)
         else (Inl (IdempotencyConflict a (im_messageId message) (canonicalPayloadHash sha256 message) (ie_payloadHash r)), rows))"
proof (cases "idem_row rows a (im_messageId message)")
  case None
  then have "sql_insert idem_key (fresh_row sha256 uuid ts a message correlationId) rows =
      Some (rows @ [fresh_row sha256 uuid ts a message correlationId])"
    by (simp add: sql_insert_def row_at_None_iff fresh_row_key)
  then show ?thesis using None
    by (simp add: beginInbound_def beginInbound_race_def Let_def idem_getRaw_ok [OF ok] fresh_row_def)
qed (auto simp: beginInbound_def beginInbound_race_def Let_def idem_getRaw_ok [OF ok])

section \<open>The life of a key\<close>

text \<open>
  The contract of the store, per key \<open>(adapterId, messageId)\<close>: a message is open (accepted,
  then ingested), gets at most one terminal response, and the response is delivered at most
  once as far as the store knows. The identity of a row is its conversation, correlation,
  payload hash and creation time.
\<close>

type_synonym ident = "string \<times> string \<times> string \<times> string"

datatype phase =
    Absent
  | Open ident bool
  | Saved ident string
  | Failed ident string
  | Sent ident string

inductive phase_step :: "phase \<Rightarrow> phase \<Rightarrow> bool" where
  accept: "phase_step Absent (Open i False)"
| discard: "phase_step (Open i False) Absent"
| ingested: "phase_step (Open i False) (Open i True)"
| saved: "phase_step (Open i b) (Saved i text)"
| failed: "phase_step (Saved i text) (Failed i text)"
| sent: "phase_step (Saved i text) (Sent i text)"
| resent: "phase_step (Failed i text) (Sent i text)"

inductive_cases phase_stepE [elim!]:
  "phase_step Absent p" "phase_step (Open i b) p" "phase_step (Saved i t) p" "phase_step (Failed i t) p" "phase_step (Sent i t) p"

definition ident_of :: "idem_row \<Rightarrow> ident" where
  "ident_of r = (ie_conversationKey r, ie_correlationId r, ie_payloadHash r, ie_createdAt r)"

definition row_phase :: "idem_row \<Rightarrow> phase" where
  "row_phase r =
     (let text = (case ie_response r of Some t \<Rightarrow> t | None \<Rightarrow> [])
      in case ie_deliveryState r of
        DPending \<Rightarrow> Open (ident_of r) (ie_ingestState r = IngestCompleted)
      | DSaved \<Rightarrow> Saved (ident_of r) text
      | DFailed \<Rightarrow> Failed (ident_of r) text
      | DSent \<Rightarrow> Sent (ident_of r) text)"

definition phase_of :: "idem_row list \<Rightarrow> string \<Rightarrow> string \<Rightarrow> phase" where
  "phase_of rows a m = (case idem_row rows a m of None \<Rightarrow> Absent | Some r \<Rightarrow> row_phase r)"

text \<open>One call of the store; events are JSON values, their property names distinct.\<close>

inductive idem_step :: "idem_row list \<Rightarrow> idem_row list \<Rightarrow> bool" where
  begin_step: "idem_step rows (snd (beginInbound sha256 uuid ts rows a message c))"
| discard_step: "idem_step rows (snd (discardPendingInbound rows a m))"
| ingest_step: "idem_step rows (snd (markIngestComplete ts rows a m))"
| save_step: "json_ok event \<Longrightarrow> idem_step rows (snd (saveResponse ts rows a m event))"
| sent_step: "idem_step rows (snd (markSent ts rows a m))"
| failed_step: "idem_step rows (snd (markFailed ts rows a m err))"
| corr_save_step: "json_ok event \<Longrightarrow> idem_step rows (snd (saveResponseForCorrelation ts rows a c event))"
| corr_sent_step: "idem_step rows (snd (markCorrelationSent ts rows a c eventId))"
| corr_failed_step: "idem_step rows (snd (markCorrelationFailed ts rows a c eventId err))"

text \<open>What a row change does to the phase, statement by statement.\<close>

lemma phase_ingest:
  "row_ok r \<Longrightarrow> ie_ingestState r = IngestPending \<Longrightarrow>
   phase_step (row_phase r) (row_phase (r\<lparr>ie_ingestState := IngestCompleted, ie_updatedAt := ts\<rparr>))"
  by (auto simp: row_ok_def row_phase_def ident_of_def Let_def split: DeliveryState.splits intro: phase_step.intros)

lemma phase_save: "ie_deliveryState r = DPending \<Longrightarrow> phase_step (row_phase r) (row_phase (save_row ts event r))"
  by (auto simp: row_phase_def save_row_def ident_of_def intro: phase_step.intros)

lemma phase_sent: "unsent r \<Longrightarrow> phase_step (row_phase r) (row_phase (sent_row ts r))"
  by (auto simp: row_phase_def sent_row_def unsent_def ident_of_def Let_def intro: phase_step.intros)

lemma phase_failed: "ie_deliveryState r = DSaved \<Longrightarrow> phase_step (row_phase r) (row_phase (failed_row ts err r))"
  by (auto simp: row_phase_def failed_row_def ident_of_def Let_def intro: phase_step.intros)

text \<open>An \<open>UPDATE\<close> whose row change is a phase step moves every key by at most one phase step.\<close>

abbreviation phase_moves :: "idem_row list \<Rightarrow> idem_row list \<Rightarrow> bool" where
  "phase_moves rows rows' \<equiv> idem_ok rows' \<and>
     (\<forall>a m. phase_of rows' a m = phase_of rows a m \<or> phase_step (phase_of rows a m) (phase_of rows' a m))"

locale phase_update = row_update idem_key row_ok guard change for guard change +
  assumes phase_change: "guard r \<Longrightarrow> row_ok r \<Longrightarrow> phase_step (row_phase r) (row_phase (change r))"
begin

lemma phase_moves_update:
  assumes ok: "idem_ok rows"
  shows "phase_moves rows (fst (sql_update guard change rows))"
proof -
  have "phase_of (fst (sql_update guard change rows)) a m = phase_of rows a m \<or>
      phase_step (phase_of rows a m) (phase_of (fst (sql_update guard change rows)) a m)" for a m
    using idem_row_ok [OF ok, of a m]
    by (cases "idem_row rows a m") (auto simp: phase_of_def row_at_update phase_change)
  then show ?thesis using tbl_ok_update [OF ok] by blast
qed

end

interpretation ping: phase_update "\<lambda>r. idem_key r = (a, m) \<and> ie_ingestState r = IngestPending"
    "\<lambda>r. r\<lparr>ie_ingestState := IngestCompleted, ie_updatedAt := ts\<rparr>" for a m ts
  by unfold_locales (auto intro: phase_ingest)

interpretation psav: phase_update "\<lambda>r. idem_key r = (a, m) \<and> ie_deliveryState r = DPending \<and> event_for event r"
    "save_row ts event" for a m ts event
  by unfold_locales (auto intro: phase_save)

interpretation psnt: phase_update "\<lambda>r. idem_key r = (a, m) \<and> unsent r" "sent_row ts" for a m ts
  by unfold_locales (auto intro: phase_sent)

interpretation pfld: phase_update "\<lambda>r. idem_key r = (a, m) \<and> ie_deliveryState r = DSaved" "failed_row ts err" for a m ts err
  by unfold_locales (auto intro: phase_failed)

interpretation pcsav: phase_update "\<lambda>r. of_corr a c r \<and> ie_deliveryState r = DPending \<and> event_for event r"
    "save_row ts event" for a c ts event
  by unfold_locales (auto intro: phase_save)

interpretation pcsnt: phase_update "\<lambda>r. of_corr a c r \<and> unsent r" "sent_row ts" for a c ts
  by unfold_locales (auto intro: phase_sent)

interpretation pcfld: phase_update "\<lambda>r. of_corr a c r \<and> ie_deliveryState r = DSaved" "failed_row ts err" for a c ts err
  by unfold_locales (auto intro: phase_failed)

lemma phase_moves_refl: "idem_ok rows \<Longrightarrow> phase_moves rows rows"
  by simp

lemma phase_moves_begin:
  assumes ok: "idem_ok rows"
  shows "phase_moves rows (snd (beginInbound sha256 uuid ts rows b message c))"
proof (cases "snd (beginInbound sha256 uuid ts rows b message c) = rows")
  case False
  let ?r = "fresh_row sha256 uuid ts b message c"
  from False have new: "snd (beginInbound sha256 uuid ts rows b message c) = rows @ [?r]"
    "idem_row rows b (im_messageId message) = None"
    by (auto simp: beginInbound_cases [OF ok] split: if_splits option.splits)
  then have row: "idem_row (rows @ [?r]) a m = (if (a, m) = (b, im_messageId message) then Some ?r else idem_row rows a m)" for a m
    using row_at_insert [of idem_key rows ?r "(a, m)"] by (simp add: fresh_row_key)
  have "row_phase ?r = Open (ident_of ?r) False" by (simp add: row_phase_def fresh_row_def)
  then show ?thesis using new row tbl_ok_insert [OF ok fresh_row_ok, of sha256 uuid ts b message c]
    by (auto simp: phase_of_def fresh_row_key intro: phase_step.intros)
qed (simp add: ok)

lemma phase_moves_discard:
  assumes ok: "idem_ok rows"
  shows "phase_moves rows (snd (discardPendingInbound rows b n))"
proof (cases "snd (discardPendingInbound rows b n) = rows")
  case False
  let ?P = "\<lambda>r. idem_key r = (b, n) \<and> (ie_ingestState r = IngestPending \<and> ie_deliveryState r = DPending \<and> ie_response r = None)"
  from False have del: "snd (discardPendingInbound rows b n) = fst (sql_delete ?P rows)"
    by (auto simp: discardPendingInbound_cases [OF ok] split: if_splits option.splits)
  have "row_phase r = Open (ident_of r) False" if "?P r" for r
    using that by (simp add: row_phase_def)
  then have "phase_of (fst (sql_delete ?P rows)) a m = phase_of rows a m \<or>
      phase_step (phase_of rows a m) (phase_of (fst (sql_delete ?P rows)) a m)" for a m
    using row_at_delete [OF ok, of ?P "(a, m)"] by (auto simp: phase_of_def discard split: option.splits)
  then show ?thesis using tbl_ok_delete [OF ok, of ?P] unfolding del by blast
qed (simp add: ok)

lemma phase_moves_step:
  assumes ok: "idem_ok rows" and st: "idem_step rows rows'"
  shows "phase_moves rows rows'"
  using st
proof cases
  case begin_step
  then show ?thesis using phase_moves_begin [OF ok] by simp
next
  case discard_step
  then show ?thesis using phase_moves_discard [OF ok] by simp
next
  case (ingest_step ts b n)
  show ?thesis unfolding ingest_step markIngestComplete_cases [OF ok]
    using ping.phase_moves_update [OF ok] ok by (simp split: option.split)
next
  case (save_step event ts b n)
  show ?thesis unfolding save_step saveResponse_cases [OF ok save_step(2)]
    using psav.phase_moves_update [OF ok] ok by (simp split: option.split)
next
  case (sent_step ts b n)
  show ?thesis unfolding sent_step markSent_cases [OF ok]
    using psnt.phase_moves_update [OF ok] ok by (simp split: option.split)
next
  case (failed_step ts b n err)
  show ?thesis unfolding failed_step markFailed_cases [OF ok]
    using pfld.phase_moves_update [OF ok] ok by (simp split: option.split)
next
  case (corr_save_step event ts b c)
  show ?thesis unfolding corr_save_step saveResponseForCorrelation_cases [OF ok corr_save_step(2)]
    using pcsav.phase_moves_update [OF ok] ok by (simp split: sum.split)
next
  case (corr_sent_step ts b c eventId)
  show ?thesis unfolding corr_sent_step markCorrelationSent_cases [OF ok]
    using pcsnt.phase_moves_update [OF ok] ok by (simp split: sum.split)
next
  case (corr_failed_step ts b c eventId err)
  show ?thesis unfolding corr_failed_step markCorrelationFailed_cases [OF ok]
    using pcfld.phase_moves_update [OF ok] ok by (simp split: sum.split)
qed

section \<open>Runs of the store\<close>

lemma idem_run_ok: "idem_step\<^sup>*\<^sup>* rows rows' \<Longrightarrow> idem_ok rows \<Longrightarrow> idem_ok rows'"
  by (induction rule: rtranclp_induct) (auto dest: phase_moves_step)

lemma idem_reach_ok: "idem_step\<^sup>*\<^sup>* [] rows \<Longrightarrow> idem_ok rows"
  using idem_run_ok by fastforce

fun phase_ident :: "phase \<Rightarrow> ident option" where
  "phase_ident Absent = None"
| "phase_ident (Open i b) = Some i"
| "phase_ident (Saved i t) = Some i"
| "phase_ident (Failed i t) = Some i"
| "phase_ident (Sent i t) = Some i"

fun phase_response :: "phase \<Rightarrow> string option" where
  "phase_response (Saved i t) = Some t"
| "phase_response (Failed i t) = Some t"
| "phase_response (Sent i t) = Some t"
| "phase_response _ = None"

text \<open>How far a key has come; only an accepted key that was never ingested can go back.\<close>

fun phase_rank :: "phase \<Rightarrow> nat" where
  "phase_rank Absent = 0"
| "phase_rank (Open i b) = (if b then 1 else 0)"
| "phase_rank (Saved i t) = 2"
| "phase_rank (Failed i t) = 3"
| "phase_rank (Sent i t) = 4"

lemma phase_step_keeps:
  assumes "phase_step p q" "phase_rank p > 0"
  shows "phase_ident q = phase_ident p \<and> phase_rank p < phase_rank q \<and> (phase_rank p \<ge> 2 \<longrightarrow> phase_response q = phase_response p)"
  using assms by cases auto

lemma phase_run_keeps:
  assumes "idem_step\<^sup>*\<^sup>* rows rows'" "idem_ok rows" "phase_rank (phase_of rows a m) > 0"
  shows "phase_ident (phase_of rows' a m) = phase_ident (phase_of rows a m) \<and>
    phase_rank (phase_of rows a m) \<le> phase_rank (phase_of rows' a m) \<and>
    (phase_rank (phase_of rows a m) \<ge> 2 \<longrightarrow> phase_response (phase_of rows' a m) = phase_response (phase_of rows a m))"
  using assms(1)
proof (induction rule: rtranclp_induct)
  case (step y z)
  then have "phase_of z a m = phase_of y a m \<or> phase_step (phase_of y a m) (phase_of z a m)"
    using phase_moves_step idem_run_ok [OF step(1) assms(2)] by blast
  moreover have "phase_rank (phase_of y a m) > 0" using step.IH assms(3) by linarith
  ultimately show ?case using step.IH phase_step_keeps [of "phase_of y a m" "phase_of z a m"] by auto
qed simp

lemma row_phase_rank:
  "phase_rank (row_phase r) \<ge> 2 \<longleftrightarrow> ie_deliveryState r \<noteq> DPending"
  "phase_ident (row_phase r) = Some (ident_of r)"
  "ie_deliveryState r \<noteq> DPending \<Longrightarrow> row_ok r \<Longrightarrow> phase_response (row_phase r) = ie_response r"
  "ie_ingestState r = IngestCompleted \<Longrightarrow> phase_rank (row_phase r) > 0"
  by (auto simp: row_phase_def Let_def row_ok_def schema_check_def split: DeliveryState.splits)

lemma phase_of_Some: "idem_row rows a m = Some r \<Longrightarrow> phase_of rows a m = row_phase r"
  by (simp add: phase_of_def)

lemma phase_ident_Some:
  "phase_ident (phase_of rows a m) = Some i \<longleftrightarrow> (\<exists>r. idem_row rows a m = Some r \<and> ident_of r = i)"
  by (auto simp: phase_of_def row_phase_rank split: option.splits)

lemma classifyExisting_not_Created: "classifyExisting e \<noteq> Created c"
  by (simp add: classifyExisting_def split: DeliveryState.split)

section \<open>Properties of the store\<close>

text \<open>
  C2. Every call of the idempotency store, in every reachable table, keeps the primary key
  unique and every row within the \<open>CHECK\<close> constraints of the schema, and moves each key by at
  most one step of the life cycle: accepted, ingested, response saved, delivery failed, sent;
  only a message whose ingest is still pending can be removed.\<close>

theorem idempotency_lifecycle:
  assumes "idem_step\<^sup>*\<^sup>* [] rows" and "idem_step rows rows'"
  shows "distinct (map idem_key rows') \<and> (\<forall>r \<in> set rows'. schema_check r) \<and>
    (phase_of rows' a m = phase_of rows a m \<or> phase_step (phase_of rows a m) (phase_of rows' a m))"
  using phase_moves_step [OF idem_reach_ok [OF assms(1)] assms(2)] by (auto simp: tbl_ok_def row_ok_def)

definition w_message :: InboundMessage where
  "w_message = \<lparr>im_messageId = ''m1'', im_conversationKey = ''room'', im_parentConversationKey = None,
     im_speaker = \<lparr>sp_id = ''u'', sp_displayName = ''User''\<rparr>, im_text = ''hi'', im_attachments = [], im_addressed = True\<rparr>"

definition w_sha :: "nat list \<Rightarrow> string" where
  "w_sha bytes = map char_of bytes"

definition w_reply :: json where
  "w_reply = JObj [(''type'', JStr ''turn.reply''), (''eventId'', JStr ''e1''),
     (''conversationKey'', JStr ''room''), (''correlationId'', JStr ''c1'')]"

definition w_accepted :: "idem_row list" where
  "w_accepted = snd (beginInbound w_sha ''c1'' ''t0'' [] ''web'' w_message None)"

definition w_saved :: "idem_row list" where
  "w_saved = snd (saveResponse ''t1'' w_accepted ''web'' ''m1'' w_reply)"

lemma w_sha_inj: "w_sha (utf8 x) = w_sha (utf8 y) \<Longrightarrow> utf8 x = utf8 y"
proof -
  have lt: "(of_char c :: nat) < 256" for c by simp
  have "192 + (of_char c :: nat) div 64 < 256" for c using lt [of c] by linarith
  then have m: "(192 + (of_char c :: nat) div 64) mod 256 = 192 + of_char c div 64" for c
    using mod_less by blast
  have "map (of_char :: char \<Rightarrow> nat) (map char_of (utf8_char c)) = utf8_char c" for c
    by (auto simp: utf8_char_def Let_def m)
  then have "map (of_char :: char \<Rightarrow> nat) (w_sha (utf8 z)) = utf8 z" for z
    unfolding w_sha_def by (induction z) (simp_all add: utf8_def)
  then show "w_sha (utf8 x) = w_sha (utf8 y) \<Longrightarrow> utf8 x = utf8 y" by metis
qed

lemma w_reply_ok: "json_ok w_reply"
  by (simp add: w_reply_def)

lemma w_accepted_run: "idem_step\<^sup>*\<^sup>* [] w_accepted"
  unfolding w_accepted_def by (rule r_into_rtranclp, rule idem_step.begin_step)

lemma w_saved_step: "idem_step w_accepted w_saved"
  unfolding w_saved_def by (rule idem_step.save_step [OF w_reply_ok])

lemma w_accepted_row: "w_accepted = [fresh_row w_sha ''c1'' ''t0'' ''web'' w_message None]"
  unfolding w_accepted_def by (simp add: beginInbound_cases w_message_def)

lemma w_saved_row: "w_saved = [save_row ''t1'' w_reply (fresh_row w_sha ''c1'' ''t0'' ''web'' w_message None)]"
  and w_saved_Inr: "fst (saveResponse ''t1'' w_accepted ''web'' ''m1'' w_reply) = Inr ()"
  unfolding w_saved_def
  by (simp_all add: saveResponse_cases [OF idem_reach_ok [OF w_accepted_run] w_reply_ok], simp_all add: w_accepted_row
     fresh_row_def idem_key_def w_message_def w_reply_def isTerminalEventType_def TERMINAL_EVENT_TYPES_def event_for_def
     sql_update_def)

theorem idempotency_lifecycle_witness:
  "phase_of w_saved ''web'' ''m1'' = phase_of w_accepted ''web'' ''m1'' \<or>
   phase_step (phase_of w_accepted ''web'' ''m1'') (phase_of w_saved ''web'' ''m1'')"
  using idempotency_lifecycle [OF w_accepted_run w_saved_step, of "''web''" "''m1''"] by blast

text \<open>
  C20. A saved terminal response is never changed or lost: whatever calls follow, the key keeps
  its conversation, correlation, payload hash and creation time and the very response text
  that was saved, its delivery state never goes back, and once sent it stays sent.\<close>

theorem saved_response_survives:
  assumes "idem_step\<^sup>*\<^sup>* [] rows" and "idem_row rows a m = Some r" and "ie_deliveryState r \<noteq> DPending"
    and "idem_step\<^sup>*\<^sup>* rows rows'"
  shows "\<exists>r'. idem_row rows' a m = Some r' \<and> ident_of r' = ident_of r \<and> ie_response r' = ie_response r \<and>
    ie_deliveryState r' \<noteq> DPending \<and> phase_rank (row_phase r) \<le> phase_rank (row_phase r') \<and>
    (ie_deliveryState r = DSent \<longrightarrow> ie_deliveryState r' = DSent)"
proof -
  have ok: "idem_ok rows" "idem_ok rows'" using assms idem_reach_ok idem_run_ok by blast+
  have rk: "phase_rank (row_phase r) \<ge> 2" using assms(3) row_phase_rank(1) by blast
  note keep = phase_run_keeps [OF assms(4) ok(1), of a m, unfolded phase_of_Some [OF assms(2)]]
  obtain r' where r': "idem_row rows' a m = Some r'" "ident_of r' = ident_of r"
    using keep rk phase_ident_Some [of rows' a m "ident_of r"] by (auto simp: row_phase_rank(2))
  have "phase_rank (row_phase r) \<le> phase_rank (row_phase r')" "phase_response (row_phase r') = phase_response (row_phase r)"
    using keep rk phase_of_Some [OF r'(1)] by auto
  moreover from this rk have "ie_deliveryState r' \<noteq> DPending" using row_phase_rank(1) [of r'] by simp
  moreover have "ie_deliveryState r = DSent \<Longrightarrow> ie_deliveryState r' = DSent"
    using \<open>phase_rank (row_phase r) \<le> phase_rank (row_phase r')\<close>
    by (auto simp: row_phase_def Let_def split: DeliveryState.splits if_splits)
  moreover have "row_ok r" "row_ok r'" using idem_row_ok ok r'(1) assms(2) by blast+
  ultimately show ?thesis using r' assms(3) by (auto simp: row_phase_rank(3))
qed

theorem saved_response_survives_witness:
  "\<exists>r'. idem_row (snd (markSent ''t2'' w_saved ''web'' ''m1'')) ''web'' ''m1'' = Some r' \<and>
     ie_response r' = Some (json_stringify w_reply)"
proof -
  have run: "idem_step\<^sup>*\<^sup>* [] w_saved" using w_accepted_run w_saved_step by (rule rtranclp.rtrancl_into_rtrancl)
  have row: "idem_row w_saved ''web'' ''m1'' = Some (save_row ''t1'' w_reply (fresh_row w_sha ''c1'' ''t0'' ''web'' w_message None))"
    unfolding w_saved_row by (simp add: fresh_row_key, simp add: w_message_def)
  have "idem_step\<^sup>*\<^sup>* w_saved (snd (markSent ''t2'' w_saved ''web'' ''m1''))"
    by (rule r_into_rtranclp, rule idem_step.sent_step)
  from saved_response_survives [OF run row _ this] show ?thesis by (auto simp: save_row_def)
qed

text \<open>
  C1. A message is run at most once. After it was accepted and its ingest completed, in every
  later table a redelivery under the same id changes nothing: the same payload is answered
  with the correlation id of the first acceptance and never as new, a different payload is
  refused. Different payloads are assumed not to collide under the digest.\<close>

theorem accepted_message_runs_once:
  assumes "idem_step\<^sup>*\<^sup>* [] rows"
    and "beginInbound sha256 uuid ts rows a message c = (Inr (Created cid), rows1)"
    and "idem_step\<^sup>*\<^sup>* (snd (markIngestComplete ts' rows1 a (im_messageId message))) rows2"
    and "im_messageId message' = im_messageId message"
    and "sha256 (utf8 (json_stringify (canonicalize (inbound_json message')))) =
         sha256 (utf8 (json_stringify (canonicalize (inbound_json message)))) \<Longrightarrow>
         utf8 (json_stringify (canonicalize (inbound_json message'))) = utf8 (json_stringify (canonicalize (inbound_json message)))"
    and "c' \<noteq> Some []"
  shows "\<exists>result. beginInbound sha256 uuid' ts'' rows2 a message' c' = (result, rows2) \<and>
    (if message' = message
     then (\<exists>ev err. result \<in> {Inr (BPending cid), Inr (ResponseSaved cid ev), Inr (AlreadySent cid), Inr (DeliveryFailed cid ev err)})
     else result = Inl (IdempotencyConflict a (im_messageId message) (canonicalPayloadHash sha256 message') (canonicalPayloadHash sha256 message)))"
proof -
  let ?id = "im_messageId message" and ?r = "fresh_row sha256 uuid ts a message c"
  have ok: "idem_ok rows" using assms(1) by (rule idem_reach_ok)
  have ne: "a \<noteq> []" "?id \<noteq> []" and new: "rows1 = rows @ [?r]" "ie_correlationId ?r = cid" "idem_row rows a ?id = None"
    using assms(2) by (auto simp: beginInbound_cases [OF ok] fresh_row_def classifyExisting_not_Created split: if_splits option.splits)
  have ok1: "idem_ok rows1" unfolding new(1) using new(3) by (intro tbl_ok_insert [OF ok fresh_row_ok]) (simp add: fresh_row_key)
  let ?r1 = "?r\<lparr>ie_ingestState := IngestCompleted, ie_updatedAt := ts'\<rparr>"
  have "idem_row rows1 a ?id = Some ?r"
    unfolding new(1) using new(3) row_at_insert [of idem_key rows ?r "(a, ?id)"] by (simp add: fresh_row_key)
  then have row1: "idem_row (snd (markIngestComplete ts' rows1 a ?id)) a ?id = Some ?r1"
    by (simp add: markIngestComplete_cases [OF ok1] ing.cas_row fresh_row_def)
  have ok2: "idem_ok (snd (markIngestComplete ts' rows1 a ?id))"
    using phase_moves_step [OF ok1 idem_step.ingest_step] by blast
  have "phase_ident (phase_of rows2 a ?id) = Some (ident_of ?r1)"
    using phase_run_keeps [OF assms(3) ok2, of a ?id] row1 by (simp add: phase_of_def row_phase_rank)
  then obtain r2 where r2: "idem_row rows2 a ?id = Some r2" "ident_of r2 = ident_of ?r1"
    using phase_ident_Some by blast
  then have r2': "ie_correlationId r2 = cid" "ie_payloadHash r2 = canonicalPayloadHash sha256 message"
    using new(2) by (auto simp: ident_of_def fresh_row_def)
  have "canonicalPayloadHash sha256 message' = canonicalPayloadHash sha256 message \<longleftrightarrow> message' = message"
    using assms(5) utf8_inj json_stringify_inj canonicalize_inbound_inj
    by (metis canonicalPayloadHash_def json_ok_canonicalize json_ok_inbound)
  then show ?thesis using r2 r2' ne assms(4,6) idem_run_ok [OF assms(3) ok2]
    by (cases "ie_deliveryState r2") (auto simp: beginInbound_cases classifyExisting_def)
qed

theorem accepted_message_runs_once_witness:
  "fst (beginInbound w_sha ''c2'' ''t9'' (snd (markIngestComplete ''t1'' w_accepted ''web'' ''m1'')) ''web'' (w_message\<lparr>im_text := ''other''\<rparr>) None)
     = Inl (IdempotencyConflict ''web'' ''m1'' (canonicalPayloadHash w_sha (w_message\<lparr>im_text := ''other''\<rparr>)) (canonicalPayloadHash w_sha w_message))"
proof -
  have b: "beginInbound w_sha ''c1'' ''t0'' [] ''web'' w_message None = (Inr (Created ''c1''), w_accepted)"
    unfolding w_accepted_row by (simp add: beginInbound_cases w_message_def)
  have id: "im_messageId w_message = ''m1''" "im_messageId (w_message\<lparr>im_text := ''other''\<rparr>) = im_messageId w_message"
    "w_message\<lparr>im_text := ''other''\<rparr> \<noteq> w_message"
    by (simp_all add: w_message_def)
  show ?thesis
    using accepted_message_runs_once [OF rtranclp.rtrancl_refl b rtranclp.rtrancl_refl id(2) w_sha_inj, of None "''c2''" "''t9''" "''t1''"] id by auto
qed

text \<open>The recovery laws, one by one.\<close>

lemma recovery_laws:
  assumes run: "idem_step\<^sup>*\<^sup>* [] rows" and ev: "json_ok event"
    and save: "saveResponse ts rows a m event = (Inr (), rows1)"
  shows "getSavedResponse rows1 a m = Inr (Some event)"
    and "\<exists>entries e. listSavedResponses rows1 = Inr entries \<and> e \<in> set entries \<and>
      ie_adapterId e = a \<and> ie_messageId e = m \<and> ie_response e = Some event"
    and "fst (markFailed ts1 rows1 a m err) = Inr ()"
    and "getSavedResponse (snd (markFailed ts1 rows1 a m err)) a m = Inr (Some event)"
    and "fst (markSent ts2 (snd (markFailed ts1 rows1 a m err)) a m) = Inr ()"
    and "fst (markSent ts2 rows1 a m) = Inr ()"
    and "getSavedResponse (snd (markSent ts2 rows1 a m)) a m = Inr None"
    and "\<exists>e. markSent ts3 (snd (markSent ts2 rows1 a m)) a m = (Inl e, snd (markSent ts2 rows1 a m))"
proof -
  have ok: "idem_ok rows" using run by (rule idem_reach_ok)
  have ok1: "idem_ok rows1"
    using phase_moves_step [OF ok idem_step.save_step [OF ev, of rows ts a m]] save by simp
  obtain r where r: "idem_row rows a m = Some r" "event_for event r" "ie_deliveryState r = DPending"
    and rows1: "rows1 = fst (sql_update (\<lambda>r. idem_key r = (a, m) \<and> ie_deliveryState r = DPending \<and> event_for event r) (save_row ts event) rows)"
    using save ev by (auto simp: saveResponse_cases [OF ok ev] event_for_def split: if_splits option.splits)
  let ?s = "save_row ts event r"
  have s: "idem_row rows1 a m = Some ?s" unfolding rows1 using r by (simp add: sav.cas_row)
  have sel: "ie_deliveryState ?s = DSaved" "ie_response ?s = Some (json_stringify event)" "unsent ?s"
    by (simp_all add: save_row_def unsent_def)
  show "getSavedResponse rows1 a m = Inr (Some event)"
    using s sel by (simp add: getSavedResponse_def idem_getRaw_ok [OF ok1] json_parse_stringify ev)
  have "result_mapM rowToEntry (sort_key ie_createdAt (sort_key ie_adapterId (sort_key ie_correlationId (sort_key ie_messageId
          (filter (\<lambda>r. ie_deliveryState r = DSaved) rows1))))) = Inr (map entry_of (sort_key ie_createdAt (sort_key ie_adapterId (sort_key ie_correlationId (sort_key ie_messageId
          (filter (\<lambda>r. ie_deliveryState r = DSaved) rows1))))))"
    using ok1 by (intro result_mapM_ok) (auto simp: tbl_ok_def)
  moreover have "?s \<in> set rows1" using s row_at_SomeD by metis
  moreover have "ie_adapterId (entry_of ?s) = a" "ie_messageId (entry_of ?s) = m" "ie_response (entry_of ?s) = Some event"
    using sel idem_row_ok [OF ok1 s] by (simp_all add: json_parse_stringify ev)
  ultimately show "\<exists>entries e. listSavedResponses rows1 = Inr entries \<and> e \<in> set entries \<and>
      ie_adapterId e = a \<and> ie_messageId e = m \<and> ie_response e = Some event"
    unfolding listSavedResponses_def using sel(1) by auto
  let ?f = "failed_row ts1 err ?s" and ?rf = "snd (markFailed ts1 rows1 a m err)"
  show "fst (markFailed ts1 rows1 a m err) = Inr ()" using s sel by (simp add: markFailed_cases [OF ok1])
  have okf: "idem_ok ?rf" using phase_moves_step [OF ok1 idem_step.failed_step] by blast
  have f: "idem_row ?rf a m = Some ?f" using s sel by (simp add: markFailed_cases [OF ok1] fld.cas_row)
  show "getSavedResponse ?rf a m = Inr (Some event)"
    using f sel by (simp add: getSavedResponse_def idem_getRaw_ok [OF okf] failed_row_def json_parse_stringify ev)
  show "fst (markSent ts2 ?rf a m) = Inr ()"
    using f by (simp add: markSent_cases [OF okf] unsent_def, simp add: failed_row_def)
  let ?rs = "snd (markSent ts2 rows1 a m)"
  show "fst (markSent ts2 rows1 a m) = Inr ()" using s sel by (simp add: markSent_cases [OF ok1])
  have oks: "idem_ok ?rs" using phase_moves_step [OF ok1 idem_step.sent_step] by blast
  have t: "idem_row ?rs a m = Some (sent_row ts2 ?s)" using s sel by (simp add: markSent_cases [OF ok1] snt.cas_row)
  show "getSavedResponse ?rs a m = Inr None"
    using t by (simp add: getSavedResponse_def idem_getRaw_ok [OF oks] sent_row_def)
  show "\<exists>e. markSent ts3 ?rs a m = (Inl e, ?rs)"
    using t by (simp add: markSent_cases [OF oks] unsent_def, simp add: sent_row_def)
qed

text \<open>
  C19. Crash recovery of a terminal response. Once \<open>saveResponse\<close> has returned, the table that
  a restarted process opens gives back exactly that event, from \<open>getSavedResponse\<close> and from
  the recovery list; a recorded delivery failure keeps it; after \<open>markSent\<close> it is no longer
  offered and a second confirmation is refused.\<close>

theorem saved_response_recovered:
  assumes run: "idem_step\<^sup>*\<^sup>* [] rows" and ev: "json_ok event"
    and save: "saveResponse ts rows a m event = (Inr (), rows1)"
  shows "(getSavedResponse rows1 a m = Inr (Some event)) \<and>
    (\<exists>entries e. listSavedResponses rows1 = Inr entries \<and> e \<in> set entries \<and>
      ie_adapterId e = a \<and> ie_messageId e = m \<and> ie_response e = Some event) \<and>
    (fst (markFailed ts1 rows1 a m err) = Inr ()) \<and>
    (getSavedResponse (snd (markFailed ts1 rows1 a m err)) a m = Inr (Some event)) \<and>
    (fst (markSent ts2 (snd (markFailed ts1 rows1 a m err)) a m) = Inr ()) \<and>
    (fst (markSent ts2 rows1 a m) = Inr ()) \<and>
    (getSavedResponse (snd (markSent ts2 rows1 a m)) a m = Inr None) \<and>
    (\<exists>e. markSent ts3 (snd (markSent ts2 rows1 a m)) a m = (Inl e, snd (markSent ts2 rows1 a m)))"
  by (intro conjI recovery_laws [OF assms])

theorem saved_response_recovered_witness:
  "getSavedResponse w_saved ''web'' ''m1'' = Inr (Some w_reply)"
proof -
  have "saveResponse ''t1'' w_accepted ''web'' ''m1'' w_reply = (Inr (), w_saved)"
    using w_saved_Inr by (simp add: w_saved_def prod_eq_iff)
  from saved_response_recovered [OF w_accepted_run w_reply_ok this] show ?thesis by blast
qed

text \<open>
  Saving the terminal response of a correlation is all or nothing over the rows that share
  it: on success every one of them carries the event's id and a delivery state beyond pending,
  and rows outside the correlation or already answered are as before; on an error the table
  is unchanged. With one writer the change count always agrees.\<close>

theorem saveResponseForCorrelation_atomic:
  assumes run: "idem_step\<^sup>*\<^sup>* [] rows" and ev: "json_ok event"
  shows "case saveResponseForCorrelation ts rows a c event of
      (Inl e, rows') \<Rightarrow> rows' = rows \<and> e \<noteq> CorrelationChanged c
    | (Inr _, rows') \<Rightarrow>
        (\<exists>r \<in> set rows. of_corr a c r) \<and>
        rows' = map (\<lambda>r. if of_corr a c r \<and> ie_deliveryState r = DPending then save_row ts event r else r) rows \<and>
        (\<forall>r \<in> set rows'. of_corr a c r \<longrightarrow> ie_deliveryState r \<noteq> DPending \<and> ie_ingestState r = IngestCompleted \<and>
           response_event_id (entry_of r) = jget ''eventId'' event)"
proof -
  have ok: "idem_ok rows" using run by (rule idem_reach_ok)
  have err: "count_pending a event es n = Inl e \<Longrightarrow> e \<noteq> CorrelationChanged c" for es n e
    by (induction es arbitrary: n) (auto split: if_splits)
  show ?thesis
  proof (cases "fst (saveResponseForCorrelation ts rows a c event)")
    case (Inl e)
    then show ?thesis
      by (auto simp: saveResponseForCorrelation_cases [OF ok ev] dest: err split: if_splits sum.splits)
  next
    case (Inr u)
    let ?Q = "\<lambda>r. of_corr a c r \<and> ie_deliveryState r = DPending \<and> event_for event r"
    from Inr obtain n where n: "count_pending a event (map entry_of (corr_rows rows a c)) 0 = Inr n"
      and ne: "corr_rows rows a c \<noteq> []" and t: "isTerminalEventType (jget ''type'' event)" "jget ''correlationId'' event = Some (JStr c)"
      and sv: "saveResponseForCorrelation ts rows a c event = (Inr (), fst (sql_update ?Q (save_row ts event) rows))"
      by (auto simp: saveResponseForCorrelation_cases [OF ok ev] split: if_splits sum.splits)
    have checked: "event_for event r \<and> (ie_deliveryState r = DPending \<or> response_event_id (entry_of r) = jget ''eventId'' event)"
      if "r \<in> set rows" "of_corr a c r" for r
      using n t that ev by (auto simp: count_pending_Inr_iff event_for_def)
    then have upd: "fst (sql_update ?Q (save_row ts event) rows) =
        map (\<lambda>r. if of_corr a c r \<and> ie_deliveryState r = DPending then save_row ts event r else r) rows"
      by (auto simp: sql_update_def)
    have "\<exists>r \<in> set rows. of_corr a c r" using ne set_corr_rows [of rows a c] by (metis (mono_tags, lifting) list.set_intros(1) list.exhaust mem_Collect_eq)
    moreover have "ie_ingestState r = IngestCompleted" if "r \<in> set rows" "ie_deliveryState r \<noteq> DPending" for r
      using ok that by (auto simp: tbl_ok_def row_ok_def)
    moreover have "response_event_id (entry_of (save_row ts event r)) = jget ''eventId'' event" for r
      by (simp add: response_event_id_def save_row_def json_parse_stringify ev)
    ultimately show ?thesis unfolding sv upd using checked by (auto simp: save_row_def split: if_splits)
  qed
qed

theorem saveResponseForCorrelation_atomic_witness:
  "set (filter (of_corr ''web'' ''c1'') (snd (saveResponseForCorrelation ''t1'' w_accepted ''web'' ''c1'' w_reply)))
     \<subseteq> {r. ie_deliveryState r \<noteq> DPending}"
proof -
  have "fst (saveResponseForCorrelation ''t1'' w_accepted ''web'' ''c1'' w_reply) = Inr ()"
    by (simp add: saveResponseForCorrelation_cases [OF idem_reach_ok [OF w_accepted_run] w_reply_ok],
      simp add: w_accepted_row corr_rows_def fresh_row_def w_message_def w_reply_def isTerminalEventType_def TERMINAL_EVENT_TYPES_def)
  then obtain rows' where e: "saveResponseForCorrelation ''t1'' w_accepted ''web'' ''c1'' w_reply = (Inr (), rows')"
    by (metis prod.collapse)
  show ?thesis
    using saveResponseForCorrelation_atomic [OF w_accepted_run w_reply_ok, where ts = "''t1''" and a = "''web''" and c = "''c1''"]
    unfolding e prod.case sum.case snd_conv by (simp only: set_filter) blast
qed

text \<open>
  Confirming the delivery of a correlation: it succeeds exactly when every row of the
  correlation carries the event's id and a response; then all of them are sent, and repeating
  the confirmation succeeds and changes nothing. Otherwise the table is unchanged.\<close>

theorem markCorrelationSent_idempotent:
  assumes run: "idem_step\<^sup>*\<^sup>* [] rows"
  shows "case markCorrelationSent ts rows a c eventId of
      (Inl e, rows') \<Rightarrow> rows' = rows \<and>
        (\<exists>r \<in> set rows. of_corr a c r \<and> (response_event_id (entry_of r) \<noteq> Some (JStr eventId) \<or> ie_deliveryState r = DPending))
    | (Inr _, rows') \<Rightarrow>
        (\<forall>r \<in> set rows'. of_corr a c r \<longrightarrow> ie_deliveryState r = DSent \<and> response_event_id (entry_of r) = Some (JStr eventId)) \<and>
        filter (\<lambda>r. \<not> of_corr a c r) rows' = filter (\<lambda>r. \<not> of_corr a c r) rows \<and>
        markCorrelationSent ts' rows' a c eventId = (Inr (), rows')"
proof -
  have ok: "idem_ok rows" using run by (rule idem_reach_ok)
  let ?chk = "\<lambda>rs. count_state (CannotConfirmDelivery a) (\<lambda>d. d \<noteq> DSent) eventId (map entry_of (corr_rows rs a c)) 0"
  let ?upd = "\<lambda>ts rs. fst (sql_update (\<lambda>r. of_corr a c r \<and> unsent r) (sent_row ts) rs)"
  show ?thesis
  proof (cases "?chk rows")
    case (Inl e)
    then have "\<not> (\<exists>k. ?chk rows = Inr k)" by simp
    then have "\<exists>r \<in> set rows. of_corr a c r \<and> (response_event_id (entry_of r) \<noteq> Some (JStr eventId) \<or> ie_deliveryState r = DPending)"
      by (auto simp: count_state_Inr_iff)
    then show ?thesis using Inl by (simp add: markCorrelationSent_cases [OF ok])
  next
    case (Inr n)
    have corr: "of_corr a c (sent_row ts r) \<longleftrightarrow> of_corr a c r" for r by (simp add: sent_row_def)
    have eid: "response_event_id (entry_of (sent_row ts r)) = response_event_id (entry_of r)" for r
      by (simp add: sent_row_def response_event_id_def)
    have all: "\<forall>r \<in> set (?upd ts rows). of_corr a c r \<longrightarrow> ie_deliveryState r = DSent \<and> response_event_id (entry_of r) = Some (JStr eventId)"
    proof
      fix r assume "r \<in> set (?upd ts rows)"
      then obtain q where q: "q \<in> set rows" "r = (if of_corr a c q \<and> unsent q then sent_row ts q else q)"
        by (auto simp: sql_update_def)
      have "of_corr a c q \<Longrightarrow> response_event_id (entry_of q) = Some (JStr eventId) \<and> (unsent q \<longleftrightarrow> ie_deliveryState q \<noteq> DSent)"
        using Inr q(1) unsent_iff [of q] by (auto simp: count_state_Inr_iff)
      then show "of_corr a c r \<longrightarrow> ie_deliveryState r = DSent \<and> response_event_id (entry_of r) = Some (JStr eventId)"
        unfolding q(2) by (simp add: eid corr) (simp add: sent_row_def)
    qed
    have frame: "filter (\<lambda>r. \<not> of_corr a c r) (?upd ts rows) = filter (\<lambda>r. \<not> of_corr a c r) rows"
      unfolding sql_update_def by (induction rows) (auto simp: corr)
    have ok': "idem_ok (?upd ts rows)" by (rule csnt.tbl_ok_update [OF ok])
    have "\<not> (of_corr a c r \<and> unsent r)" if "r \<in> set (?upd ts rows)" for r
    proof -
      have "of_corr a c r \<Longrightarrow> ie_deliveryState r = DSent" using bspec [OF all that] by blast
      then show ?thesis by (auto simp: unsent_def)
    qed
    then have again: "?upd ts' (?upd ts rows) = ?upd ts rows"
      by (rule sql_update_none_guard)
    obtain k where k: "?chk (?upd ts rows) = Inr k" using all by (auto simp: count_state_Inr_iff)
    have "markCorrelationSent ts' (?upd ts rows) a c eventId = (Inr (), ?upd ts rows)"
      unfolding markCorrelationSent_cases [OF ok'] k sum.case again ..
    then show ?thesis using Inr all frame by (simp add: markCorrelationSent_cases [OF ok])
  qed
qed

theorem markCorrelationSent_idempotent_witness:
  "set (filter (of_corr ''web'' ''c1'') (snd (markCorrelationSent ''t2'' w_saved ''web'' ''c1'' ''e1''))) \<subseteq> {r. ie_deliveryState r = DSent}"
proof -
  have run: "idem_step\<^sup>*\<^sup>* [] w_saved" using w_accepted_run w_saved_step by (rule rtranclp.rtrancl_into_rtrancl)
  have "response_event_id (entry_of r) = Some (JStr ''e1'') \<and> ie_deliveryState r \<noteq> DPending" if "r \<in> set w_saved" for r
    using that by (simp add: w_saved_row response_event_id_def save_row_def json_parse_stringify w_reply_ok, simp add: w_reply_def)
  then show ?thesis
    using markCorrelationSent_idempotent [OF run, where ts = "''t2''" and a = "''web''" and c = "''c1''" and eventId = "''e1''" and ts' = "''t2''"]
    by (cases "markCorrelationSent ''t2'' w_saved ''web'' ''c1'' ''e1''" rule: result_pair_cases)
      (simp_all only: prod.case sum.case snd_conv set_filter, blast+)
qed

text \<open>
  C21. Two processes on one database. Whatever another process did between the read and the
  insert of \<open>beginInbound\<close>, the call answers \<open>created\<close> only when it inserted the one row of
  its key, leaves every other row alone, and answers a replay only when a row of the key with
  this payload hash was there at the read or at the insert.\<close>

theorem beginInbound_race_safe:
  assumes "idem_step\<^sup>*\<^sup>* [] rows" and "idem_step\<^sup>*\<^sup>* rows rows'"
    and "beginInbound_race sha256 uuid ts rows rows' a message c = (result, rows'')"
  shows "distinct (map idem_key rows'') \<and>
    (case result of
       Inr (Created cid) \<Rightarrow> idem_row rows' a (im_messageId message) = None \<and>
         rows'' = rows' @ [fresh_row sha256 uuid ts a message c] \<and> cid = (case c of Some c \<Rightarrow> c | None \<Rightarrow> uuid)
     | Inr replay \<Rightarrow> rows'' = rows' \<and> (\<exists>t \<in> {rows, rows'}. \<exists>r. idem_row t a (im_messageId message) = Some r \<and>
         ie_payloadHash r = canonicalPayloadHash sha256 message \<and> replay = classifyExisting (entry_of r))
     | Inl e \<Rightarrow> rows'' = rows' \<and> e \<noteq> InsertFailed \<and> e \<noteq> CorruptPayload)"
proof -
  let ?id = "im_messageId message" and ?r = "fresh_row sha256 uuid ts a message c"
  have ok: "idem_ok rows" "idem_ok rows'" using assms idem_reach_ok idem_run_ok by blast+
  have ins: "sql_insert idem_key ?r rows' = (if idem_row rows' a ?id = None then Some (rows' @ [?r]) else None)"
    by (auto simp: sql_insert_def row_at_None_iff fresh_row_key)
  have dist: "distinct (map idem_key rows')" using ok(2) by (simp add: tbl_ok_def)
  have dist2: "idem_row rows' a ?id = None \<Longrightarrow> distinct (map idem_key (rows' @ [?r]))"
    using dist by (auto simp: row_at_None_iff fresh_row_key)
  have nc: "classifyExisting e = Created x \<longleftrightarrow> False" for e x by (simp add: classifyExisting_not_Created)
  show ?thesis using assms(3) ins dist dist2
    by (cases "idem_row rows a ?id"; cases "idem_row rows' a ?id")
      (auto simp: beginInbound_race_def Let_def idem_getRaw_ok [OF ok(1)] idem_getRaw_ok [OF ok(2)] fresh_row_def [symmetric] nc
        split: if_splits BeginInboundResult.splits)
qed

theorem beginInbound_race_safe_witness:
  "beginInbound_race w_sha ''c2'' ''t5'' [] w_accepted ''web'' w_message None = (Inr (BPending ''c1''), w_accepted) \<and>
   (\<exists>r. idem_row w_accepted ''web'' ''m1'' = Some r \<and> ie_payloadHash r = canonicalPayloadHash w_sha w_message)"
proof -
  have ok: "idem_ok w_accepted" by (rule idem_reach_ok [OF w_accepted_run])
  have id: "im_messageId w_message = ''m1''" by (simp add: w_message_def)
  have row: "idem_row w_accepted ''web'' ''m1'' = Some (fresh_row w_sha ''c1'' ''t0'' ''web'' w_message None)"
    by (simp add: w_accepted_row fresh_row_key id)
  have ins: "sql_insert idem_key r w_accepted = (if idem_key r = (''web'', ''m1'') then None else Some (w_accepted @ [r]))" for r
    by (auto simp: sql_insert_def w_accepted_row fresh_row_key id)
  have fr: "idem_key \<lparr>ie_adapterId = a, ie_messageId = m, ie_conversationKey = k, ie_correlationId = c, ie_payloadHash = h,
      ie_ingestState = i, ie_deliveryState = d, ie_response = p, ie_errorText = t, ie_createdAt = x, ie_updatedAt = y\<rparr> = (a, m)"
    for a m k c h i d p t x y by (simp add: idem_key_def)
  have e: "beginInbound_race w_sha ''c2'' ''t5'' [] w_accepted ''web'' w_message None = (Inr (BPending ''c1''), w_accepted)"
    using row ins fr by (simp add: beginInbound_race_def Let_def idem_getRaw_ok [OF ok] idem_getRaw_def [of "[]"] id
       fresh_row_def classifyExisting_def)
  from beginInbound_race_safe [OF rtranclp.rtrancl_refl w_accepted_run this] e show ?thesis
    by (auto simp: w_message_def)
qed

end
