(* ===== verification/Ingest_Buffer.thy ===== *)
theory Ingest_Buffer
  imports Contracts Adapter_Registry
begin

text \<open>
  \<open>packages/core/src/ingest-buffer.ts\<close>: the per-conversation buffer that decides, for each
  arriving message, whether the agent takes a turn. The state is the \<open>states\<close> map of the
  class; every operation takes the reading of the injected clock as an argument (epoch
  milliseconds). The options are the two durations the constructor has checked.
\<close>

section \<open>Data\<close>

text \<open>What \<open>typeof\<close> and \<open>Number.isFinite\<close> tell of an option.\<close>

datatype num_option = NotANumber | NotFinite | FiniteNumber int

record IngestBufferOptions =
  ib_engagementWindowMs :: int
  ib_quietPeriodMs :: int

datatype ingest_buffer_error =
    OptionsRequired
  | EngagementWindowInvalid
  | QuietPeriodInvalid
  | ClockRequired

datatype ActivationMode = Prompt | Steer | FollowUp

record BufferedRecord =
  br_adapterId :: string
  br_conversationKey :: string
  br_messageId :: string
  br_speaker :: Speaker
  br_text :: string
  br_attachments :: "WorkspaceAttachment list"
  br_addressed :: bool
  br_receivedAt :: int

datatype IngestResult =
    Buffered BufferedRecord nat
  | Activate ActivationMode "BufferedRecord list" string

record ConversationStatus =
  cs_active :: bool
  cs_backlogDepth :: nat
  cs_windowDeadline :: "int option"

record SettledActivation =
  sa_adapterId :: string
  sa_conversationKey :: string
  sa_records :: "BufferedRecord list"
  sa_prompt :: string

record ConversationState =
  st_backlog :: "BufferedRecord list"
  st_windowDeadline :: "int option"
  st_lastArrivalAt :: int

type_synonym buffer_states = "(string, ConversationState) js_map"

section \<open>Rendering\<close>

text \<open>A template part that is left out when the property is missing or empty.\<close>

definition bracketed :: "string \<Rightarrow> string option \<Rightarrow> string" where
  "bracketed label v = (case v of None \<Rightarrow> [] | Some s \<Rightarrow> if s = [] then [] else '' ['' @ label @ '': '' @ s @ '']'')"

definition renderRecord :: "BufferedRecord \<Rightarrow> string" where
  "renderRecord r =
     js_join [CHR 0x0A]
       ([sp_displayName (br_speaker r) @ '' (id: '' @ sp_id (br_speaker r) @ '')'']
        @ (if br_text r \<noteq> [] then [br_text r] else [])
        @ map (\<lambda>a. ''  - '' @ wa_path a @ bracketed ''name'' (wa_name a) @ bracketed ''mediaType'' (wa_mediaType a))
            (br_attachments r))"

definition renderPrompt :: "BufferedRecord list \<Rightarrow> string" where
  "renderPrompt records = js_join [CHR 0x0A, CHR 0x0A] (map renderRecord records)"

section \<open>Operations\<close>

text \<open>\<open>options\<close> is \<open>None\<close> for a value that is not an object; \<open>clock\<close> tells whether \<open>now\<close> is a function.\<close>

definition newIngestBuffer :: "(num_option \<times> num_option \<times> bool) option
    \<Rightarrow> (ingest_buffer_error, IngestBufferOptions \<times> buffer_states) result" where
  "newIngestBuffer options =
     (case options of
        None \<Rightarrow> Inl OptionsRequired
      | Some (engagementWindowMs, quietPeriodMs, clock) \<Rightarrow>
          (case engagementWindowMs of
             FiniteNumber w \<Rightarrow>
               if w \<le> 0 then Inl EngagementWindowInvalid
               else (case quietPeriodMs of
                 FiniteNumber q \<Rightarrow>
                   if q < 0 then Inl QuietPeriodInvalid
                   else if \<not> clock then Inl ClockRequired
                   else Inr (\<lparr>ib_engagementWindowMs = w, ib_quietPeriodMs = q\<rparr>, [])
               | _ \<Rightarrow> Inl QuietPeriodInvalid)
           | _ \<Rightarrow> Inl EngagementWindowInvalid))"

definition isActive :: "ConversationState \<Rightarrow> int \<Rightarrow> bool" where
  "isActive state now = (case st_windowDeadline state of None \<Rightarrow> False | Some d \<Rightarrow> now < d)"

definition toRecord :: "string \<Rightarrow> InboundMessage \<Rightarrow> int \<Rightarrow> BufferedRecord" where
  "toRecord adapterId message receivedAt =
     \<lparr>br_adapterId = adapterId, br_conversationKey = im_conversationKey message,
      br_messageId = im_messageId message,
      br_speaker = \<lparr>sp_id = sp_id (im_speaker message), sp_displayName = sp_displayName (im_speaker message)\<rparr>,
      br_text = im_text message,
      br_attachments = map (\<lambda>a. \<lparr>wa_path = wa_path a, wa_name = wa_name a, wa_mediaType = wa_mediaType a\<rparr>) (im_attachments message),
      br_addressed = im_addressed message, br_receivedAt = receivedAt\<rparr>"

definition stateFor :: "buffer_states \<Rightarrow> string \<Rightarrow> ConversationState" where
  "stateFor states key =
     (case map_get states key of
        Some existing \<Rightarrow> existing
      | None \<Rightarrow> \<lparr>st_backlog = [], st_windowDeadline = None, st_lastArrivalAt = 0\<rparr>)"

definition ingest :: "IngestBufferOptions \<Rightarrow> buffer_states \<Rightarrow> int \<Rightarrow> string \<Rightarrow> InboundMessage \<Rightarrow> bool
    \<Rightarrow> IngestResult \<times> buffer_states" where
  "ingest cfg states now adapterId message streaming =
     (let key = conversationStorageKey adapterId (im_conversationKey message);
          receivedAt = now;
          record = toRecord adapterId message receivedAt;
          state0 = stateFor states key;
          sinceLastArrival = receivedAt - st_lastArrivalAt state0;
          state = state0\<lparr>st_lastArrivalAt := receivedAt\<rparr>
      in if im_addressed message
         then let records = st_backlog state @ [record];
                  state' = state\<lparr>st_windowDeadline := Some (receivedAt + ib_engagementWindowMs cfg), st_backlog := []\<rparr>
              in (Activate (if streaming then Steer else Prompt) records (renderPrompt records), map_set states key state')
         else if isActive state receivedAt
         then if ib_quietPeriodMs cfg > 0 \<and> sinceLastArrival < ib_quietPeriodMs cfg
              then let state' = state\<lparr>st_backlog := st_backlog state @ [record]\<rparr>
                   in (Buffered record (length (st_backlog state')), map_set states key state')
              else let records = st_backlog state @ [record];
                       state' = state\<lparr>st_windowDeadline := Some (receivedAt + ib_engagementWindowMs cfg), st_backlog := []\<rparr>
                   in (Activate (if streaming then FollowUp else Prompt) records (renderPrompt records), map_set states key state')
         else let state' = state\<lparr>st_windowDeadline := None, st_backlog := st_backlog state @ [record]\<rparr>
              in (Buffered record (length (st_backlog state')), map_set states key state'))"

text \<open>The guards of the sweep's loop, as the condition under which a conversation is due.\<close>

definition sweep_due :: "IngestBufferOptions \<Rightarrow> int \<Rightarrow> ConversationState \<Rightarrow> bool" where
  "sweep_due cfg now state \<longleftrightarrow>
     \<not> (length (st_backlog state) = 0) \<and> \<not> (now - st_lastArrivalAt state < ib_quietPeriodMs cfg) \<and> isActive state now"

fun sweep_loop :: "IngestBufferOptions \<Rightarrow> int \<Rightarrow> buffer_states \<Rightarrow> SettledActivation list \<times> buffer_states" where
  "sweep_loop cfg now [] = ([], [])"
| "sweep_loop cfg now ((key, state) # rest) =
     (let (due, rest') = sweep_loop cfg now rest
      in if sweep_due cfg now state
         then (\<lparr>sa_adapterId = br_adapterId (hd (st_backlog state)), sa_conversationKey = br_conversationKey (hd (st_backlog state)),
                 sa_records = st_backlog state, sa_prompt = renderPrompt (st_backlog state)\<rparr> # due,
               (key, state\<lparr>st_backlog := [], st_windowDeadline := Some (now + ib_engagementWindowMs cfg)\<rparr>) # rest')
         else (due, (key, state) # rest'))"

definition sweepSettled :: "IngestBufferOptions \<Rightarrow> buffer_states \<Rightarrow> int \<Rightarrow> SettledActivation list \<times> buffer_states" where
  "sweepSettled cfg states now =
     (if ib_quietPeriodMs cfg \<le> 0 then ([], states) else sweep_loop cfg now states)"

definition dismiss :: "buffer_states \<Rightarrow> int \<Rightarrow> string \<Rightarrow> string \<Rightarrow> bool \<times> buffer_states" where
  "dismiss states now adapterId conversationKey =
     (let key = conversationStorageKey adapterId conversationKey
      in case map_get states key of
           None \<Rightarrow> (False, states)
         | Some state \<Rightarrow>
             if st_windowDeadline state = None then (False, states)
             else if \<not> isActive state now then (False, map_set states key (state\<lparr>st_windowDeadline := None\<rparr>))
             else (True, map_set states key (state\<lparr>st_windowDeadline := None\<rparr>)))"

definition recordInteraction :: "IngestBufferOptions \<Rightarrow> buffer_states \<Rightarrow> int \<Rightarrow> string \<Rightarrow> string \<Rightarrow> bool \<times> buffer_states" where
  "recordInteraction cfg states now adapterId conversationKey =
     (let key = conversationStorageKey adapterId conversationKey
      in case map_get states key of
           None \<Rightarrow> (False, states)
         | Some state \<Rightarrow>
             if \<not> isActive state now then (False, states)
             else (True, map_set states key (state\<lparr>st_windowDeadline := Some (now + ib_engagementWindowMs cfg)\<rparr>)))"

definition inspect :: "buffer_states \<Rightarrow> int \<Rightarrow> string \<Rightarrow> string \<Rightarrow> ConversationStatus \<times> buffer_states" where
  "inspect states now adapterId conversationKey =
     (let key = conversationStorageKey adapterId conversationKey
      in case map_get states key of
           None \<Rightarrow> (\<lparr>cs_active = False, cs_backlogDepth = 0, cs_windowDeadline = None\<rparr>, states)
         | Some state \<Rightarrow>
             let active = isActive state now;
                 state' = (if \<not> active \<and> st_windowDeadline state \<noteq> None then state\<lparr>st_windowDeadline := None\<rparr> else state);
                 states' = (if \<not> active \<and> st_windowDeadline state \<noteq> None then map_set states key state' else states)
             in (\<lparr>cs_active = active, cs_backlogDepth = length (st_backlog state'),
                  cs_windowDeadline = (if active then st_windowDeadline state' else None)\<rparr>, states'))"

section \<open>Runs of the buffer\<close>

datatype buffer_op =
    OIngest string InboundMessage bool
  | OSweep
  | ODismiss string string
  | OInteraction string string
  | OInspect string string

text \<open>
  One call at a clock reading, with the batches of records it releases to the supervisor.
\<close>

fun buffer_do :: "IngestBufferOptions \<Rightarrow> int \<times> buffer_op \<Rightarrow> buffer_states \<Rightarrow> BufferedRecord list list \<times> buffer_states" where
  "buffer_do cfg (now, OIngest a m s) states =
     (case ingest cfg states now a m s of
        (Activate mode records prompt, states') \<Rightarrow> ([records], states')
      | (Buffered record depth, states') \<Rightarrow> ([], states'))"
| "buffer_do cfg (now, OSweep) states = (case sweepSettled cfg states now of (due, states') \<Rightarrow> (map sa_records due, states'))"
| "buffer_do cfg (now, ODismiss a k) states = ([], snd (dismiss states now a k))"
| "buffer_do cfg (now, OInteraction a k) states = ([], snd (recordInteraction cfg states now a k))"
| "buffer_do cfg (now, OInspect a k) states = ([], snd (inspect states now a k))"

fun buffer_run :: "IngestBufferOptions \<Rightarrow> (int \<times> buffer_op) list \<Rightarrow> buffer_states \<Rightarrow> BufferedRecord list list \<times> buffer_states" where
  "buffer_run cfg [] states = ([], states)"
| "buffer_run cfg (op # ops) states =
     (case buffer_do cfg op states of
        (out, states') \<Rightarrow> (case buffer_run cfg ops states' of (outs, states'') \<Rightarrow> (out @ outs, states'')))"

text \<open>The records of one conversation that arrive in a run.\<close>

fun arrival :: "int \<times> buffer_op \<Rightarrow> BufferedRecord list" where
  "arrival (now, OIngest a m s) = [toRecord a m now]"
| "arrival _ = []"

definition of_conv :: "string \<Rightarrow> string \<Rightarrow> BufferedRecord \<Rightarrow> bool" where
  "of_conv a k r \<longleftrightarrow> br_adapterId r = a \<and> br_conversationKey r = k"

definition backlog_of :: "buffer_states \<Rightarrow> string \<Rightarrow> string \<Rightarrow> BufferedRecord list" where
  "backlog_of states a k = st_backlog (stateFor states (conversationStorageKey a k))"

section \<open>Every backlog holds the records of its own conversation\<close>

definition state_ok :: "string \<times> ConversationState \<Rightarrow> bool" where
  "state_ok kv \<longleftrightarrow> (\<exists>a k. fst kv = conversationStorageKey a k \<and> (\<forall>r \<in> set (st_backlog (snd kv)). of_conv a k r))"

definition states_ok :: "buffer_states \<Rightarrow> bool" where
  "states_ok states \<longleftrightarrow> map_ok states \<and> (\<forall>kv \<in> set states. state_ok kv)"

lemma states_ok_Nil [simp]: "states_ok []"
  by (simp add: states_ok_def map_ok_def)

lemma of_conv_toRecord [simp]: "of_conv a k (toRecord b m now) \<longleftrightarrow> b = a \<and> im_conversationKey m = k"
  by (simp add: of_conv_def toRecord_def)

lemma of_conv_unique: "of_conv a k r \<Longrightarrow> of_conv b l r \<longleftrightarrow> (b, l) = (a, k)"
  by (auto simp: of_conv_def)

lemma set_map_set: "set (map_set m k v) \<subseteq> insert (k, v) (set m)"
  by (induction m) (auto split: if_splits)

lemma states_ok_set:
  assumes "states_ok states" "\<forall>r \<in> set (st_backlog state). of_conv a k r"
  shows "states_ok (map_set states (conversationStorageKey a k) state)"
proof -
  have "state_ok (conversationStorageKey a k, state)" using assms(2) by (auto simp: state_ok_def)
  then show ?thesis using assms(1) set_map_set [of states "conversationStorageKey a k" state]
    by (auto simp only: states_ok_def map_ok_set)
qed

lemma backlog_of_set:
  "backlog_of (map_set states (conversationStorageKey b l) state) a k =
     (if (b, l) = (a, k) then st_backlog state else backlog_of states a k)"
  by (auto simp: backlog_of_def stateFor_def jm.get_put)

lemma stateFor_backlog: "st_backlog (stateFor states (conversationStorageKey a k)) = backlog_of states a k"
  by (simp add: backlog_of_def)

lemma map_get_backlog: "map_get states (conversationStorageKey a k) = Some state \<Longrightarrow> backlog_of states a k = st_backlog state"
  by (simp add: backlog_of_def stateFor_def)

lemma backlog_conv:
  assumes "states_ok states" "r \<in> set (backlog_of states a k)"
  shows "of_conv a k r"
proof (cases "map_get states (conversationStorageKey a k)")
  case (Some state)
  then have "(conversationStorageKey a k, state) \<in> set states" by (simp add: map_get_def map_of_SomeD)
  then have "state_ok (conversationStorageKey a k, state)" using assms(1) by (simp add: states_ok_def)
  then show ?thesis using assms(2) map_get_backlog [OF Some] by (auto simp: state_ok_def)
qed (use assms in \<open>simp add: backlog_of_def stateFor_def\<close>)

lemma filter_backlog:
  "states_ok states \<Longrightarrow>
   filter (of_conv b l) (backlog_of states a k) = (if (b, l) = (a, k) then backlog_of states a k else [])"
  using backlog_conv of_conv_unique by (fastforce simp: filter_empty_conv filter_id_conv)

section \<open>The activation policy\<close>

text \<open>
  The policy in one predicate: an addressed message always triggers a turn; an ambient one
  does when the window is open and the room has been silent for the quiet period.
\<close>

definition triggers :: "IngestBufferOptions \<Rightarrow> ConversationState \<Rightarrow> int \<Rightarrow> bool \<Rightarrow> bool" where
  "triggers cfg state now addressed \<longleftrightarrow>
     addressed \<or> isActive state now \<and> (ib_quietPeriodMs cfg \<le> 0 \<or> now - st_lastArrivalAt state \<ge> ib_quietPeriodMs cfg)"

lemma isActive_arrival [simp]: "isActive (state\<lparr>st_lastArrivalAt := t\<rparr>) now = isActive state now"
  by (simp add: isActive_def)

lemma ingest_decision:
  "ingest cfg states now a m s =
     (let key = conversationStorageKey a (im_conversationKey m); state = stateFor states key;
          all = backlog_of states a (im_conversationKey m) @ [toRecord a m now]
      in if triggers cfg state now (im_addressed m)
         then (Activate (if \<not> s then Prompt else if im_addressed m then Steer else FollowUp) all (renderPrompt all),
               map_set states key \<lparr>st_backlog = [], st_windowDeadline = Some (now + ib_engagementWindowMs cfg), st_lastArrivalAt = now\<rparr>)
         else (Buffered (toRecord a m now) (length all),
               map_set states key \<lparr>st_backlog = all, st_windowDeadline = (if isActive state now then st_windowDeadline state else None),
                 st_lastArrivalAt = now\<rparr>))"
  by (cases "stateFor states (conversationStorageKey a (im_conversationKey m))")
    (simp add: ingest_def triggers_def isActive_def backlog_of_def Let_def split: option.split)

text \<open>What one call does to the backlog of a conversation.\<close>

abbreviation conserves :: "buffer_states \<Rightarrow> BufferedRecord list \<Rightarrow> BufferedRecord list list \<Rightarrow> buffer_states \<Rightarrow> bool" where
  "conserves states arr out states' \<equiv> states_ok states' \<and>
     (\<forall>a k. filter (of_conv a k) (concat out) @ backlog_of states' a k = backlog_of states a k @ filter (of_conv a k) arr) \<and>
     (\<forall>batch \<in> set out. batch \<noteq> [] \<and> (\<exists>a k. \<forall>r \<in> set batch. of_conv a k r))"

lemma conserves_ingest:
  assumes ok: "states_ok states"
  shows "conserves states (arrival (now, OIngest b m s)) (fst (buffer_do cfg (now, OIngest b m s) states))
    (snd (buffer_do cfg (now, OIngest b m s) states))"
proof -
  let ?l = "im_conversationKey m" and ?rec = "toRecord b m now"
  let ?all = "backlog_of states b ?l @ [?rec]"
  have conv: "\<forall>r \<in> set ?all. of_conv b ?l r" using backlog_conv [OF ok] by auto
  show ?thesis
  proof (cases "triggers cfg (stateFor states (conversationStorageKey b ?l)) now (im_addressed m)")
    case True
    then obtain state where e: "buffer_do cfg (now, OIngest b m s) states = ([?all], map_set states (conversationStorageKey b ?l) state)"
      and "st_backlog state = []" by (auto simp: ingest_decision Let_def)
    then show ?thesis unfolding e using conv ok by (auto simp: states_ok_set backlog_of_set filter_backlog)
  next
    case False
    then obtain state where e: "buffer_do cfg (now, OIngest b m s) states = ([], map_set states (conversationStorageKey b ?l) state)"
      and "st_backlog state = ?all" by (auto simp: ingest_decision Let_def)
    then show ?thesis unfolding e using conv ok by (auto simp: states_ok_set backlog_of_set)
  qed
qed

lemma states_ok_Cons:
  "states_ok (kv # states) \<longleftrightarrow> state_ok kv \<and> fst kv \<notin> fst ` set states \<and> states_ok states"
  by (auto simp: states_ok_def map_ok_def)

lemma sweep_keys: "map fst (snd (sweep_loop cfg now states)) = map fst states"
  by (induction cfg now states rule: sweep_loop.induct) (auto simp: Let_def split: prod.splits)

lemma backlog_of_Cons:
  "backlog_of ((conversationStorageKey b l, state) # states) a k = (if (b, l) = (a, k) then st_backlog state else backlog_of states a k)"
  by (auto simp: backlog_of_def stateFor_def map_get_def)

lemma backlog_of_absent: "conversationStorageKey a k \<notin> fst ` set states \<Longrightarrow> backlog_of states a k = []"
  by (simp add: backlog_of_def stateFor_def map_get_def map_of_eq_None_iff [THEN iffD2])

lemma conserves_sweep:
  "states_ok states \<Longrightarrow>
   conserves states [] (map sa_records (fst (sweep_loop cfg now states))) (snd (sweep_loop cfg now states))"
proof (induction states)
  case (Cons kv states)
  obtain b l where key: "fst kv = conversationStorageKey b l" and conv: "\<forall>r \<in> set (st_backlog (snd kv)). of_conv b l r"
    using Cons.prems by (auto simp: states_ok_Cons state_ok_def)
  obtain state where kv: "kv = (conversationStorageKey b l, state)" using key by (cases kv) auto
  define due rest where "due = map sa_records (fst (sweep_loop cfg now states))" and "rest = snd (sweep_loop cfg now states)"
  have IH: "conserves states [] due rest" using Cons by (simp add: states_ok_Cons due_def rest_def)
  have fresh: "conversationStorageKey b l \<notin> fst ` set rest" "backlog_of states b l = []"
    using Cons.prems sweep_keys [of cfg now states] backlog_of_absent
    by (simp_all add: kv states_ok_Cons rest_def flip: set_map)
  have "filter (of_conv b l) (concat due) @ backlog_of rest b l = []" using IH fresh by simp
  then have due: "filter (of_conv b l) (concat due) = []" by simp
  have ok: "states_ok ((conversationStorageKey b l, st) # rest)" if "\<forall>r \<in> set (st_backlog st). of_conv b l r" for st
    using fresh IH that by (auto simp: states_ok_Cons state_ok_def)
  have flt: "filter (of_conv a k) (st_backlog state) = (if (b, l) = (a, k) then st_backlog state else [])" for a k
    using conv of_conv_unique unfolding kv by (fastforce simp: filter_empty_conv filter_id_conv)
  show ?case
  proof (cases "sweep_due cfg now state")
    case True
    let ?st = "state\<lparr>st_backlog := [], st_windowDeadline := Some (now + ib_engagementWindowMs cfg)\<rparr>"
    have e: "map sa_records (fst (sweep_loop cfg now (kv # states))) = st_backlog state # due"
      "snd (sweep_loop cfg now (kv # states)) = (conversationStorageKey b l, ?st) # rest"
      using True by (simp_all add: kv due_def rest_def case_prod_beta Let_def)
    have "st_backlog state \<noteq> []" using True by (simp add: sweep_due_def)
    then show ?thesis unfolding e using ok [of ?st] IH fresh conv due
      by (auto simp: kv flt backlog_of_Cons)
  next
    case False
    have e: "map sa_records (fst (sweep_loop cfg now (kv # states))) = due"
      "snd (sweep_loop cfg now (kv # states)) = (conversationStorageKey b l, state) # rest"
      using False by (simp_all add: kv due_def rest_def case_prod_beta Let_def)
    show ?thesis unfolding e using ok [of state] IH fresh conv due by (auto simp: kv backlog_of_Cons)
  qed
qed (simp add: backlog_of_def)

text \<open>The three operations that only move the window leave every backlog alone.\<close>

lemma conserves_window:
  assumes ok: "states_ok states"
    and win: "states' = states \<or> (\<exists>state d. map_get states (conversationStorageKey b l) = Some state \<and>
      states' = map_set states (conversationStorageKey b l) (state\<lparr>st_windowDeadline := d\<rparr>))"
  shows "conserves states [] [] states'"
  using win
proof
  assume "\<exists>state d. map_get states (conversationStorageKey b l) = Some state \<and>
      states' = map_set states (conversationStorageKey b l) (state\<lparr>st_windowDeadline := d\<rparr>)"
  then obtain state d where st: "map_get states (conversationStorageKey b l) = Some state"
    "states' = map_set states (conversationStorageKey b l) (state\<lparr>st_windowDeadline := d\<rparr>)" by blast
  have "\<forall>r \<in> set (st_backlog state). of_conv b l r" using backlog_conv [OF ok, of _ b l] map_get_backlog [OF st(1)] by simp
  then have "states_ok states'" unfolding st(2) by (intro states_ok_set [OF ok]) simp
  then show ?thesis using map_get_backlog [OF st(1)] unfolding st(2) by (auto simp: backlog_of_set)
qed (simp add: ok)

lemma conserves_do:
  assumes ok: "states_ok states"
  shows "conserves states (arrival op) (fst (buffer_do cfg op states)) (snd (buffer_do cfg op states))"
proof -
  obtain now bop where op: "op = (now, bop)" by (cases op)
  show ?thesis
  proof (cases bop)
    case (OIngest a m s)
    show ?thesis unfolding op OIngest by (rule conserves_ingest [OF ok])
  next
    case OSweep
    show ?thesis unfolding op OSweep using conserves_sweep [OF ok, of cfg now] ok
      by (simp add: sweepSettled_def case_prod_beta)
  next
    case (ODismiss b l)
    show ?thesis unfolding op ODismiss arrival.simps buffer_do.simps fst_conv snd_conv
      by (rule conserves_window [OF ok, of _ b l]) (auto simp: dismiss_def Let_def split: option.splits)
  next
    case (OInteraction b l)
    show ?thesis unfolding op OInteraction arrival.simps buffer_do.simps fst_conv snd_conv
      by (rule conserves_window [OF ok, of _ b l]) (auto simp: recordInteraction_def Let_def split: option.splits)
  next
    case (OInspect b l)
    show ?thesis unfolding op OInspect arrival.simps buffer_do.simps fst_conv snd_conv
      by (rule conserves_window [OF ok, of _ b l]) (auto simp: inspect_def Let_def split: option.splits)
  qed
qed

lemma conserves_run:
  "states_ok states \<Longrightarrow>
   conserves states (concat (map arrival ops)) (fst (buffer_run cfg ops states)) (snd (buffer_run cfg ops states))"
proof (induction ops arbitrary: states)
  case (Cons op ops)
  obtain out states1 where d: "buffer_do cfg op states = (out, states1)" by fastforce
  obtain outs states2 where r: "buffer_run cfg ops states1 = (outs, states2)" by fastforce
  have c1: "conserves states (arrival op) out states1" using conserves_do [OF Cons.prems, where op = op and cfg = cfg] by (simp add: d)
  have c2: "conserves states1 (concat (map arrival ops)) outs states2" using Cons.IH [of states1] c1 by (simp add: r)
  have "filter (of_conv a k) (concat (out @ outs)) @ backlog_of states2 a k =
      backlog_of states a k @ filter (of_conv a k) (concat (map arrival (op # ops)))" for a k
  proof -
    have "filter (of_conv a k) (concat (out @ outs)) @ backlog_of states2 a k =
        filter (of_conv a k) (concat out) @ backlog_of states1 a k @ filter (of_conv a k) (concat (map arrival ops))"
      using c2 by simp
    also have "\<dots> = (backlog_of states a k @ filter (of_conv a k) (arrival op)) @ filter (of_conv a k) (concat (map arrival ops))"
      using c1 by (simp flip: append_assoc)
    finally show ?thesis by simp
  qed
  then show ?case using c1 c2 by (auto simp: d r)
qed simp

section \<open>Properties of the buffer\<close>

text \<open>
  C13. No message is lost, duplicated, reordered or delivered to another conversation. After
  any sequence of arrivals, sweeps, dismissals, interactions and inspections at any clock
  readings, the records released for a conversation followed by its backlog are exactly the
  records that arrived for it, in arrival order; every released batch is non-empty and
  belongs to one conversation.\<close>

theorem ingest_buffer_conserves:
  "filter (of_conv a k) (concat (fst (buffer_run cfg ops []))) @ backlog_of (snd (buffer_run cfg ops [])) a k =
     filter (of_conv a k) (concat (map arrival ops)) \<and>
   [] \<notin> set (fst (buffer_run cfg ops [])) \<and>
   set (fst (buffer_run cfg ops [])) \<subseteq> {batch. \<exists>b l. filter (of_conv b l) batch = batch}"
proof -
  have c: "conserves [] (concat (map arrival ops)) (fst (buffer_run cfg ops [])) (snd (buffer_run cfg ops []))"
    by (rule conserves_run) simp
  moreover have "backlog_of [] a k = []" by (simp add: backlog_of_absent)
  moreover have "batch \<in> set (fst (buffer_run cfg ops [])) \<Longrightarrow> \<exists>b l. filter (of_conv b l) batch = batch" for batch
    using c by (meson filter_True)
  ultimately show ?thesis by auto
qed

definition w_cfg :: IngestBufferOptions where
  "w_cfg = \<lparr>ib_engagementWindowMs = 100, ib_quietPeriodMs = 10\<rparr>"

definition w_msg :: "string \<Rightarrow> bool \<Rightarrow> InboundMessage" where
  "w_msg i addressed = \<lparr>im_messageId = i, im_conversationKey = ''room'', im_parentConversationKey = None,
     im_speaker = \<lparr>sp_id = ''u'', sp_displayName = ''User''\<rparr>, im_text = ''hi'', im_attachments = [], im_addressed = addressed\<rparr>"

text \<open>The window of a conversation, closed or not.\<close>

definition window_closed :: "buffer_states \<Rightarrow> string \<Rightarrow> string \<Rightarrow> bool" where
  "window_closed states a k \<longleftrightarrow> st_windowDeadline (stateFor states (conversationStorageKey a k)) = None"

definition addresses :: "string \<Rightarrow> string \<Rightarrow> int \<times> buffer_op \<Rightarrow> bool" where
  "addresses a k op \<longleftrightarrow> (\<exists>r \<in> set (arrival op). of_conv a k r \<and> br_addressed r)"

lemma stateFor_set:
  "stateFor (map_set states (conversationStorageKey b l) state) (conversationStorageKey a k) =
     (if (b, l) = (a, k) then state else stateFor states (conversationStorageKey a k))"
  by (auto simp: stateFor_def jm.get_put)

lemma sweep_loop_state:
  "map_ok states \<Longrightarrow> stateFor (snd (sweep_loop cfg now states)) key =
     (if sweep_due cfg now (stateFor states key)
      then (stateFor states key)\<lparr>st_backlog := [], st_windowDeadline := Some (now + ib_engagementWindowMs cfg)\<rparr>
      else stateFor states key)"
proof (induction states)
  case (Cons kv states)
  have *: "fst kv = key \<Longrightarrow> map_of (snd (sweep_loop cfg now states)) key = None"
    using Cons.prems sweep_keys [of cfg now states] by (auto simp: map_ok_def map_of_eq_None_iff simp flip: set_map)
  show ?case using Cons * by (cases kv) (auto simp: stateFor_def map_get_def map_ok_def Let_def split: prod.splits)
qed (simp add: stateFor_def map_get_def sweep_due_def)

lemma window_closed_do:
  assumes ok: "states_ok states" and closed: "window_closed states a k" and na: "\<not> addresses a k op"
  shows "window_closed (snd (buffer_do cfg op states)) a k \<and> filter (of_conv a k) (concat (fst (buffer_do cfg op states))) = []"
proof -
  obtain now bop where op: "op = (now, bop)" by (cases op)
  have inactive: "\<not> isActive (stateFor states (conversationStorageKey a k)) now"
    using closed by (simp add: isActive_def window_closed_def)
  show ?thesis
  proof (cases bop)
    case (OIngest b m s)
    then show ?thesis using closed na inactive
      by (auto simp: op addresses_def ingest_decision Let_def triggers_def window_closed_def stateFor_set filter_backlog [OF ok]
        toRecord_def of_conv_def)
  next
    case OSweep
    have "map_ok states" using ok by (simp add: states_ok_def)
    moreover have "\<not> sweep_due cfg now (stateFor states (conversationStorageKey a k))" using inactive by (simp add: sweep_due_def)
    ultimately have st: "stateFor (snd (sweep_loop cfg now states)) (conversationStorageKey a k) = stateFor states (conversationStorageKey a k)"
      by (simp add: sweep_loop_state)
    then have "backlog_of (snd (sweep_loop cfg now states)) a k = backlog_of states a k" by (simp add: backlog_of_def)
    moreover have "filter (of_conv a k) (concat (map sa_records (fst (sweep_loop cfg now states)))) @
        backlog_of (snd (sweep_loop cfg now states)) a k = backlog_of states a k"
      using conserves_sweep [OF ok, of cfg now] by simp
    ultimately have "filter (of_conv a k) (concat (map sa_records (fst (sweep_loop cfg now states)))) = []" by simp
    then show ?thesis using closed st by (simp add: op OSweep sweepSettled_def case_prod_beta window_closed_def)
  next
    case (ODismiss b l)
    then show ?thesis using closed by (auto simp: op dismiss_def Let_def window_closed_def stateFor_set split: option.splits)
  next
    case (OInteraction b l)
    then show ?thesis using closed inactive
      by (auto simp: op recordInteraction_def Let_def window_closed_def stateFor_def jm.get_put isActive_def split: option.splits if_splits)
  next
    case (OInspect b l)
    then show ?thesis using closed by (auto simp: op inspect_def Let_def window_closed_def stateFor_set split: option.splits)
  qed
qed

lemma window_closed_run:
  "states_ok states \<Longrightarrow> window_closed states a k \<Longrightarrow> \<forall>op \<in> set ops. \<not> addresses a k op \<Longrightarrow>
   filter (of_conv a k) (concat (fst (buffer_run cfg ops states))) = []"
proof (induction ops arbitrary: states)
  case (Cons op ops)
  have "states_ok (snd (buffer_do cfg op states))" using conserves_do [OF Cons.prems(1)] by blast
  then show ?case using Cons window_closed_do [OF Cons.prems(1,2), of op cfg]
    by (simp add: case_prod_beta)
qed simp

lemma dismiss_closes: "window_closed (snd (dismiss states now a k)) a k"
  by (auto simp: dismiss_def Let_def window_closed_def stateFor_set stateFor_def split: option.splits)

text \<open>
  C23. The agent never speaks unasked. In a conversation in which it was never addressed, or
  since it was last dismissed, no message is released to it, whatever arrives and however
  often the sweep runs, until a message addresses it.\<close>

theorem buffer_needs_address:
  assumes "\<forall>op \<in> set ops. \<not> addresses a k op"
  shows "filter (of_conv a k) (concat (fst (buffer_run cfg ops []))) = [] \<and>
    filter (of_conv a k) (concat (fst (buffer_run cfg ops (snd (dismiss (snd (buffer_run cfg before [])) now a k))))) = []"
proof -
  have "states_ok (snd (buffer_run cfg before []))" using conserves_run [of "[]"] by simp
  then have "states_ok (snd (dismiss (snd (buffer_run cfg before [])) now a k))"
    using conserves_do [of "snd (buffer_run cfg before [])" cfg "(now, ODismiss a k)"] by simp
  then show ?thesis using window_closed_run dismiss_closes assms
    by (auto simp: window_closed_def stateFor_def map_get_def)
qed

theorem buffer_needs_address_witness:
  "filter (of_conv ''web'' ''room'') (concat (fst (buffer_run w_cfg [(5, OIngest ''web'' (w_msg ''m2'' False) False), (50, OSweep)]
     (snd (dismiss (snd (buffer_run w_cfg [(0, OIngest ''web'' (w_msg ''m1'' True) False)] [])) 1 ''web'' ''room''))))) = []"
  using buffer_needs_address [of "[(5, OIngest ''web'' (w_msg ''m2'' False) False), (50, OSweep)]" "''web''" "''room''" w_cfg
    "[(0, OIngest ''web'' (w_msg ''m1'' True) False)]" 1]
  by (simp add: addresses_def w_msg_def toRecord_def)

text \<open>
  C24. A held backlog is answered once the room settles: a sweep at a time when the quiet
  period has passed since the last arrival and the window is still open releases the whole
  backlog of the conversation as one prompt under its own adapter and conversation, empties
  the backlog and reopens the window.\<close>

theorem sweep_releases_settled:
  assumes "states = snd (buffer_run cfg ops [])" and "ib_quietPeriodMs cfg > 0"
    and "map_get states (conversationStorageKey a k) = Some state"
    and "st_backlog state \<noteq> []" and "now - st_lastArrivalAt state \<ge> ib_quietPeriodMs cfg" and "isActive state now"
  shows "\<lparr>sa_adapterId = a, sa_conversationKey = k, sa_records = st_backlog state, sa_prompt = renderPrompt (st_backlog state)\<rparr>
      \<in> set (fst (sweepSettled cfg states now)) \<and>
    map_get (snd (sweepSettled cfg states now)) (conversationStorageKey a k) =
      Some (state\<lparr>st_backlog := [], st_windowDeadline := Some (now + ib_engagementWindowMs cfg)\<rparr>)"
proof -
  have ok: "states_ok states" using conserves_run [of "[]"] assms(1) by simp
  have due: "sweep_due cfg now state" using assms(4-6) by (simp add: sweep_due_def)
  have hd: "br_adapterId (hd (st_backlog state)) = a" "br_conversationKey (hd (st_backlog state)) = k"
    using backlog_conv [OF ok, of "hd (st_backlog state)" a k] map_get_backlog [OF assms(3)] assms(4) by (auto simp: of_conv_def)
  have mem: "(key, state) \<in> set states \<Longrightarrow> \<lparr>sa_adapterId = br_adapterId (hd (st_backlog state)),
      sa_conversationKey = br_conversationKey (hd (st_backlog state)), sa_records = st_backlog state,
      sa_prompt = renderPrompt (st_backlog state)\<rparr> \<in> set (fst (sweep_loop cfg now states))" for key
    using due by (induction states) (auto simp: Let_def split: prod.splits)
  have "map_of (snd (sweep_loop cfg now states)) key = map_option (\<lambda>state. if sweep_due cfg now state
      then state\<lparr>st_backlog := [], st_windowDeadline := Some (now + ib_engagementWindowMs cfg)\<rparr> else state) (map_of states key)" for key
    by (induction states) (auto simp: Let_def split: prod.splits)
  then show ?thesis using mem [of "conversationStorageKey a k"] hd due assms(2,3)
    by (simp add: sweepSettled_def map_get_def map_of_SomeD)
qed

definition w_held :: buffer_states where
  "w_held = snd (buffer_run w_cfg [(0, OIngest ''web'' (w_msg ''m1'' True) False), (5, OIngest ''web'' (w_msg ''m2'' False) False)] [])"

theorem sweep_releases_settled_witness:
  "\<exists>act \<in> set (fst (sweepSettled w_cfg w_held 20)). sa_records act = [toRecord ''web'' (w_msg ''m2'' False) 5]"
proof -
  have g: "map_get w_held (conversationStorageKey ''web'' ''room'') = Some \<lparr>st_backlog = [toRecord ''web'' (w_msg ''m2'' False) 5],
      st_windowDeadline = Some 100, st_lastArrivalAt = 5\<rparr>"
    by (simp add: w_held_def ingest_def stateFor_def Let_def w_msg_def w_cfg_def isActive_def jm.get_put jm.get_empty map_get_set
      map_get_def)
  show ?thesis
    using sweep_releases_settled [OF w_held_def _ g, of 20] by (force simp: w_cfg_def isActive_def)
qed

text \<open>
  Inspecting a conversation never reports a stale window (a deadline is reported exactly
  when the window is open, and it lies in the future), and with a clock that does not run
  backwards it changes the answer to no later arrival.\<close>

theorem inspect_exact:
  assumes "now \<le> now'"
  shows "(cs_windowDeadline (fst (inspect states now b l)) \<noteq> None \<longleftrightarrow> cs_active (fst (inspect states now b l))) \<and>
    (\<forall>d. cs_windowDeadline (fst (inspect states now b l)) = Some d \<longrightarrow> now < d) \<and>
    cs_backlogDepth (fst (inspect states now b l)) = length (backlog_of states b l) \<and>
    fst (ingest cfg (snd (inspect states now b l)) now' a m s) = fst (ingest cfg states now' a m s)"
proof -
  have st: "stateFor (snd (inspect states now b l)) (conversationStorageKey a k) =
      (let state = stateFor states (conversationStorageKey a k)
       in if (a, k) = (b, l) \<and> \<not> isActive state now then state\<lparr>st_windowDeadline := None\<rparr> else state)" for k
    by (auto simp: inspect_def Let_def stateFor_set stateFor_def split: option.splits)
  then have "backlog_of (snd (inspect states now b l)) a k = backlog_of states a k" for k
    by (simp add: backlog_of_def Let_def)
  moreover have "triggers cfg (stateFor (snd (inspect states now b l)) (conversationStorageKey a k)) now' ad =
      triggers cfg (stateFor states (conversationStorageKey a k)) now' ad" for k ad
    using assms by (auto simp: st Let_def triggers_def isActive_def split: option.splits)
  ultimately have "fst (ingest cfg (snd (inspect states now b l)) now' a m s) = fst (ingest cfg states now' a m s)"
    by (simp add: ingest_decision Let_def)
  then show ?thesis
    by (auto simp: inspect_def Let_def isActive_def backlog_of_def stateFor_def split: option.splits)
qed

theorem inspect_exact_witness:
  "fst (ingest w_cfg (snd (inspect w_held 200 ''web'' ''room'')) 201 ''web'' (w_msg ''m3'' False) False) =
   fst (ingest w_cfg w_held 201 ''web'' (w_msg ''m3'' False) False)"
  using inspect_exact [of 200 201 w_held "''web''" "''room''" w_cfg "''web''" "w_msg ''m3'' False" False] by simp

end
