(* ===== verification/Cron_Expression.thy ===== *)
theory Cron_Expression
  imports Omp_Prelude
begin

text \<open>
  The parser of \<open>packages/core/src/cron-expression.ts\<close>: five fields, each a comma-separated
  list of parts \<open>*\<close>, \<open>A\<close> or \<open>A-B\<close> with an optional step. The regular expression of a part
  is the function \<open>PART_RE\<close>, whose result holds the three capture groups. \<open>Number\<close> of a
  string of digits is the natural number it denotes; field values are compared with bounds
  below 60, so rounding of longer numerals cannot matter.
\<close>

section \<open>Fields\<close>

record CronSchedule =
  cs_minute :: "nat list"
  cs_hour :: "nat list"
  cs_dayOfMonth :: "nat list"
  cs_month :: "nat list"
  cs_dayOfWeek :: "nat list"

record FieldDef =
  fd_name :: string
  fd_min :: nat
  fd_max :: nat

datatype cron_error =
    EmptyListElement string
  | InvalidFieldPart string string
  | InvalidStep nat string
  | ValueOutOfRange string string
  | MacroUnsupported string
  | FieldCount nat string
  | InvalidTimezone string
  | MissingPart string
  | UnreadableOffset string
  | NeverMatches

definition FIELDS :: "FieldDef list" where
  "FIELDS =
     [\<lparr>fd_name = ''minute'', fd_min = 0, fd_max = 59\<rparr>,
      \<lparr>fd_name = ''hour'', fd_min = 0, fd_max = 23\<rparr>,
      \<lparr>fd_name = ''day-of-month'', fd_min = 1, fd_max = 31\<rparr>,
      \<lparr>fd_name = ''month'', fd_min = 1, fd_max = 12\<rparr>,
      \<lparr>fd_name = ''day-of-week'', fd_min = 0, fd_max = 7\<rparr>]"

text \<open>An optional group of the regular expression: \<open>sep\<close> followed by at least one digit.\<close>

definition opt_group :: "char \<Rightarrow> string \<Rightarrow> string option \<times> string" where
  "opt_group sep s =
     (case s of
        [] \<Rightarrow> (None, s)
      | c # r \<Rightarrow>
          if c = sep \<and> takeWhile is_digit r \<noteq> [] then (Some (takeWhile is_digit r), dropWhile is_digit r)
          else (None, s))"

definition PART_RE :: "string \<Rightarrow> (string option \<times> string option \<times> string option) option" where
  "PART_RE p =
     (let (m1, m2, r) =
            (if p \<noteq> [] \<and> hd p = CHR ''*'' then (None, None, tl p)
             else let (m2, r) = opt_group (CHR ''-'') (dropWhile is_digit p) in (Some (takeWhile is_digit p), m2, r));
          (m3, r') = opt_group (CHR ''/'') r
      in if m1 = Some [] \<or> r' \<noteq> [] then None else Some (m1, m2, m3))"

text \<open>The loop \<open>for (v = start; v <= end; v += step)\<close>; the step is at least one here.\<close>

function step_values :: "nat \<Rightarrow> nat \<Rightarrow> nat \<Rightarrow> nat list" where
  "step_values v end step = (if v \<le> end \<and> step \<ge> 1 then v # step_values (v + step) end step else [])"
  by pat_completeness auto
termination by (relation "measure (\<lambda>(v, end, step). Suc end - v)") auto

declare step_values.simps [simp del]

text \<open>The loop \<open>for (i = 0; i < seq.length; i += step)\<close>.\<close>

fun every_nth :: "nat \<Rightarrow> 'a list \<Rightarrow> 'a list" where
  "every_nth step [] = []"
| "every_nth step (x # xs) = x # every_nth step (drop (step - 1) xs)"

text \<open>The bounds and the step of a part, from the capture groups.\<close>

definition part_start :: "FieldDef \<Rightarrow> string option \<Rightarrow> nat" where
  "part_start def m1 = (case m1 of None \<Rightarrow> fd_min def | Some s \<Rightarrow> read_nat s)"

definition part_end :: "FieldDef \<Rightarrow> string option \<Rightarrow> string option \<Rightarrow> nat" where
  "part_end def m1 m2 =
     (case m1 of None \<Rightarrow> fd_max def | Some _ \<Rightarrow> (case m2 of Some s \<Rightarrow> read_nat s | None \<Rightarrow> part_start def m1))"

definition part_step :: "string option \<Rightarrow> nat" where
  "part_step m3 = (case m3 of Some s \<Rightarrow> read_nat s | None \<Rightarrow> 1)"

definition part_values :: "string \<Rightarrow> FieldDef \<Rightarrow> (cron_error, nat list) result" where
  "part_values p def =
     (case PART_RE p of
        None \<Rightarrow> Inl (InvalidFieldPart (fd_name def) p)
      | Some (m1, m2, m3) \<Rightarrow>
          let start = part_start def m1; end = part_end def m1 m2; step = part_step m3
          in if step < 1 then Inl (InvalidStep step p)
             else if start < fd_min def \<or> end < fd_min def \<or> start > fd_max def \<or> end > fd_max def
             then Inl (ValueOutOfRange (fd_name def) p)
             else if start \<le> end then Inr (step_values start end step)
             else Inr (every_nth step (step_values start (fd_max def) 1 @ step_values (fd_min def) end 1)))"

fun parse_parts :: "string \<Rightarrow> FieldDef \<Rightarrow> string list \<Rightarrow> nat list \<Rightarrow> (cron_error, nat list) result" where
  "parse_parts raw def [] vals = Inr vals"
| "parse_parts raw def (part # parts) vals =
     (let p = js_trim part
      in if length p = 0 then Inl (EmptyListElement raw)
         else result_bind (part_values p def) (\<lambda>vs. parse_parts raw def parts (vals @ vs)))"

definition parseField :: "string \<Rightarrow> FieldDef \<Rightarrow> (cron_error, nat list) result" where
  "parseField raw def =
     result_bind (parse_parts raw def (js_split (CHR '','') raw) [])
       (\<lambda>vals.
          let uniq = js_set_list vals;
              uniq' = (if fd_max def = 7 then map (\<lambda>v. if v = 7 then 0 else v) uniq else uniq)
          in Inr (sort (js_set_list uniq')))"

definition parseCronExpression :: "string \<Rightarrow> (cron_error, CronSchedule) result" where
  "parseCronExpression expr =
     (let trimmed = js_trim expr; fields = js_split_ws trimmed
      in if js_starts_with ''@'' trimmed then Inl (MacroUnsupported (hd (js_split_ws trimmed)))
         else if length fields \<noteq> 5 then Inl (FieldCount (length fields) expr)
         else result_bind (result_mapM (\<lambda>(f, def). parseField f def) (zip fields FIELDS))
           (\<lambda>vs. Inr \<lparr>cs_minute = vs ! 0, cs_hour = vs ! 1, cs_dayOfMonth = vs ! 2, cs_month = vs ! 3, cs_dayOfWeek = vs ! 4\<rparr>))"

section \<open>What a part denotes\<close>

lemma dvd_diff_step:
  fixes v w step :: nat
  assumes "step \<ge> 1"
  shows "v \<le> w \<and> step dvd (w - v) \<longleftrightarrow> w = v \<or> v + step \<le> w \<and> step dvd (w - (v + step))"
proof (cases "v + step \<le> w")
  case True
  then have "w - v = (w - (v + step)) + step" by simp
  then have "step dvd (w - v) \<longleftrightarrow> step dvd (w - (v + step))" by (metis dvd_add_left_iff dvd_refl)
  then show ?thesis using True by auto
next
  case False
  then have "v \<le> w \<Longrightarrow> step dvd (w - v) \<Longrightarrow> w = v" using assms by (auto dest: dvd_imp_le)
  then show ?thesis using False by auto
qed

lemma set_step_values:
  "step \<ge> 1 \<Longrightarrow> set (step_values v end step) = {w. v \<le> w \<and> w \<le> end \<and> step dvd (w - v)}"
proof (induction v "end" step rule: step_values.induct)
  case (1 v "end" step)
  show ?case
  proof (cases "v \<le> end")
    case True
    with 1 have "set (step_values v end step) = insert v {w. v + step \<le> w \<and> w \<le> end \<and> step dvd (w - (v + step))}"
      by (subst step_values.simps) simp
    also have "\<dots> = {w. v \<le> w \<and> w \<le> end \<and> step dvd (w - v)}"
      using True by (intro set_eqI) (use dvd_diff_step [OF 1(2), of v] in \<open>simp only: mem_Collect_eq insert_iff, metis\<close>)
    finally show ?thesis .
  next
    case False
    then show ?thesis by (subst step_values.simps) auto
  qed
qed

lemma step_values_nonempty: "v \<le> end \<Longrightarrow> step \<ge> 1 \<Longrightarrow> step_values v end step \<noteq> []"
  by (subst step_values.simps) simp

lemma set_every_nth: "set (every_nth n xs) \<subseteq> set xs"
  by (induction n xs rule: every_nth.induct) (auto dest: in_set_dropD)

lemma every_nth_1 [simp]: "every_nth (Suc 0) xs = xs"
  by (induction xs) auto

lemma part_values_range:
  assumes "part_values p def = Inr vs"
  shows "vs \<noteq> [] \<and> set vs \<subseteq> {fd_min def..fd_max def}"
proof -
  obtain m1 m2 m3 where re: "PART_RE p = Some (m1, m2, m3)"
    using assms by (auto simp: part_values_def split: option.splits)
  define s e st where "s = part_start def m1" and "e = part_end def m1 m2" and "st = part_step m3"
  have vs: "vs = (if s \<le> e then step_values s e st else every_nth st (step_values s (fd_max def) 1 @ step_values (fd_min def) e 1))"
    and r: "st \<ge> 1" "fd_min def \<le> s" "fd_min def \<le> e" "s \<le> fd_max def" "e \<le> fd_max def"
    using assms by (auto simp: part_values_def re Let_def s_def e_def st_def split: if_splits)
  have "every_nth st (step_values s (fd_max def) 1 @ step_values (fd_min def) e 1) \<noteq> []"
    using step_values_nonempty [of s "fd_max def" 1] r by (cases "step_values s (fd_max def) 1") auto
  then show ?thesis using r set_every_nth [of st "step_values s (fd_max def) 1 @ step_values (fd_min def) e 1"]
    by (auto simp: vs set_step_values step_values_nonempty)
qed

lemma parse_parts_range:
  "parse_parts raw def parts vals = Inr vs \<Longrightarrow> parts \<noteq> [] \<or> vals \<noteq> [] \<Longrightarrow> set vals \<subseteq> {fd_min def..fd_max def} \<Longrightarrow>
   vs \<noteq> [] \<and> set vs \<subseteq> {fd_min def..fd_max def}"
proof (induction parts arbitrary: vals)
  case (Cons part parts)
  then obtain us where "part_values (js_trim part) def = Inr us" "parse_parts raw def parts (vals @ us) = Inr vs"
    by (auto simp: Let_def result_bind_Inr_iff split: if_splits)
  then show ?case using Cons part_values_range by (metis Un_subset_iff append_is_Nil_conv set_append)
qed auto

lemma parseField_range:
  assumes "parseField raw def = Inr vs"
  shows "sorted vs \<and> distinct vs \<and> vs \<noteq> [] \<and> (\<forall>v \<in> set vs. if fd_max def = 7 then v = 0 \<or> fd_min def \<le> v \<and> v < 7 else fd_min def \<le> v \<and> v \<le> fd_max def)"
proof -
  obtain vals where p: "parse_parts raw def (js_split (CHR '','') raw) [] = Inr vals"
    and vs: "vs = sort (js_set_list (if fd_max def = 7 then map (\<lambda>v. if v = 7 then 0 else v) (js_set_list vals) else js_set_list vals))"
    using assms by (auto simp: parseField_def result_bind_Inr_iff Let_def)
  have r: "vals \<noteq> []" "set vals \<subseteq> {fd_min def..fd_max def}" using parse_parts_range [OF p] by simp_all
  have "set vs = (if fd_max def = 7 then (\<lambda>v. if v = 7 then 0 else v) ` set vals else set vals)"
    by (simp add: vs)
  moreover have "set vs \<noteq> {}" using r(1) calculation by (metis image_is_empty set_empty)
  moreover have "sorted vs" "distinct vs" by (simp_all add: vs)
  moreover have "if fd_max def = 7 then v = 0 \<or> fd_min def \<le> v \<and> v < 7 else fd_min def \<le> v \<and> v \<le> fd_max def"
    if v: "v \<in> set vs" for v
  proof -
    obtain u where u: "u \<in> set vals" "v = (if fd_max def = 7 \<and> u = 7 then 0 else u)"
      using v calculation(1) by (auto split: if_splits)
    moreover have "fd_min def \<le> u" "u \<le> fd_max def" using r(2) u(1) by auto
    ultimately show ?thesis by auto
  qed
  ultimately show ?thesis by (metis set_empty)
qed

lemma js_trim_id: "\<forall>c \<in> set s. \<not> js_ws c \<Longrightarrow> js_trim s = s"
proof -
  have "dropWhile js_ws t = t" if "\<forall>c \<in> set t. \<not> js_ws c" for t
    using that by (cases t) auto
  then show "\<forall>c \<in> set s. \<not> js_ws c \<Longrightarrow> js_trim s = s" by (metis js_trim_def rev_rev_ident set_rev)
qed

lemma js_split_none: "c \<notin> set s \<Longrightarrow> js_split c s = [s]"
  by (induction s) auto

lemma digit_facts: "is_digit c \<Longrightarrow> \<not> js_ws c \<and> c \<noteq> CHR '','' \<and> c \<noteq> CHR ''-'' \<and> c \<noteq> CHR ''/'' \<and> c \<noteq> CHR ''*''"
  by (auto simp: is_digit_def js_ws_def)

lemma show_nat_facts: "c \<in> set (show_nat n) \<Longrightarrow> \<not> js_ws c \<and> c \<noteq> CHR '','' \<and> c \<noteq> CHR ''-'' \<and> c \<noteq> CHR ''/'' \<and> c \<noteq> CHR ''*''"
  using show_nat_digits digit_facts by blast

lemma takeWhile_show_nat [simp]: "takeWhile is_digit (show_nat n) = show_nat n"
  using show_nat_digits by (simp add: takeWhile_eq_all_conv)

lemma dropWhile_show_nat [simp]: "dropWhile is_digit (show_nat n) = []"
  using show_nat_digits by (simp add: dropWhile_eq_Nil_conv)

lemma hd_show_nat_star: "hd (show_nat n) \<noteq> CHR ''*''"
  using show_nat_facts [of "hd (show_nat n)" n] by simp

lemma not_digit_sep [simp]: "\<not> is_digit (CHR ''-'')" "\<not> is_digit (CHR ''/'')" "\<not> js_ws (CHR ''-'')" "\<not> js_ws (CHR ''/'')"
  by (simp_all add: is_digit_def js_ws_def)

text \<open>The printed forms of a part and its capture groups.\<close>

definition print_range :: "nat \<Rightarrow> nat \<Rightarrow> nat \<Rightarrow> string" where
  "print_range a b n = show_nat a @ ''-'' @ show_nat b @ ''/'' @ show_nat n"

definition print_start :: "nat \<Rightarrow> nat \<Rightarrow> string" where
  "print_start a n = show_nat a @ ''/'' @ show_nat n"

lemma PART_RE_range: "PART_RE (print_range a b n) = Some (Some (show_nat a), Some (show_nat b), Some (show_nat n))"
  by (simp add: PART_RE_def print_range_def opt_group_def hd_show_nat_star takeWhile_digits_show_nat dropWhile_digits_show_nat
      hd_append)

lemma PART_RE_start: "PART_RE (print_start a n) = Some (Some (show_nat a), None, Some (show_nat n))"
  by (simp add: PART_RE_def print_start_def opt_group_def hd_show_nat_star takeWhile_digits_show_nat dropWhile_digits_show_nat
      hd_append)

lemma single_part:
  assumes "\<forall>c \<in> set s. \<not> js_ws c \<and> c \<noteq> CHR '',''" "s \<noteq> []"
  shows "parse_parts s def (js_split (CHR '','') s) [] = part_values s def"
proof -
  have "js_split (CHR '','') s = [s]" using assms by (intro js_split_none) auto
  moreover have "js_trim s = s" using assms by (intro js_trim_id) auto
  ultimately show ?thesis using assms(2) by (cases "part_values s def") simp_all
qed

lemma print_range_chars: "\<forall>c \<in> set (print_range a b n). \<not> js_ws c \<and> c \<noteq> CHR '',''" "print_range a b n \<noteq> []"
  by (auto simp: print_range_def dest: show_nat_facts)

lemma print_start_chars: "\<forall>c \<in> set (print_start a n). \<not> js_ws c \<and> c \<noteq> CHR '',''" "print_start a n \<noteq> []"
  by (auto simp: print_start_def dest: show_nat_facts)

section \<open>Properties of the parser\<close>

lemma parsed_fields:
  assumes "parseCronExpression expr = Inr sch"
  shows "\<forall>(vs, lo, hi) \<in> {(cs_minute sch, 0, 59), (cs_hour sch, 0, 23), (cs_dayOfMonth sch, 1, 31),
      (cs_month sch, 1, 12), (cs_dayOfWeek sch, 0, 6)}.
    vs \<noteq> [] \<and> sorted vs \<and> distinct vs \<and> set vs \<subseteq> {lo..hi}"
proof -
  define fields where "fields = js_split_ws (js_trim expr)"
  obtain vs where len: "length fields = 5" and m: "result_mapM (\<lambda>(f, def). parseField f def) (zip fields FIELDS) = Inr vs"
    and sch: "sch = \<lparr>cs_minute = vs ! 0, cs_hour = vs ! 1, cs_dayOfMonth = vs ! 2, cs_month = vs ! 3, cs_dayOfWeek = vs ! 4\<rparr>"
    using assms by (auto simp: parseCronExpression_def Let_def fields_def result_bind_Inr_iff split: if_splits)
  have "parseField (fields ! i) (FIELDS ! i) = Inr (vs ! i)" if "i < 5" for i
    using result_mapM_Inr [OF m] that len by (auto simp: list_all2_conv_all_nth FIELDS_def)
  from parseField_range [OF this [of 0]] parseField_range [OF this [of 1]] parseField_range [OF this [of 2]]
    parseField_range [OF this [of 3]] parseField_range [OF this [of 4]]
  show ?thesis by (auto simp: sch FIELDS_def subset_iff numeral_eq_Suc less_Suc_eq_le)
qed

text \<open>
  C27. A cron expression that parses yields five non-empty, strictly sorted lists within the
  ranges of their fields: minutes 0 to 59, hours 0 to 23, days 1 to 31, months 1 to 12, and
  weekdays 0 to 6, Sunday never appearing as 7.\<close>

theorem parseCronExpression_ranges:
  assumes "parseCronExpression expr = Inr sch"
  shows "\<forall>(vs, lo, hi) \<in> {(cs_minute sch, 0, 59), (cs_hour sch, 0, 23), (cs_dayOfMonth sch, 1, 31),
      (cs_month sch, 1, 12), (cs_dayOfWeek sch, 0, 6)}.
    vs \<noteq> [] \<and> sorted vs \<and> distinct vs \<and> set vs \<subseteq> {lo..hi}"
  by (rule parsed_fields [OF assms])

theorem parseCronExpression_ranges_witness:
  "\<exists>sch. parseCronExpression ''*/15 9-17 * 1,7 1-5'' = Inr sch \<and> cs_minute sch = [0, 15, 30, 45] \<and> set (cs_hour sch) \<subseteq> {0..23}"
proof -
  have e: "parseCronExpression ''*/15 9-17 * 1,7 1-5'' = Inr \<lparr>cs_minute = [0, 15, 30, 45], cs_hour = [9, 10, 11, 12, 13, 14, 15, 16, 17],
     cs_dayOfMonth = [1..<32], cs_month = [1, 7], cs_dayOfWeek = [1, 2, 3, 4, 5]\<rparr>"
    by code_simp
  from parseCronExpression_ranges [OF e] show ?thesis unfolding e by simp
qed

text \<open>
  A printed range with a step, \<open>A-B/N\<close>, parses to exactly every \<open>N\<close>-th value from \<open>A\<close> to
  \<open>B\<close>, in order, for every field whose values are not renamed.\<close>

theorem parseField_range_step:
  assumes "fd_min def \<le> a" "a \<le> b" "b \<le> fd_max def" "1 \<le> n" "fd_max def \<noteq> 7"
  shows "parseField (print_range a b n) def = Inr (filter (\<lambda>v. n dvd (v - a)) [a..<Suc b])"
proof -
  have "part_values (print_range a b n) def = Inr (step_values a b n)"
    using assms by (simp add: part_values_def PART_RE_range part_start_def part_end_def part_step_def Let_def)
  then have "parseField (print_range a b n) def = Inr (sort (js_set_list (js_set_list (step_values a b n))))"
    using assms(5) by (simp add: parseField_def single_part [OF print_range_chars])
  moreover have "sort (js_set_list (js_set_list (step_values a b n))) = filter (\<lambda>v. n dvd (v - a)) [a..<Suc b]"
    using assms by (intro sorted_distinct_set_unique) (auto simp: set_step_values sorted_wrt_filter simp del: upt_Suc)
  ultimately show ?thesis by simp
qed

theorem parseField_range_step_witness:
  "parseField (print_range 10 50 20) (FIELDS ! 0) = Inr [10, 30, 50]"
  using parseField_range_step [of "FIELDS ! 0" 10 50 20] by (simp add: FIELDS_def upt_rec)

text \<open>
  A start with a step and no range end, \<open>A/M\<close>, denotes the single value \<open>A\<close>: the step is
  checked and then has no effect. The comment at the head of the source announces every
  \<open>M\<close>-th value from \<open>A\<close> to the maximum of the field.\<close>

theorem parseField_start_step:
  assumes "fd_min def \<le> a" "a \<le> fd_max def" "1 \<le> n" "fd_max def \<noteq> 7"
  shows "parseField (print_start a n) def = Inr [a]"
proof -
  have "step_values (a + n) a n = []" using assms(3) by (subst step_values.simps) simp
  then have "part_values (print_start a n) def = Inr [a]"
    using assms by (simp add: part_values_def PART_RE_start part_start_def part_end_def part_step_def Let_def step_values.simps [of a a])
  then show ?thesis using assms(4) by (simp add: parseField_def single_part [OF print_start_chars] js_set_list_def)
qed

theorem parseField_start_step_witness: "parseField (print_start 5 15) (FIELDS ! 0) = Inr [5]"
  using parseField_start_step [of "FIELDS ! 0" 5 15] by (simp add: FIELDS_def)

text \<open>
  In the day-of-week field a stepped range across the week's end counts Sunday twice, as
  7 and as 0: from Saturday to Monday by twos gives Sunday and Saturday, where every second
  day of Saturday, Sunday, Monday is Saturday and Monday. Without a step the range is right.\<close>

theorem dayOfWeek_wrap_step:
  "parseField (print_range 6 1 2) (FIELDS ! 4) = Inr [0, 6] \<and> parseField (print_range 6 1 1) (FIELDS ! 4) = Inr [0, 1, 6]"
  by code_simp

end
