(* ===== verification/Calendar.thy ===== *)
theory Calendar
  imports Omp_Prelude
begin

text \<open>
  The part of ECMAScript's date arithmetic that the cron code uses: \<open>Date.UTC\<close> and the UTC
  getters, over day numbers since 1970-01-01 in the proleptic Gregorian calendar. The year of
  a day is found by an upward search from an estimate, the month and the day of month by
  walking through the months. Day numbers and dates are inverse to each other.
\<close>

section \<open>Years, months and days\<close>

definition leap :: "int \<Rightarrow> bool" where
  "leap y \<longleftrightarrow> 4 dvd y \<and> (\<not> 100 dvd y \<or> 400 dvd y)"

definition year_length :: "int \<Rightarrow> int" where
  "year_length y = (if leap y then 366 else 365)"

definition day_from_year :: "int \<Rightarrow> int" where
  "day_from_year y = 365 * (y - 1970) + (y - 1969) div 4 - (y - 1901) div 100 + (y - 1601) div 400"

definition month_lengths :: "int \<Rightarrow> int list" where
  "month_lengths y = [31, (if leap y then 29 else 28), 31, 30, 31, 30, 31, 31, 30, 31, 30, 31]"

text \<open>The day number of the first of month \<open>m0\<close> (0 to 11) within its year.\<close>

definition month_start :: "int \<Rightarrow> nat \<Rightarrow> int" where
  "month_start y m0 = sum_list (take m0 (month_lengths y))"

text \<open>\<open>Date.UTC\<close> moves the years 0 to 99 into the twentieth century.\<close>

definition full_year :: "int \<Rightarrow> int" where
  "full_year y = (if 0 \<le> y \<and> y \<le> 99 then 1900 + y else y)"

definition utc_day :: "int \<Rightarrow> int \<Rightarrow> int \<Rightarrow> int" where
  "utc_day y m0 d =
     (let ym = full_year y + m0 div 12 in day_from_year ym + month_start ym (nat (m0 mod 12)) + d - 1)"

definition MS_PER_DAY :: int where
  "MS_PER_DAY = 86400000"

definition Date_UTC :: "int \<Rightarrow> int \<Rightarrow> int \<Rightarrow> int \<Rightarrow> int \<Rightarrow> epoch_ms" where
  "Date_UTC y m0 d h mi = utc_day y m0 d * MS_PER_DAY + h * 3600000 + mi * 60000"

text \<open>
  The fields of a day number. The year is the largest one that begins at or before the day;
  the search starts at or below it.
\<close>

lemma div_add_one:
  fixes x k :: int
  assumes "k > 0"
  shows "(x + 1) div k = x div k + (if k dvd (x + 1) then 1 else 0)"
proof (cases "x mod k = k - 1")
  case True
  moreover have "k * (x div k + 1) = k * (x div k) + k" by (simp add: distrib_left)
  ultimately have "x + 1 = k * (x div k + 1)" using mult_div_mod_eq [of k x] by linarith
  then have "k dvd (x + 1)" "(x + 1) div k = x div k + 1" using assms by (metis dvd_triv_left, metis assms less_irrefl nonzero_mult_div_cancel_left)
  then show ?thesis by simp
next
  case False
  then have r: "0 \<le> x mod k + 1" "x mod k + 1 < k" using assms pos_mod_bound [of k x] pos_mod_sign [of k x] by linarith+
  have e: "x + 1 = k * (x div k) + (x mod k + 1)" by (simp add: algebra_simps)
  have "(x + 1) div k = x div k" by (rule int_div_pos_eq [OF e r])
  moreover have "(x + 1) mod k = x mod k + 1" by (rule int_mod_pos_eq [OF e r])
  moreover have "x mod k + 1 > 0" using pos_mod_sign [OF assms, of x] by linarith
  ultimately show ?thesis by (auto simp: dvd_eq_mod_eq_0)
qed

lemma year_length_terms:
  "year_length y = 365 + (if 4 dvd (y - 1968) then 1 else 0) - (if 100 dvd (y - 1900) then 1 else 0) + (if 400 dvd (y - 1600) then 1 else 0)"
proof -
  have bools: "(C \<Longrightarrow> B) \<Longrightarrow> (B \<Longrightarrow> A) \<Longrightarrow> (if A \<and> (\<not> B \<or> C) then 366 else 365) =
      365 + (if A then 1 else 0) - (if B then 1 else 0) + (if C then 1 else (0 :: int))" for A B C
    by (cases A; cases B; cases C) simp_all
  have shift: "k dvd b \<Longrightarrow> k dvd (y - b) \<longleftrightarrow> k dvd y" for k b :: int
    using dvd_diff zdvd_zdiffD by blast
  have "4 dvd (y - 1968) \<longleftrightarrow> 4 dvd y" "100 dvd (y - 1900) \<longleftrightarrow> 100 dvd y" "400 dvd (y - 1600) \<longleftrightarrow> 400 dvd y"
    by (rule shift, simp)+
  moreover have "400 dvd y \<Longrightarrow> 100 dvd y" "100 dvd y \<Longrightarrow> 4 dvd y"
    using dvd_trans [of 100 400 y] dvd_trans [of 4 100 y] by simp_all
  ultimately show ?thesis unfolding year_length_def leap_def by (simp only: bools)
qed

lemma day_from_year_Suc: "day_from_year (y + 1) = day_from_year y + year_length y"
proof -
  have "(y - 1968) div 4 = (y - 1969) div 4 + (if 4 dvd (y - 1968) then 1 else 0)"
    using div_add_one [of 4 "y - 1969"] by simp
  moreover have "(y - 1900) div 100 = (y - 1901) div 100 + (if 100 dvd (y - 1900) then 1 else 0)"
    using div_add_one [of 100 "y - 1901"] by simp
  moreover have "(y - 1600) div 400 = (y - 1601) div 400 + (if 400 dvd (y - 1600) then 1 else 0)"
    using div_add_one [of 400 "y - 1601"] by simp
  moreover have "365 * (y - 1969) + (p + u) - (q + v) + (r + w) = 365 * (y - 1970) + p - q + r + (365 + u - v + w)" for p q r u v w :: int
    by simp
  moreover have "day_from_year (y + 1) = 365 * (y - 1969) + (y - 1968) div 4 - (y - 1900) div 100 + (y - 1600) div 400"
    by (simp add: day_from_year_def)
  ultimately show ?thesis unfolding year_length_terms day_from_year_def by (simp only:)
qed

lemma year_length_pos [simp]: "year_length y > 0"
  by (simp add: year_length_def)

lemma less_add_pos: "day_from_year y < day_from_year y + year_length y"
  by simp

function year_up :: "int \<Rightarrow> int \<Rightarrow> int" where
  "year_up y n = (if day_from_year (y + 1) \<le> n then year_up (y + 1) n else y)"
  by pat_completeness auto
termination
  by (relation "measure (\<lambda>(y, n). nat (n - day_from_year y))")
    (auto simp: day_from_year_Suc less_le_trans [OF less_add_pos])

declare year_up.simps [simp del]

definition year_of_day :: "int \<Rightarrow> int" where
  "year_of_day n = year_up (if n \<ge> 0 then 1970 + n div 366 else 1970 + n div 365) n"

fun month_walk :: "int list \<Rightarrow> int \<Rightarrow> nat \<times> int" where
  "month_walk [] r = (0, r)"
| "month_walk [l] r = (0, r)"
| "month_walk (l # l' # ls) r = (if r < l then (0, r) else (case month_walk (l' # ls) (r - l) of (m, r') \<Rightarrow> (Suc m, r')))"

text \<open>\<open>getUTCFullYear\<close>, \<open>getUTCMonth\<close>, \<open>getUTCDate\<close> and \<open>getUTCDay\<close> of midnight of a day.\<close>

definition civil_of_day :: "int \<Rightarrow> int \<times> int \<times> int" where
  "civil_of_day n =
     (let y = year_of_day n; (m0, r) = month_walk (month_lengths y) (n - day_from_year y) in (y, int m0, r + 1))"

definition weekday_of_day :: "int \<Rightarrow> nat" where
  "weekday_of_day n = nat ((n + 4) mod 7)"

section \<open>Day numbers and dates are inverse\<close>

lemma day_from_year_mono: "y \<le> y' \<Longrightarrow> day_from_year y \<le> day_from_year y'"
proof (induction y' rule: int_ge_induct)
  case (step i)
  then show ?case using day_from_year_Suc [of i] year_length_pos [of i] by linarith
qed simp

lemma day_from_year_strict: "y < y' \<Longrightarrow> day_from_year y + year_length y \<le> day_from_year y'"
  using day_from_year_mono [of "y + 1" y'] day_from_year_Suc [of y] by simp

lemma year_up_correct:
  "day_from_year y \<le> n \<Longrightarrow> day_from_year (year_up y n) \<le> n \<and> n < day_from_year (year_up y n + 1)"
proof (induction y n rule: year_up.induct)
  case (1 y n)
  then show ?case by (subst (1 2) year_up.simps) auto
qed

lemma year_length_bounds: "365 \<le> year_length y" "year_length y \<le> 366"
  by (simp_all add: year_length_def)

lemma day_from_year_1970: "day_from_year 1970 = 0"
  by (simp add: day_from_year_def)

lemma day_from_year_up: "day_from_year (1970 + int k) \<le> 366 * int k"
proof (induction k)
  case (Suc k)
  have "day_from_year (1970 + int (Suc k)) = day_from_year (1970 + int k) + year_length (1970 + int k)"
    using day_from_year_Suc [of "1970 + int k"] by (simp add: algebra_simps)
  then show ?case using Suc year_length_bounds(2) [of "1970 + int k"] by simp
qed (simp add: day_from_year_1970)

lemma day_from_year_down: "day_from_year (1970 - int k) \<le> - 365 * int k"
proof (induction k)
  case (Suc k)
  have "day_from_year (1970 - int k) = day_from_year (1970 - int (Suc k)) + year_length (1970 - int (Suc k))"
    using day_from_year_Suc [of "1970 - int (Suc k)"] by simp
  then show ?case using Suc year_length_bounds(1) [of "1970 - int (Suc k)"] by simp
qed (simp add: day_from_year_1970)

lemma year_estimate: "day_from_year (if n \<ge> 0 then 1970 + n div 366 else 1970 + n div 365) \<le> n"
proof (cases "n \<ge> 0")
  case True
  then have "0 \<le> n div 366" "366 * (n div 366) \<le> n" by simp_all
  then show ?thesis using True day_from_year_up [of "nat (n div 366)"] by simp
next
  case False
  then have "n div 365 \<le> 0" "365 * (n div 365) \<le> n" by simp_all
  then show ?thesis using False day_from_year_down [of "nat (- (n div 365))"] by simp
qed

lemma year_of_day: "day_from_year (year_of_day n) \<le> n \<and> n < day_from_year (year_of_day n) + year_length (year_of_day n)"
  unfolding year_of_day_def using year_up_correct [OF year_estimate] day_from_year_Suc by metis

lemma year_of_day_unique:
  assumes "day_from_year y \<le> n" "n < day_from_year y + year_length y"
  shows "year_of_day n = y"
  using year_of_day [of n] assms day_from_year_strict [of y "year_of_day n"] day_from_year_strict [of "year_of_day n" y]
  by (meson linorder_neqE not_le order_le_less_trans order_less_le_trans)

lemma month_walk_correct:
  assumes "month_walk ls r = (m, r')" "ls \<noteq> []" "0 \<le> r" "r < sum_list ls"
  shows "m < length ls \<and> 0 \<le> r' \<and> r' < ls ! m \<and> r = sum_list (take m ls) + r'"
  using assms
proof (induction ls r arbitrary: m r' rule: month_walk.induct)
  case (3 l l' ls r)
  then show ?case by (cases "month_walk (l' # ls) (r - l)") (auto split: if_splits)
qed auto

lemma month_walk_unique:
  assumes "m < length ls" "0 \<le> r'" "r' < ls ! m" "\<forall>l \<in> set ls. 0 \<le> l"
  shows "month_walk ls (sum_list (take m ls) + r') = (m, r')"
  using assms
proof (induction ls arbitrary: m rule: induct_list012)
  case (3 l l' ls)
  have "0 \<le> sum_list (take k ls')" if "\<forall>l \<in> set ls'. 0 \<le> l" for k and ls' :: "int list"
    using that by (intro sum_list_nonneg) (auto dest: in_set_takeD)
  from this [of "l' # ls"] 3 show ?case by (cases m) (auto simp: not_less)
qed auto

lemma sum_month_lengths: "sum_list (month_lengths y) = year_length y"
  by (simp add: month_lengths_def year_length_def)

lemma length_month_lengths [simp]: "length (month_lengths y) = 12"
  by (simp add: month_lengths_def)

text \<open>A date of the calendar, with the month counted from 0; \<open>Date.UTC\<close> reads its year as it is.\<close>

definition valid_date :: "int \<Rightarrow> int \<Rightarrow> int \<Rightarrow> bool" where
  "valid_date y m0 d \<longleftrightarrow> 100 \<le> y \<and> 0 \<le> m0 \<and> m0 < 12 \<and> 1 \<le> d \<and> d \<le> month_lengths y ! nat m0"

lemma civil_of_day_valid:
  assumes "civil_of_day n = (y, m0, d)"
  shows "0 \<le> m0 \<and> m0 < 12 \<and> 1 \<le> d \<and> d \<le> month_lengths y ! nat m0 \<and> n = day_from_year y + month_start y (nat m0) + d - 1 \<and> y = year_of_day n"
proof -
  obtain m r where w: "month_walk (month_lengths y) (n - day_from_year y) = (m, r)" and y: "y = year_of_day n" and d: "d = r + 1" "m0 = int m"
    using assms by (auto simp: civil_of_day_def Let_def split: prod.splits)
  have "0 \<le> n - day_from_year y" "n - day_from_year y < sum_list (month_lengths y)" "month_lengths y \<noteq> []"
    using year_of_day [of n] sum_month_lengths by (auto simp: y month_lengths_def)
  from month_walk_correct [OF w this(3,1,2)] show ?thesis by (simp add: d month_start_def y)
qed

lemma month_start_bounds:
  assumes "m0 < 12" "1 \<le> d" "d \<le> month_lengths y ! m0"
  shows "0 \<le> month_start y m0" "month_start y m0 + d - 1 < year_length y"
proof -
  have pos: "\<forall>l \<in> set (month_lengths y). 0 \<le> l" by (simp add: month_lengths_def)
  then show "0 \<le> month_start y m0" unfolding month_start_def by (intro sum_list_nonneg) (auto dest: in_set_takeD)
  have "sum_list (take m0 (month_lengths y)) + month_lengths y ! m0 = sum_list (take (Suc m0) (month_lengths y))"
    using assms(1) by (simp add: take_Suc_conv_app_nth)
  also have "\<dots> \<le> sum_list (take (Suc m0) (month_lengths y)) + sum_list (drop (Suc m0) (month_lengths y))"
    using pos by (simp, intro sum_list_nonneg) (auto dest: in_set_dropD)
  also have "\<dots> = year_length y" by (metis append_take_drop_id sum_list_append sum_month_lengths)
  finally show "month_start y m0 + d - 1 < year_length y" using assms(3) by (simp add: month_start_def)
qed

lemma utc_day_valid:
  "valid_date y m0 d \<Longrightarrow> utc_day y m0 d = day_from_year y + (month_start y (nat m0) + (d - 1))"
  by (auto simp: utc_day_def full_year_def valid_date_def Let_def)

lemma civil_of_utc_day:
  assumes "valid_date y m0 d"
  shows "civil_of_day (utc_day y m0 d) = (y, m0, d)"
proof -
  have v: "nat m0 < 12" "1 \<le> d" "d \<le> month_lengths y ! nat m0" "0 \<le> m0" using assms by (auto simp: valid_date_def)
  note e = utc_day_valid [OF assms]
  note b = month_start_bounds [OF v(1-3)]
  have "year_of_day (utc_day y m0 d) = y" unfolding e using b v(2) by (intro year_of_day_unique) auto
  moreover have "month_walk (month_lengths y) (month_start y (nat m0) + (d - 1)) = (nat m0, d - 1)"
    unfolding month_start_def using v by (intro month_walk_unique) (auto simp: month_lengths_def)
  ultimately show ?thesis using v(4) by (simp add: civil_of_day_def Let_def e)
qed

lemma utc_day_of_civil:
  assumes "civil_of_day n = (y, m0, d)" "100 \<le> y"
  shows "valid_date y m0 d \<and> utc_day y m0 d = n"
proof -
  note c = civil_of_day_valid [OF assms(1)]
  have "valid_date y m0 d" using c assms(2) unfolding valid_date_def by blast
  moreover have "n = day_from_year y + month_start y (nat m0) + d - 1" using c by blast
  ultimately show ?thesis using utc_day_valid by simp
qed

lemma year_of_day_mono: "n \<le> n' \<Longrightarrow> year_of_day n \<le> year_of_day n'"
  using year_of_day [of n] year_of_day [of n'] day_from_year_strict [of "year_of_day n'" "year_of_day n"]
  by (meson le_less_trans less_le_trans not_le)

lemma utc_day_next: "utc_day y m0 (d + 1) = utc_day y m0 d + 1"
  by (simp add: utc_day_def Let_def)

text \<open>The day after a date of the calendar, as the cron code computes it.\<close>

lemma next_date:
  assumes "valid_date y m0 d" "civil_of_day (utc_day y m0 (d + 1)) = (y', m0', d')"
  shows "valid_date y' m0' d' \<and> utc_day y' m0' d' = utc_day y m0 d + 1"
proof -
  have "year_of_day (utc_day y m0 d) \<le> year_of_day (utc_day y m0 d + 1)" by (rule year_of_day_mono) simp
  moreover have "year_of_day (utc_day y m0 d) = y" using civil_of_day_valid [OF civil_of_utc_day [OF assms(1)]] by metis
  moreover have "y' = year_of_day (utc_day y m0 d + 1)" using civil_of_day_valid [OF assms(2)] utc_day_next by metis
  ultimately have "100 \<le> y'" using assms(1) by (simp add: valid_date_def)
  from utc_day_of_civil [OF assms(2) this] show ?thesis by (simp add: utc_day_next)
qed

lemma year_of_day_1970: "0 \<le> n \<Longrightarrow> 1970 \<le> year_of_day n"
  using year_of_day_mono [of 0 n] year_of_day_unique [of 1970 0] by (simp add: day_from_year_1970)

lemma weekday_next: "weekday_of_day (n + 1) = (weekday_of_day n + 1) mod 7"
proof -
  have "(n + 1 + 4) mod 7 = ((n + 4) mod 7 + 1) mod 7" by (simp add: mod_simps algebra_simps)
  moreover have "0 \<le> (n + 4) mod 7" by simp
  ultimately show ?thesis unfolding weekday_of_day_def by (simp add: nat_mod_distrib nat_add_distrib)
qed

end
