(* ===== verification/Cron_Next.thy ===== *)
theory Cron_Next
  imports Cron_Expression Calendar
begin

text \<open>
  The next-fire calculation of \<open>packages/core/src/cron-expression.ts\<close>. The two
  \<open>Intl.DateTimeFormat\<close> objects of a time zone are arguments: functions from an epoch time to
  the parts (type and value) that \<open>formatToParts\<close> yields; \<open>intl\<close> gives them for the zones the
  runtime knows. A numeric part is a non-empty string of digits; any other value ends the
  calculation with an error in the model.
\<close>

section \<open>Time zones\<close>

type_synonym fmt_parts = "(string \<times> string) list"
type_synonym date_format = "epoch_ms \<Rightarrow> fmt_parts"

definition partOf :: "fmt_parts \<Rightarrow> string \<Rightarrow> (cron_error, int) result" where
  "partOf parts type =
     (case map_of parts type of
        None \<Rightarrow> Inl (MissingPart type)
      | Some v \<Rightarrow> if v = [] \<or> \<not> list_all is_digit v then Inl (MissingPart type) else Inr (int (read_nat v)))"

text \<open>The regular expression of an offset name: sign, hours and optional minutes.\<close>

definition OFFSET_RE :: "string \<Rightarrow> (char \<times> string \<times> string option) option" where
  "OFFSET_RE name =
     (let r = drop 4 name; h = takeWhile is_digit r; r' = dropWhile is_digit r
      in if take 3 name \<noteq> ''GMT'' \<or> length name < 4 \<or> (name ! 3 \<noteq> CHR ''+'' \<and> name ! 3 \<noteq> CHR ''-'')
         then None
         else if length h < 1 \<or> length h > 2 then None
         else if r' = [] then Some (name ! 3, h, None)
         else if hd r' = CHR '':'' \<and> length (tl r') = 2 \<and> list_all is_digit (tl r') then Some (name ! 3, h, Some (tl r'))
         else None)"

definition offsetMs :: "date_format \<Rightarrow> epoch_ms \<Rightarrow> (cron_error, int) result" where
  "offsetMs fmt epochMs =
     (let name = (case map_of (fmt epochMs) ''timeZoneName'' of Some v \<Rightarrow> v | None \<Rightarrow> ''GMT'')
      in if name = ''GMT'' \<or> name = ''UTC'' then Inr 0
         else (case OFFSET_RE name of
                 None \<Rightarrow> Inl (UnreadableOffset name)
               | Some (sg, h, mi) \<Rightarrow>
                   let sign = (if sg = CHR ''-'' then - 1 else 1)
                   in Inr (sign * (int (read_nat h) * 60 + (case mi of Some s \<Rightarrow> int (read_nat s) | None \<Rightarrow> 0)) * 60000)))"

text \<open>The conjunction of the source stops at the first part that differs.\<close>

fun parts_equal :: "fmt_parts \<Rightarrow> (string \<times> int) list \<Rightarrow> (cron_error, bool) result" where
  "parts_equal parts [] = Inr True"
| "parts_equal parts ((type, v) # rest) =
     result_bind (partOf parts type) (\<lambda>w. if w = v then parts_equal parts rest else Inr False)"

definition wallEquals :: "date_format \<Rightarrow> epoch_ms \<Rightarrow> int \<Rightarrow> int \<Rightarrow> int \<Rightarrow> int \<Rightarrow> int \<Rightarrow> (cron_error, bool) result" where
  "wallEquals fmt epochMs y m0 d h mi =
     parts_equal (fmt epochMs) [(''year'', y), (''month'', m0 + 1), (''day'', d), (''hour'', h), (''minute'', mi)]"

definition wallToEpoch :: "date_format \<Rightarrow> date_format \<Rightarrow> int \<Rightarrow> int \<Rightarrow> int \<Rightarrow> int \<Rightarrow> int \<Rightarrow> (cron_error, epoch_ms option) result" where
  "wallToEpoch wall offset y m0 d h mi =
     (let guess = Date_UTC y m0 d h mi
      in result_bind (offsetMs offset guess) (\<lambda>off.
           let cand = guess - off
           in result_bind (wallEquals wall cand y m0 d h mi) (\<lambda>eq.
                if eq then Inr (Some cand)
                else result_bind (offsetMs offset cand) (\<lambda>off'.
                  let cand' = guess - off'
                  in result_bind (wallEquals wall cand' y m0 d h mi) (\<lambda>eq'.
                       if eq' then Inr (Some cand') else Inr None)))))"

section \<open>The search\<close>

definition MAX_DAYS :: nat where
  "MAX_DAYS = 366"

definition day_matches :: "CronSchedule \<Rightarrow> int \<Rightarrow> int \<Rightarrow> nat \<Rightarrow> bool" where
  "day_matches sch m0 d weekday =
     (let monthMatches = m0 + 1 \<in> set (map int (cs_month sch));
          domAll = length (cs_dayOfMonth sch) = 31;
          dowAll = length (cs_dayOfWeek sch) = 7;
          dayMatches =
            (if domAll \<and> dowAll then True
             else if domAll then weekday \<in> set (cs_dayOfWeek sch)
             else if dowAll then d \<in> set (map int (cs_dayOfMonth sch))
             else d \<in> set (map int (cs_dayOfMonth sch)) \<or> weekday \<in> set (cs_dayOfWeek sch))
      in dayMatches \<and> monthMatches)"

text \<open>The two inner loops, over the pairs of hour and minute in their order.\<close>

fun try_times :: "date_format \<Rightarrow> date_format \<Rightarrow> epoch_ms \<Rightarrow> bool \<Rightarrow> int \<Rightarrow> int \<Rightarrow> int \<Rightarrow> int \<Rightarrow> int \<Rightarrow> (nat \<times> nat) list
    \<Rightarrow> (cron_error, epoch_ms option) result" where
  "try_times wall offset afterEpochMs first afterHour afterMinute y m0 d [] = Inr None"
| "try_times wall offset afterEpochMs first afterHour afterMinute y m0 d ((hh, mm) # rest) =
     (if first \<and> (int hh < afterHour \<or> int hh = afterHour \<and> int mm \<le> afterMinute)
      then try_times wall offset afterEpochMs first afterHour afterMinute y m0 d rest
      else result_bind (wallToEpoch wall offset y m0 d (int hh) (int mm)) (\<lambda>cand.
        case cand of
          Some c \<Rightarrow> if c > afterEpochMs then Inr (Some c)
                    else try_times wall offset afterEpochMs first afterHour afterMinute y m0 d rest
        | None \<Rightarrow> try_times wall offset afterEpochMs first afterHour afterMinute y m0 d rest))"

definition day_times :: "CronSchedule \<Rightarrow> (nat \<times> nat) list" where
  "day_times sch = concat (map (\<lambda>hh. map (\<lambda>mm. (hh, mm)) (cs_minute sch)) (cs_hour sch))"

text \<open>The loop over the days; the first argument counts the days left.\<close>

fun day_loop :: "nat \<Rightarrow> date_format \<Rightarrow> date_format \<Rightarrow> CronSchedule \<Rightarrow> epoch_ms \<Rightarrow> int \<Rightarrow> int \<Rightarrow> bool \<Rightarrow> int \<Rightarrow> int \<Rightarrow> int \<Rightarrow> nat
    \<Rightarrow> (cron_error, epoch_ms) result" where
  "day_loop 0 wall offset sch afterEpochMs afterHour afterMinute first y m0 d weekday = Inl NeverMatches"
| "day_loop (Suc n) wall offset sch afterEpochMs afterHour afterMinute first y m0 d weekday =
     result_bind
       (if day_matches sch m0 d weekday
        then try_times wall offset afterEpochMs first afterHour afterMinute y m0 d (day_times sch)
        else Inr None)
       (\<lambda>found. case found of
          Some t \<Rightarrow> Inr t
        | None \<Rightarrow>
            (case civil_of_day (utc_day y m0 (d + 1)) of
               (y', m0', d') \<Rightarrow> day_loop n wall offset sch afterEpochMs afterHour afterMinute False y' m0' d' ((weekday + 1) mod 7)))"

definition nextRunAfter :: "(string \<Rightarrow> (date_format \<times> date_format) option) \<Rightarrow> CronSchedule \<Rightarrow> epoch_ms \<Rightarrow> string
    \<Rightarrow> (cron_error, epoch_ms) result" where
  "nextRunAfter intl sch afterEpochMs timezone =
     (case intl timezone of
        None \<Rightarrow> Inl (InvalidTimezone timezone)
      | Some (wall, offset) \<Rightarrow>
          let start = wall afterEpochMs
          in result_bind (partOf start ''year'') (\<lambda>y.
             result_bind (partOf start ''month'') (\<lambda>m.
             result_bind (partOf start ''day'') (\<lambda>d.
             result_bind (partOf start ''hour'') (\<lambda>afterHour.
             result_bind (partOf start ''minute'') (\<lambda>afterMinute.
               day_loop MAX_DAYS wall offset sch afterEpochMs afterHour afterMinute True y (m - 1) d
                 (weekday_of_day (utc_day y (m - 1) d))))))))"

section \<open>Every result matches the schedule\<close>

lemma wallToEpoch_wall: "wallToEpoch wall offset y m0 d h mi = Inr (Some t) \<Longrightarrow> wallEquals wall t y m0 d h mi = Inr True"
  by (auto simp: wallToEpoch_def Let_def result_bind_Inr_iff split: if_splits)

lemma try_times_sound:
  "try_times wall offset after first ah am y m0 d ts = Inr (Some t) \<Longrightarrow>
   t > after \<and> (\<exists>(hh, mm) \<in> set ts. wallEquals wall t y m0 d (int hh) (int mm) = Inr True)"
proof (induction ts)
  case (Cons hm ts)
  obtain hh mm where hm: "hm = (hh, mm)" by (cases hm)
  show ?case
  proof (cases "wallToEpoch wall offset y m0 d (int hh) (int mm) = Inr (Some t)")
    case True
    with Cons hm show ?thesis using wallToEpoch_wall [OF True]
      by (auto split: if_splits)
  next
    case False
    with Cons hm show ?thesis by (auto simp: result_bind_Inr_iff split: if_splits option.splits)
  qed
qed simp

lemma set_day_times: "set (day_times sch) = set (cs_hour sch) \<times> set (cs_minute sch)"
  by (auto simp: day_times_def)

text \<open>A fire time of the schedule by the wall clock of a formatter.\<close>

definition fires_at :: "date_format \<Rightarrow> CronSchedule \<Rightarrow> epoch_ms \<Rightarrow> bool" where
  "fires_at wall sch t \<longleftrightarrow>
     (\<exists>y m0 d hh mm. valid_date y m0 d \<and> hh \<in> set (cs_hour sch) \<and> mm \<in> set (cs_minute sch) \<and>
        day_matches sch m0 d (weekday_of_day (utc_day y m0 d)) \<and> wallEquals wall t y m0 d (int hh) (int mm) = Inr True)"

lemma day_loop_sound:
  assumes "day_loop n wall offset sch after ah am first y m0 d wd = Inr t"
    and "valid_date y m0 d" and "wd = weekday_of_day (utc_day y m0 d)"
  shows "t > after \<and> fires_at wall sch t"
  using assms
proof (induction n arbitrary: first y m0 d wd)
  case (Suc n)
  obtain y' m0' d' where c: "civil_of_day (utc_day y m0 (d + 1)) = (y', m0', d')" by (cases "civil_of_day (utc_day y m0 (d + 1))")
  consider "day_matches sch m0 d wd" "try_times wall offset after first ah am y m0 d (day_times sch) = Inr (Some t)"
    | "day_loop n wall offset sch after ah am False y' m0' d' ((wd + 1) mod 7) = Inr t"
    using Suc.prems(1) by (auto simp: result_bind_Inr_iff c split: if_splits option.splits)
  then show ?case
  proof cases
    case 1
    then obtain hh mm where "t > after" "hh \<in> set (cs_hour sch)" "mm \<in> set (cs_minute sch)"
      "wallEquals wall t y m0 d (int hh) (int mm) = Inr True"
      using try_times_sound [OF 1(2)] by (auto simp: set_day_times)
    then show ?thesis using 1(1) Suc.prems unfolding fires_at_def by blast
  next
    case 2
    have "(wd + 1) mod 7 = weekday_of_day (utc_day y' m0' d')"
      using next_date [OF Suc.prems(2) c] Suc.prems(3) by (simp add: weekday_next)
    then show ?thesis using Suc.IH [OF 2] next_date [OF Suc.prems(2) c] by simp
  qed
qed simp

lemma nextRunAfter_Inr:
  assumes "nextRunAfter intl sch after tz = Inr t"
  obtains wall offset y m d ah am where "intl tz = Some (wall, offset)"
    "partOf (wall after) ''year'' = Inr y" "partOf (wall after) ''month'' = Inr m" "partOf (wall after) ''day'' = Inr d"
    "day_loop MAX_DAYS wall offset sch after ah am True y (m - 1) d (weekday_of_day (utc_day y (m - 1) d)) = Inr t"
  using assms by (auto simp: nextRunAfter_def Let_def result_bind_Inr_iff split: option.splits)

text \<open>The date a formatter shows is a date of the calendar.\<close>

definition shows_date :: "date_format \<Rightarrow> epoch_ms \<Rightarrow> bool" where
  "shows_date wall t \<longleftrightarrow>
     (\<exists>y m d. partOf (wall t) ''year'' = Inr y \<and> partOf (wall t) ''month'' = Inr m \<and> partOf (wall t) ''day'' = Inr d \<and> valid_date y (m - 1) d)"

lemma nextRunAfter_sound:
  assumes "nextRunAfter intl sch after tz = Inr t" "intl tz = Some (wall, offset)" "shows_date wall after"
  shows "t > after \<and> fires_at wall sch t"
proof -
  obtain y m d ah am where "partOf (wall after) ''year'' = Inr y" "partOf (wall after) ''month'' = Inr m" "partOf (wall after) ''day'' = Inr d"
    and l: "day_loop MAX_DAYS wall offset sch after ah am True y (m - 1) d (weekday_of_day (utc_day y (m - 1) d)) = Inr t"
    using nextRunAfter_Inr [OF assms(1)] assms(2) by (metis Pair_inject option.inject)
  moreover from this have "valid_date y (m - 1) d" using assms(3) by (auto simp: shows_date_def)
  ultimately show ?thesis using day_loop_sound [OF l] by blast
qed

section \<open>Zones with a fixed offset\<close>

text \<open>
  The wall clock of a local time (epoch milliseconds plus the offset of the zone), and the
  specification of a fire time: a full minute whose date and time match the schedule.
\<close>

definition local_wall :: "int \<Rightarrow> int \<times> int \<times> int \<times> int \<times> int" where
  "local_wall l =
     (let (y, m0, d) = civil_of_day (l div MS_PER_DAY); r = l mod MS_PER_DAY
      in (y, m0, d, r div 3600000, r mod 3600000 div 60000))"

definition cron_fires :: "CronSchedule \<Rightarrow> int \<Rightarrow> bool" where
  "cron_fires sch l \<longleftrightarrow>
     (case local_wall l of
        (y, m0, d, h, mi) \<Rightarrow>
          l mod 60000 = 0 \<and> h \<in> set (map int (cs_hour sch)) \<and> mi \<in> set (map int (cs_minute sch)) \<and>
          day_matches sch m0 d (weekday_of_day (l div MS_PER_DAY)))"

text \<open>A zone whose offset never changes, as the two formatters show it from the local epoch on.\<close>

definition fixed_zone :: "date_format \<Rightarrow> date_format \<Rightarrow> int \<Rightarrow> bool" where
  "fixed_zone wall offset off \<longleftrightarrow>
     (\<forall>t. offsetMs offset t = Inr off) \<and>
     (\<forall>t. t + off \<ge> 0 \<longrightarrow>
        (case local_wall (t + off) of
           (y, m0, d, h, mi) \<Rightarrow>
             partOf (wall t) ''year'' = Inr y \<and> partOf (wall t) ''month'' = Inr (m0 + 1) \<and> partOf (wall t) ''day'' = Inr d \<and>
             partOf (wall t) ''hour'' = Inr h \<and> partOf (wall t) ''minute'' = Inr mi))"

text \<open>The fields of a parsed expression.\<close>

definition schedule_ok :: "CronSchedule \<Rightarrow> bool" where
  "schedule_ok sch \<longleftrightarrow>
     sorted (cs_hour sch) \<and> distinct (cs_hour sch) \<and> sorted (cs_minute sch) \<and> set (cs_hour sch) \<subseteq> {0..23} \<and> set (cs_minute sch) \<subseteq> {0..59}"

definition day_ms :: "nat \<times> nat \<Rightarrow> int" where
  "day_ms hm = int (fst hm) * 3600000 + int (snd hm) * 60000"

lemma day_ms_bounds: "hh \<le> 23 \<Longrightarrow> mm \<le> 59 \<Longrightarrow> 0 \<le> day_ms (hh, mm) \<and> day_ms (hh, mm) < MS_PER_DAY"
  by (simp add: day_ms_def MS_PER_DAY_def)

lemma local_wall_time:
  assumes "hh \<le> 23" "mm \<le> 59"
  shows "local_wall (n * MS_PER_DAY + day_ms (hh, mm)) =
    (case civil_of_day n of (y, m0, d) \<Rightarrow> (y, m0, d, int hh, int mm))"
proof -
  have b: "0 \<le> day_ms (hh, mm)" "day_ms (hh, mm) < MS_PER_DAY" using day_ms_bounds [OF assms] by simp_all
  have e: "n * MS_PER_DAY + day_ms (hh, mm) = MS_PER_DAY * n + day_ms (hh, mm)" by simp
  have dm: "(n * MS_PER_DAY + day_ms (hh, mm)) div MS_PER_DAY = n" "(n * MS_PER_DAY + day_ms (hh, mm)) mod MS_PER_DAY = day_ms (hh, mm)"
    by (rule int_div_pos_eq [OF e b], rule int_mod_pos_eq [OF e b])
  have "day_ms (hh, mm) div 3600000 = int hh" "day_ms (hh, mm) mod 3600000 = int mm * 60000"
    using assms by (auto simp: day_ms_def intro!: int_div_pos_eq int_mod_pos_eq)
  then show ?thesis unfolding local_wall_def dm Let_def by (simp split: prod.splits)
qed

lemma local_day: "hh \<le> 23 \<Longrightarrow> mm \<le> 59 \<Longrightarrow> (n * MS_PER_DAY + day_ms (hh, mm)) div MS_PER_DAY = n"
  using day_ms_bounds [of hh mm] int_div_pos_eq [of "n * MS_PER_DAY + day_ms (hh, mm)" MS_PER_DAY n "day_ms (hh, mm)"] by simp

lemma local_minute: "(n * MS_PER_DAY + day_ms hm) mod 60000 = 0"
proof -
  have "n * MS_PER_DAY + day_ms hm = 60000 * (n * 1440 + int (fst hm) * 60 + int (snd hm))"
    by (simp add: MS_PER_DAY_def day_ms_def)
  then show ?thesis by simp
qed

text \<open>The full minutes of a day that match, as the candidates of the day's loops.\<close>

lemma cron_fires_iff:
  assumes "schedule_ok sch" "civil_of_day n = (y, m0, d)"
  shows "cron_fires sch l \<and> l div MS_PER_DAY = n \<longleftrightarrow>
    day_matches sch m0 d (weekday_of_day n) \<and> l \<in> (\<lambda>hm. n * MS_PER_DAY + day_ms hm) ` set (day_times sch)"
proof
  assume f: "cron_fires sch l \<and> l div MS_PER_DAY = n"
  define r where "r = l mod MS_PER_DAY"
  obtain hh mm where hm: "hh \<in> set (cs_hour sch)" "mm \<in> set (cs_minute sch)" "r div 3600000 = int hh" "r mod 3600000 div 60000 = int mm"
    and m: "day_matches sch m0 d (weekday_of_day n)" "l mod 60000 = 0"
    using f assms(2) by (auto simp: cron_fires_def local_wall_def r_def Let_def)
  have "l = n * MS_PER_DAY + r" using f by (auto simp: r_def)
  moreover have "r mod 60000 = 0" using m(2) calculation by (simp add: MS_PER_DAY_def mod_add_eq [symmetric])
  moreover have "r = day_ms (hh, mm)"
  proof -
    have "r = int hh * 3600000 + r mod 3600000" using hm(3) div_mult_mod_eq [of r 3600000] by simp
    moreover have "r mod 3600000 mod 60000 = 0" using \<open>r mod 60000 = 0\<close> by (simp add: mod_mod_cancel)
    then have "r mod 3600000 = int mm * 60000" using hm(4) div_mult_mod_eq [of "r mod 3600000" 60000] by simp
    ultimately show ?thesis by (simp add: day_ms_def)
  qed
  ultimately show "day_matches sch m0 d (weekday_of_day n) \<and> l \<in> (\<lambda>hm. n * MS_PER_DAY + day_ms hm) ` set (day_times sch)"
    using hm m by (auto simp: set_day_times)
next
  assume "day_matches sch m0 d (weekday_of_day n) \<and> l \<in> (\<lambda>hm. n * MS_PER_DAY + day_ms hm) ` set (day_times sch)"
  then obtain hh mm where l: "l = n * MS_PER_DAY + day_ms (hh, mm)" "hh \<in> set (cs_hour sch)" "mm \<in> set (cs_minute sch)"
    and m: "day_matches sch m0 d (weekday_of_day n)" by (auto simp: set_day_times)
  moreover have "hh \<le> 23" "mm \<le> 59" using l assms(1) by (auto simp: schedule_ok_def)
  ultimately show "cron_fires sch l \<and> l div MS_PER_DAY = n"
    using assms(2) by (simp add: cron_fires_def local_wall_time local_day local_minute)
qed

lemma wallToEpoch_fixed:
  assumes z: "fixed_zone wall offset off" and v: "valid_date y m0 d" "civil_of_day n = (y, m0, d)" "utc_day y m0 d = n"
    and hm: "hh \<le> 23" "mm \<le> 59" and n: "0 \<le> n"
  shows "wallToEpoch wall offset y m0 d (int hh) (int mm) = Inr (Some (n * MS_PER_DAY + day_ms (hh, mm) - off))"
proof -
  have g: "Date_UTC y m0 d (int hh) (int mm) = n * MS_PER_DAY + day_ms (hh, mm)"
    by (simp add: Date_UTC_def v(3) day_ms_def)
  have "0 \<le> n * MS_PER_DAY + day_ms (hh, mm)" using n day_ms_bounds [OF hm] by (simp add: MS_PER_DAY_def)
  then have "wallEquals wall (n * MS_PER_DAY + day_ms (hh, mm) - off) y m0 d (int hh) (int mm) = Inr True"
    using z local_wall_time [OF hm, of n] v(2) unfolding fixed_zone_def wallEquals_def
    by (auto dest!: spec [of _ "n * MS_PER_DAY + day_ms (hh, mm) - off"])
  then show ?thesis using z by (simp add: wallToEpoch_def g fixed_zone_def)
qed

text \<open>In a fixed zone the inner loops find the first candidate after the given time.\<close>

lemma try_times_fixed:
  assumes z: "fixed_zone wall offset off" and v: "valid_date y m0 d" "civil_of_day n = (y, m0, d)" "utc_day y m0 d = n" "0 \<le> n"
    and b: "\<forall>(hh, mm) \<in> set ts. hh \<le> 23 \<and> mm \<le> 59"
    and skip: "\<And>hh mm. (hh, mm) \<in> set ts \<Longrightarrow> first \<Longrightarrow> int hh < ah \<or> int hh = ah \<and> int mm \<le> am \<Longrightarrow> n * MS_PER_DAY + day_ms (hh, mm) - off \<le> after"
  shows "try_times wall offset after first ah am y m0 d ts = Inr (find (\<lambda>t. t > after) (map (\<lambda>hm. n * MS_PER_DAY + day_ms hm - off) ts))"
  using b skip
proof (induction ts)
  case (Cons hm ts)
  obtain hh mm where hm: "hm = (hh, mm)" by (cases hm)
  have IH: "try_times wall offset after first ah am y m0 d ts = Inr (find (\<lambda>t. t > after) (map (\<lambda>hm. n * MS_PER_DAY + day_ms hm - off) ts))"
    using Cons by auto
  have "wallToEpoch wall offset y m0 d (int hh) (int mm) = Inr (Some (n * MS_PER_DAY + day_ms (hh, mm) - off))"
    using Cons.prems(1) hm by (intro wallToEpoch_fixed [OF z v(1-3) _ _ v(4)]) auto
  then show ?case using IH Cons.prems(2) [of hh mm] by (auto simp: hm)
qed simp

lemma sorted_times:
  fixes hs ms :: "nat list"
  assumes "sorted hs" "distinct hs" "sorted ms" "set ms \<subseteq> {0..59}"
  shows "sorted (concat (map (\<lambda>hh. map (\<lambda>mm. day_ms (hh, mm)) ms) hs))"
  using assms
proof (induction hs)
  case (Cons h hs)
  have "sorted (map (\<lambda>mm. day_ms (h, mm)) ms)"
    using Cons.prems(3) by (induction ms) (auto simp: day_ms_def)
  moreover have "day_ms (h, a) \<le> day_ms (h', b)" if "h' \<in> set hs" "a \<in> set ms" for h' a b
  proof -
    have "h < h'" using Cons.prems that(1) by (metis distinct.simps(2) le_neq_implies_less sorted_simps(2))
    moreover have "a \<le> 59" using that(2) Cons.prems(4) by auto
    ultimately show ?thesis by (simp add: day_ms_def)
  qed
  ultimately show ?case using Cons by (auto simp: sorted_append)
qed simp

lemma sorted_day_times: "schedule_ok sch \<Longrightarrow> sorted (map day_ms (day_times sch))"
  using sorted_times [of "cs_hour sch" "cs_minute sch"]
  by (simp add: schedule_ok_def day_times_def map_concat comp_def)

lemma find_sorted_least:
  "sorted xs \<Longrightarrow> find (\<lambda>t. t > a) xs = Some x \<Longrightarrow> y \<in> set xs \<Longrightarrow> y > a \<Longrightarrow> (x :: int) \<le> y"
  by (induction xs) (auto split: if_splits)

lemma find_SomeD: "find P xs = Some x \<Longrightarrow> x \<in> set xs \<and> P x"
  by (induction xs) (auto split: if_splits)

lemma find_NoneD: "find P xs = None \<Longrightarrow> x \<in> set xs \<Longrightarrow> \<not> P x"
  by (induction xs) (auto split: if_splits)

text \<open>One day of the loop against the specification.\<close>

lemma day_search_fixed:
  assumes z: "fixed_zone wall offset off" and s: "schedule_ok sch"
    and c: "civil_of_day n = (y, m0, d)" and n: "0 \<le> n"
    and skip: "\<And>hh mm. (hh, mm) \<in> set (day_times sch) \<Longrightarrow> first \<Longrightarrow> int hh < ah \<or> int hh = ah \<and> int mm \<le> am \<Longrightarrow>
      n * MS_PER_DAY + day_ms (hh, mm) - off \<le> after"
  shows "\<exists>found. (if day_matches sch m0 d (weekday_of_day n) then try_times wall offset after first ah am y m0 d (day_times sch) else Inr None) = Inr found \<and>
    (case found of
       Some t \<Rightarrow> t > after \<and> cron_fires sch (t + off) \<and> (t + off) div MS_PER_DAY = n \<and>
         (\<forall>t'. t' > after \<and> cron_fires sch (t' + off) \<and> (t' + off) div MS_PER_DAY = n \<longrightarrow> t \<le> t')
     | None \<Rightarrow> (\<forall>t'. t' > after \<and> cron_fires sch (t' + off) \<longrightarrow> (t' + off) div MS_PER_DAY \<noteq> n))"
proof (cases "day_matches sch m0 d (weekday_of_day n)")
  case True
  let ?cands = "map (\<lambda>hm. n * MS_PER_DAY + day_ms hm - off) (day_times sch)"
  have y: "100 \<le> y" using year_of_day_1970 [OF n] civil_of_day_valid [OF c] by linarith
  have "\<forall>(hh, mm) \<in> set (day_times sch). hh \<le> 23 \<and> mm \<le> 59" using s by (auto simp: set_day_times schedule_ok_def)
  then have t: "try_times wall offset after first ah am y m0 d (day_times sch) = Inr (find (\<lambda>t. t > after) ?cands)"
    using utc_day_of_civil [OF c y] by (intro try_times_fixed [OF z _ c _ n]) (use skip in auto)
  have in_day: "cron_fires sch (t + off) \<and> (t + off) div MS_PER_DAY = n \<longleftrightarrow> t \<in> set ?cands" for t
    unfolding cron_fires_iff [OF s c] using True by (auto simp: algebra_simps)
  have srt: "sorted ?cands"
  proof -
    have "?cands = map (\<lambda>x. n * MS_PER_DAY + x - off) (map day_ms (day_times sch))" by simp
    moreover have "sorted xs \<Longrightarrow> sorted (map (\<lambda>x. k + x - off) xs)" for k and xs :: "int list" by (induction xs) auto
    ultimately show ?thesis using sorted_day_times [OF s] by metis
  qed
  show ?thesis
  proof (cases "find (\<lambda>t. t > after) ?cands")
    case None
    then show ?thesis using True t in_day find_NoneD [OF None] by auto
  next
    case (Some x)
    then show ?thesis using True t in_day find_SomeD [OF Some] find_sorted_least [OF srt Some] by auto
  qed
next
  case False
  then show ?thesis using cron_fires_iff [OF s c] by auto
qed

lemma day_loop_fixed:
  assumes z: "fixed_zone wall offset off" and s: "schedule_ok sch"
    and "civil_of_day n = (y, m0, d)" "0 \<le> n" "wd = weekday_of_day n"
    and "\<And>hh mm. (hh, mm) \<in> set (day_times sch) \<Longrightarrow> first \<Longrightarrow> int hh < ah \<or> int hh = ah \<and> int mm \<le> am \<Longrightarrow>
      n * MS_PER_DAY + day_ms (hh, mm) - off \<le> after"
  shows "case day_loop k wall offset sch after ah am first y m0 d wd of
      Inr t \<Rightarrow> t > after \<and> cron_fires sch (t + off) \<and>
        (\<forall>t'. t' > after \<and> cron_fires sch (t' + off) \<and> n \<le> (t' + off) div MS_PER_DAY \<longrightarrow> t \<le> t')
    | Inl e \<Rightarrow> e = NeverMatches \<and>
        (\<forall>t'. t' > after \<and> cron_fires sch (t' + off) \<and> n \<le> (t' + off) div MS_PER_DAY \<longrightarrow> n + int k \<le> (t' + off) div MS_PER_DAY)"
  using assms(3-6)
proof (induction k arbitrary: n y m0 d wd first)
  case (Suc k)
  obtain found where f: "(if day_matches sch m0 d wd then try_times wall offset after first ah am y m0 d (day_times sch) else Inr None) = Inr found"
    and spec: "case found of
       Some t \<Rightarrow> t > after \<and> cron_fires sch (t + off) \<and> (t + off) div MS_PER_DAY = n \<and>
         (\<forall>t'. t' > after \<and> cron_fires sch (t' + off) \<and> (t' + off) div MS_PER_DAY = n \<longrightarrow> t \<le> t')
     | None \<Rightarrow> (\<forall>t'. t' > after \<and> cron_fires sch (t' + off) \<longrightarrow> (t' + off) div MS_PER_DAY \<noteq> n)"
    using day_search_fixed [OF z s Suc.prems(1,2,4)] Suc.prems(3) by blast
  show ?case
  proof (cases found)
    case (Some t)
    have "t \<le> t'" if "n \<le> (t' + off) div MS_PER_DAY" "(t' + off) div MS_PER_DAY \<noteq> n" "(t + off) div MS_PER_DAY = n" for t'
    proof -
      have "\<not> t' + off \<le> t + off" using that zdiv_mono1 [of "t' + off" "t + off" MS_PER_DAY] by (auto simp: MS_PER_DAY_def)
      then show ?thesis by simp
    qed
    then have "t > after \<and> cron_fires sch (t + off) \<and>
        (\<forall>t'. t' > after \<and> cron_fires sch (t' + off) \<and> n \<le> (t' + off) div MS_PER_DAY \<longrightarrow> t \<le> t')"
      using spec Some by auto
    then show ?thesis unfolding day_loop.simps f Some result_bind.simps option.case sum.case .
  next
    case None
    have y: "100 \<le> y" using year_of_day_1970 [OF Suc.prems(2)] civil_of_day_valid [OF Suc.prems(1)] by linarith
    obtain y' m0' d' where c: "civil_of_day (n + 1) = (y', m0', d')" by (cases "civil_of_day (n + 1)")
    then have c': "civil_of_day (utc_day y m0 (d + 1)) = (y', m0', d')"
      using utc_day_of_civil [OF Suc.prems(1) y] by (simp add: utc_day_next)
    have loop: "day_loop (Suc k) wall offset sch after ah am first y m0 d wd =
        day_loop k wall offset sch after ah am False y' m0' d' ((wd + 1) mod 7)"
      by (simp only: day_loop.simps f None result_bind.simps option.case c' prod.case)
    have "(wd + 1) mod 7 = weekday_of_day (n + 1)" using Suc.prems(3) by (simp add: weekday_next)
    note IH = Suc.IH [OF c _ this, of False]
    have later: "n + 1 \<le> (t' + off) div MS_PER_DAY"
      if "t' > after" "cron_fires sch (t' + off)" "n \<le> (t' + off) div MS_PER_DAY" for t'
    proof -
      have "(t' + off) div MS_PER_DAY \<noteq> n" using that spec None by simp
      with that(3) show ?thesis by linarith
    qed
    have k: "n + int (Suc k) = n + 1 + int k" by simp
    from IH Suc.prems(2) have IH': "case day_loop k wall offset sch after ah am False y' m0' d' ((wd + 1) mod 7) of
        Inr t \<Rightarrow> t > after \<and> cron_fires sch (t + off) \<and>
          (\<forall>t'. t' > after \<and> cron_fires sch (t' + off) \<and> n + 1 \<le> (t' + off) div MS_PER_DAY \<longrightarrow> t \<le> t')
      | Inl e \<Rightarrow> e = NeverMatches \<and>
          (\<forall>t'. t' > after \<and> cron_fires sch (t' + off) \<and> n + 1 \<le> (t' + off) div MS_PER_DAY \<longrightarrow> n + 1 + int k \<le> (t' + off) div MS_PER_DAY)"
      by simp
    show ?thesis
    proof (cases "day_loop k wall offset sch after ah am False y' m0' d' ((wd + 1) mod 7)")
      case (Inl e)
      show ?thesis using IH' unfolding loop Inl sum.case k using later by blast
    next
      case (Inr t)
      show ?thesis using IH' unfolding loop Inr sum.case using later by blast
    qed
  qed
qed simp

lemma parsed_schedule_ok: "parseCronExpression expr = Inr sch \<Longrightarrow> schedule_ok sch"
  using parsed_fields [of expr sch] by (auto simp: schedule_ok_def)

lemma first_day_skip:
  assumes l: "local_wall l = (y, m0, d, ah, am)" and "int hh < ah \<or> int hh = ah \<and> int mm \<le> am" "mm \<le> 59"
  shows "l div MS_PER_DAY * MS_PER_DAY + day_ms (hh, mm) \<le> l"
proof -
  define r where "r = l mod MS_PER_DAY"
  have h: "ah = r div 3600000" "am = r mod 3600000 div 60000" using l by (auto simp: local_wall_def r_def Let_def split: prod.splits)
  have "r div 3600000 * 3600000 + r mod 3600000 = r" by (rule div_mult_mod_eq)
  moreover have "r mod 3600000 div 60000 * 60000 + r mod 3600000 mod 60000 = r mod 3600000" by (rule div_mult_mod_eq)
  moreover have "0 \<le> r mod 3600000 mod 60000" by simp
  ultimately have "ah * 3600000 + am * 60000 \<le> r" unfolding h by linarith
  moreover have "0 \<le> am" unfolding h by (simp add: pos_imp_zdiv_nonneg_iff)
  moreover have "day_ms (hh, mm) \<le> ah * 3600000 + am * 60000" using assms(2,3) \<open>0 \<le> am\<close> by (auto simp: day_ms_def)
  moreover have "l = l div MS_PER_DAY * MS_PER_DAY + r" by (simp add: r_def)
  ultimately show ?thesis by linarith
qed

lemma nextRunAfter_fixed:
  assumes "parseCronExpression expr = Inr sch" and "intl tz = Some (wall, offset)"
    and "fixed_zone wall offset off" and "0 \<le> after + off"
  shows "case nextRunAfter intl sch after tz of
      Inr t \<Rightarrow> after < t \<and> cron_fires sch (t + off) \<and> \<not> (\<exists>t'. after < t' \<and> t' < t \<and> cron_fires sch (t' + off))
    | Inl e \<Rightarrow> e = NeverMatches \<and>
        \<not> (\<exists>t'. after < t' \<and> cron_fires sch (t' + off) \<and> (t' + off) div MS_PER_DAY < (after + off) div MS_PER_DAY + 366)"
proof -
  let ?n = "(after + off) div MS_PER_DAY"
  note s = parsed_schedule_ok [OF assms(1)]
  obtain y m0 d ah am where w: "local_wall (after + off) = (y, m0, d, ah, am)" by (cases "local_wall (after + off)")
  then have c: "civil_of_day ?n = (y, m0, d)" by (auto simp: local_wall_def Let_def split: prod.splits)
  have n: "0 \<le> ?n" using assms(4) by (simp add: MS_PER_DAY_def pos_imp_zdiv_nonneg_iff)
  have "partOf (wall after) ''year'' = Inr y" "partOf (wall after) ''month'' = Inr (m0 + 1)" "partOf (wall after) ''day'' = Inr d"
    "partOf (wall after) ''hour'' = Inr ah" "partOf (wall after) ''minute'' = Inr am"
    using assms(3,4) w by (auto simp: fixed_zone_def dest!: spec [of _ after])
  moreover have "utc_day y m0 d = ?n"
    using utc_day_of_civil [OF c] year_of_day_1970 [OF n] civil_of_day_valid [OF c] by linarith
  ultimately have loop: "nextRunAfter intl sch after tz = day_loop MAX_DAYS wall offset sch after ah am True y m0 d (weekday_of_day ?n)"
    using assms(2) by (simp add: nextRunAfter_def)
  have skip: "?n * MS_PER_DAY + day_ms (hh, mm) - off \<le> after"
    if "(hh, mm) \<in> set (day_times sch)" "int hh < ah \<or> int hh = ah \<and> int mm \<le> am" for hh mm
    using first_day_skip [OF w that(2)] that(1) s by (force simp: set_day_times schedule_ok_def)
  have day: "after < t' \<Longrightarrow> ?n \<le> (t' + off) div MS_PER_DAY" for t'
    by (rule zdiv_mono1) (simp_all add: MS_PER_DAY_def)
  show ?thesis unfolding loop
    using day_loop_fixed [OF assms(3) s c n refl skip, where k = MAX_DAYS] day
    by (fastforce simp: MAX_DAYS_def split: sum.splits)
qed

lemma fixed_zone_result:
  assumes "parseCronExpression expr = Inr sch" and "intl tz = Some (wall, offset)"
    and "fixed_zone wall offset off" and "0 \<le> after + off"
    and "after < t'" "cron_fires sch (t' + off)" "(t' + off) div MS_PER_DAY < (after + off) div MS_PER_DAY + 366"
  shows "\<exists>t. nextRunAfter intl sch after tz = Inr t"
  using nextRunAfter_fixed [where intl = intl and tz = tz, OF assms(1-4)] assms(5-7) by (cases "nextRunAfter intl sch after tz") auto

section \<open>Properties of the calculation\<close>

text \<open>
  C28. In a zone with a fixed offset (UTC for one) the calculation returns the earliest full
  minute strictly after the given time whose local date and time match the parsed expression,
  by the calendar and with the rule that day of month and day of week are alternatives when
  both are restricted; it fails only when no such minute lies within the next 366 days.\<close>

theorem nextRunAfter_earliest:
  assumes "parseCronExpression expr = Inr sch" and "intl tz = Some (wall, offset)"
    and "fixed_zone wall offset off" and "0 \<le> after + off"
  shows "case nextRunAfter intl sch after tz of
      Inr t \<Rightarrow> after < t \<and> cron_fires sch (t + off) \<and> \<not> (\<exists>t'. after < t' \<and> t' < t \<and> cron_fires sch (t' + off))
    | Inl e \<Rightarrow> e = NeverMatches \<and>
        \<not> (\<exists>t'. after < t' \<and> cron_fires sch (t' + off) \<and> (t' + off) div MS_PER_DAY < (after + off) div MS_PER_DAY + 366)"
  by (rule nextRunAfter_fixed [where intl = intl and tz = tz, OF assms])

text \<open>The formatters of UTC, and the zones a runtime with UTC only knows.\<close>

definition utc_wall :: date_format where
  "utc_wall t =
     (case local_wall t of
        (y, m0, d, h, mi) \<Rightarrow>
          [(''month'', show_nat (nat (m0 + 1))), (''day'', show_nat (nat d)), (''year'', show_nat (nat y)),
           (''hour'', show_nat (nat h)), (''minute'', show_nat (nat mi))])"

definition utc_offset :: date_format where
  "utc_offset t = [(''timeZoneName'', ''GMT'')]"

definition utc_only :: "string \<Rightarrow> (date_format \<times> date_format) option" where
  "utc_only tz = (if tz = ''UTC'' then Some (utc_wall, utc_offset) else None)"

lemma partOf_show: "map_of parts type = Some (show_nat n) \<Longrightarrow> partOf parts type = Inr (int n)"
  using show_nat_digits [of n] by (auto simp: partOf_def list_all_iff)

lemma fixed_zone_utc: "fixed_zone utc_wall utc_offset 0"
proof -
  have "0 \<le> h \<and> 0 \<le> mi \<and> 0 \<le> y \<and> 0 \<le> m0 \<and> 0 \<le> d" if "local_wall t = (y, m0, d, h, mi)" "0 \<le> t" for t y m0 d h mi
  proof -
    have c: "civil_of_day (t div MS_PER_DAY) = (y, m0, d)" and "h = t mod MS_PER_DAY div 3600000" "mi = t mod MS_PER_DAY mod 3600000 div 60000"
      using that(1) by (auto simp: local_wall_def Let_def split: prod.splits)
    moreover have "0 \<le> t mod MS_PER_DAY" "0 \<le> t mod MS_PER_DAY mod 3600000" "0 \<le> t div MS_PER_DAY"
      using that(2) by (simp_all add: MS_PER_DAY_def pos_imp_zdiv_nonneg_iff)
    moreover have "1970 \<le> y" "0 \<le> m0" "1 \<le> d" using civil_of_day_valid [OF c] year_of_day_1970 [OF calculation(6)] by linarith+
    ultimately show ?thesis by (simp add: pos_imp_zdiv_nonneg_iff)
  qed
  then show ?thesis
    by (auto simp: fixed_zone_def offsetMs_def utc_offset_def utc_wall_def partOf_show split: prod.splits)
qed

definition w_daily :: CronSchedule where
  "w_daily = \<lparr>cs_minute = [30], cs_hour = [9], cs_dayOfMonth = [1..<32], cs_month = [1..<13], cs_dayOfWeek = [0..<7]\<rparr>"

lemma w_daily_parse: "parseCronExpression ''30 9 * * *'' = Inr w_daily"
  by code_simp

lemma w_daily_first_day: "civil_of_day 0 = (1970, 0, 1)"
  by code_simp

lemma w_daily_fires: "cron_fires w_daily t \<and> t div MS_PER_DAY = 0 \<longleftrightarrow> t = 34200000"
  unfolding cron_fires_iff [OF parsed_schedule_ok [OF w_daily_parse] w_daily_first_day]
  by (simp add: w_daily_def day_matches_def day_times_def day_ms_def)

lemma w_daily_day: "t div MS_PER_DAY = 0 \<longleftrightarrow> 0 \<le> t \<and> t < 86400000"
  unfolding MS_PER_DAY_def by auto

lemma utc_known: "utc_only ''UTC'' = Some (utc_wall, utc_offset)"
  by (simp add: utc_only_def)

theorem nextRunAfter_earliest_witness:
  "nextRunAfter utc_only w_daily 1000 ''UTC'' = Inr 34200000"
proof -
  note spec = nextRunAfter_earliest [where intl = utc_only and tz = "''UTC''" and after = 1000 and off = 0,
      OF w_daily_parse utc_known fixed_zone_utc, simplified]
  have f: "cron_fires w_daily 34200000" "34200000 div MS_PER_DAY = 0" using w_daily_fires by blast+
  show ?thesis
  proof (cases "nextRunAfter utc_only w_daily 1000 ''UTC''")
    case (Inl e)
    have "1000 div MS_PER_DAY = 0" by (simp add: MS_PER_DAY_def)
    then show ?thesis using spec f unfolding Inl by auto
  next
    case (Inr t)
    then have t: "1000 < t" "cron_fires w_daily t" "\<not> 34200000 < t" using spec f(1) by (simp, simp, simp, force)
    then have "t div MS_PER_DAY = 0" by (simp add: w_daily_day)
    then have "t = 34200000" using t(2) w_daily_fires [of t] by simp
    then show ?thesis using Inr by simp
  qed
qed

text \<open>
  In every zone, changing offsets included, a returned time lies strictly after the given
  one and the zone's own wall clock shows a date and time of the schedule at that moment; the
  weekday the search keeps by counting is the weekday of that date in the calendar. The only
  assumption is that the formatter shows a calendar date for the given time.\<close>

theorem nextRunAfter_fires:
  assumes "nextRunAfter intl sch after tz = Inr t" and "intl tz = Some (wall, offset)" and "shows_date wall after"
  shows "after < t \<and>
     (\<exists>y m0 d hh mm. valid_date y m0 d \<and> hh \<in> set (cs_hour sch) \<and> mm \<in> set (cs_minute sch) \<and>
        day_matches sch m0 d (weekday_of_day (utc_day y m0 d)) \<and> wallEquals wall t y m0 d (int hh) (int mm) = Inr True)"
  using nextRunAfter_sound [OF assms] by (simp add: fires_at_def)

theorem nextRunAfter_fires_witness:
  "\<exists>t. 1000 < t \<and> nextRunAfter utc_only w_daily 1000 ''UTC'' = Inr t"
proof -
  have f: "cron_fires w_daily 34200000" using w_daily_fires by blast
  obtain t where n: "nextRunAfter utc_only w_daily 1000 ''UTC'' = Inr t"
    using fixed_zone_result [where intl = utc_only and tz = "''UTC''" and after = 1000 and off = 0 and t' = 34200000, OF w_daily_parse utc_known fixed_zone_utc] f by (auto simp: MS_PER_DAY_def)
  have "local_wall (1000 + 0) = (1970, 0, 1, 0, 0)"
    using w_daily_first_day by (simp add: local_wall_def MS_PER_DAY_def)
  then have "partOf (utc_wall 1000) ''year'' = Inr 1970" "partOf (utc_wall 1000) ''month'' = Inr 1" "partOf (utc_wall 1000) ''day'' = Inr 1"
    using fixed_zone_utc by (auto simp: fixed_zone_def dest!: spec [of _ 1000])
  then have "shows_date utc_wall 1000" by (simp add: shows_date_def valid_date_def month_lengths_def)
  from nextRunAfter_fires [OF n utc_known this] n show ?thesis by blast
qed

end
