(* ===== verification/Js_Number.thy ===== *)
theory Js_Number
  imports Json
begin

text \<open>
  Conversions to numbers as JavaScript's \<open>Number\<close> and \<open>Math.floor\<close> perform them on
  strings and on JSON values. Numbers of the model are integers: a JSON number that is a
  fraction is not represented, and of a string that denotes one only the floor is used.
\<close>

text \<open>
  \<open>Number(s)\<close> where it is an integer: a decimal numeral with optional sign, fraction and
  exponent, or a numeral in base 16, 8 or 2, between white space. The value is exact (the
  source rounds to 53 significant bits), and infinite from $2^{1024}$ on.
\<close>

definition js_exponent :: "string \<Rightarrow> int option" where
  "js_exponent r =
     (if r = [] then Some 0
      else if hd r = CHR ''e'' \<or> hd r = CHR ''E''
      then let t = tl r; neg = (t \<noteq> [] \<and> hd t = CHR ''-'');
               ds = (if t \<noteq> [] \<and> (hd t = CHR ''-'' \<or> hd t = CHR ''+'') then tl t else t)
           in if ds = [] \<or> \<not> list_all is_digit ds then None
              else Some (if neg then - int (read_nat ds) else int (read_nat ds))
      else None)"

text \<open>A decimal numeral as its mantissa and decimal exponent.\<close>

definition js_decimal_parts :: "string \<Rightarrow> (int \<times> int) option" where
  "js_decimal_parts r =
     (let ip = takeWhile is_digit r; r1 = dropWhile is_digit r;
          frac = (r1 \<noteq> [] \<and> hd r1 = CHR ''.'');
          fp = (if frac then takeWhile is_digit (tl r1) else []);
          r2 = (if frac then dropWhile is_digit (tl r1) else r1)
      in if ip = [] \<and> fp = [] then None
         else map_option (\<lambda>e. (int (read_nat (ip @ fp)), e - int (length fp))) (js_exponent r2))"

definition js_decimal :: "string \<Rightarrow> int option" where
  "js_decimal r =
     (case js_decimal_parts r of
        None \<Rightarrow> None
      | Some (mant, ex) \<Rightarrow>
          if ex \<ge> 0 then Some (mant * 10 ^ nat ex)
          else if mant mod 10 ^ nat (- ex) = 0 then Some (mant div 10 ^ nat (- ex)) else None)"

fun read_base :: "int \<Rightarrow> string \<Rightarrow> int option" where
  "read_base b [] = Some 0"
| "read_base b (c # cs) =
     (case hex_val c of
        None \<Rightarrow> None
      | Some d \<Rightarrow> if int d < b then map_option (\<lambda>r. int d * b ^ length cs + r) (read_base b cs) else None)"

definition js_based :: "string \<Rightarrow> int option" where
  "js_based t =
     (if length t > 2 \<and> hd t = CHR ''0''
      then (let c = t ! 1 in
            if c = CHR ''x'' \<or> c = CHR ''X'' then read_base 16 (drop 2 t)
            else if c = CHR ''o'' \<or> c = CHR ''O'' then read_base 8 (drop 2 t)
            else if c = CHR ''b'' \<or> c = CHR ''B'' then read_base 2 (drop 2 t)
            else None)
      else None)"

definition js_int :: "string \<Rightarrow> int option" where
  "js_int s =
     (let t = js_trim s;
          neg = (t \<noteq> [] \<and> hd t = CHR ''-'');
          r = (if t \<noteq> [] \<and> (hd t = CHR ''-'' \<or> hd t = CHR ''+'') then tl t else t);
          v = (case js_based t of Some n \<Rightarrow> Some n | None \<Rightarrow> map_option (\<lambda>n. if neg then - n else n) (js_decimal r))
      in (case v of None \<Rightarrow> None | Some n \<Rightarrow> if \<bar>n\<bar> < 2 ^ 1024 then Some n else None))"

text \<open>\<open>Math.floor(Number(s))\<close>.\<close>

definition js_floor :: "string \<Rightarrow> int option" where
  "js_floor s =
     (let t = js_trim s;
          neg = (t \<noteq> [] \<and> hd t = CHR ''-'');
          r = (if t \<noteq> [] \<and> (hd t = CHR ''-'' \<or> hd t = CHR ''+'') then tl t else t);
          v = (case js_based t of
                 Some n \<Rightarrow> Some n
               | None \<Rightarrow> if t = [] then Some 0
                   else map_option (\<lambda>(mant, ex). let m = (if neg then - mant else mant)
                     in if ex \<ge> 0 then m * 10 ^ nat ex else m div 10 ^ nat (- ex)) (js_decimal_parts r))
      in (case v of None \<Rightarrow> None | Some n \<Rightarrow> if \<bar>n\<bar> < 2 ^ 1024 then Some n else None))"

text \<open>\<open>String(v)\<close>; the elements of an array are joined by commas, \<open>null\<close> among them empty.\<close>

primrec js_string :: "json \<Rightarrow> string" where
  "js_string JNull = ''null''"
| "js_string (JBool b) = (if b then ''true'' else ''false'')"
| "js_string (JNum n) = show_int n"
| "js_string (JStr s) = s"
| "js_string (JArr xs) = js_join '','' (map (\<lambda>(x, s). if x = JNull then [] else s) (map (\<lambda>x. (x, js_string x)) xs))"
| "js_string (JObj kvs) = ''[object Object]''"

text \<open>\<open>Number(v)\<close> of a property, \<open>None\<close> for \<open>NaN\<close> and the infinities; \<open>num\<close> reads a string.\<close>

definition js_number :: "(string \<Rightarrow> int option) \<Rightarrow> json option \<Rightarrow> int option" where
  "js_number num v =
     (case v of
        None \<Rightarrow> None
      | Some JNull \<Rightarrow> Some 0
      | Some (JBool b) \<Rightarrow> Some (if b then 1 else 0)
      | Some (JNum n) \<Rightarrow> Some n
      | Some (JStr s) \<Rightarrow> num s
      | Some (JArr xs) \<Rightarrow> num (js_string (JArr xs))
      | Some (JObj kvs) \<Rightarrow> None)"

end
