(* ===== verification/Cron_Jobs.thy ===== *)
theory Cron_Jobs
  imports Cron_Next Js_Number Json
begin

text \<open>
  \<open>packages/core/src/cron-scheduler.ts\<close>, the jobs: reading a schedule file into a job,
  running one job in prompt or command mode, the arguments of the child process and the
  options from the environment. \<open>parse_yaml\<close> stands for the runtime's YAML parser
  (\<open>None\<close> when it throws), \<open>known_zone\<close> for whether \<open>Intl\<close> accepts a time zone.
\<close>

section \<open>Schedule files\<close>

text \<open>What a YAML file parses to; a number that is no integer is only known to be one.\<close>

datatype yaml =
    YNull
  | YBool bool
  | YInt int
  | YOtherNumber
  | YStr string
  | YSeq "yaml list"
  | YMap "(string \<times> yaml) list"

datatype missed_policy = Skip | CatchUp

record CronJob =
  cj_id :: string
  cj_schedule :: string
  cj_timezone :: string
  cj_missed :: missed_policy
  cj_prompt :: "string option"
  cj_command :: "string option"
  cj_timeout :: "int option"
  cj_runAtBoot :: bool
  cj_parsed :: CronSchedule

datatype schedule_error =
    YamlError string
  | NotAMapping string
  | FieldNotString string string
  | MissedInvalid string
  | PromptXorCommand string
  | TimeoutNeedsCommand string
  | TimeoutInvalid string
  | RunAtBootInvalid string
  | TimezoneInvalid string string
  | CronInvalid string cron_error

definition DEFAULT_COMMAND_TIMEOUT_SECONDS :: int where
  "DEFAULT_COMMAND_TIMEOUT_SECONDS = 600"

definition requiredString :: "(string \<times> yaml) list \<Rightarrow> string \<Rightarrow> string \<Rightarrow> (schedule_error, string) result" where
  "requiredString record field i =
     (case map_of record field of
        Some (YStr v) \<Rightarrow> if length (js_trim v) = 0 then Inl (FieldNotString i field) else Inr v
      | _ \<Rightarrow> Inl (FieldNotString i field))"

definition optionalString :: "(string \<times> yaml) list \<Rightarrow> string \<Rightarrow> string \<Rightarrow> (schedule_error, string option) result" where
  "optionalString record field i =
     (case map_of record field of
        None \<Rightarrow> Inr None
      | Some (YStr v) \<Rightarrow> if length (js_trim v) = 0 then Inl (FieldNotString i field) else Inr (Some v)
      | Some _ \<Rightarrow> Inl (FieldNotString i field))"

definition parseCommandTimeout :: "yaml \<Rightarrow> string \<Rightarrow> (schedule_error, int) result" where
  "parseCommandTimeout v i =
     (case (case v of
              YInt n \<Rightarrow> Some n
            | YStr s \<Rightarrow> if length (js_trim s) > 0 then js_int s else None
            | _ \<Rightarrow> None) of
        None \<Rightarrow> Inl (TimeoutInvalid i)
      | Some timeout \<Rightarrow> if timeout \<le> 0 then Inl (TimeoutInvalid i) else Inr timeout)"

definition validateTimezone :: "(string \<Rightarrow> bool) \<Rightarrow> string \<Rightarrow> string \<Rightarrow> (schedule_error, unit) result" where
  "validateTimezone known_zone tz i = (if known_zone tz then Inr () else Inl (TimezoneInvalid i tz))"

definition parseScheduleFile :: "(string \<Rightarrow> yaml option) \<Rightarrow> (string \<Rightarrow> bool) \<Rightarrow> string \<Rightarrow> string \<Rightarrow> (schedule_error, CronJob) result" where
  "parseScheduleFile parse_yaml known_zone i source =
     (case parse_yaml source of
        None \<Rightarrow> Inl (YamlError i)
      | Some (YMap record) \<Rightarrow>
          result_bind (requiredString record ''schedule'' i) (\<lambda>schedule.
          result_bind (optionalString record ''timezone'' i) (\<lambda>tz.
          let timezone = (case tz of Some z \<Rightarrow> z | None \<Rightarrow> ''UTC'') in
          result_bind
            (case map_of record ''missed'' of
               Some (YStr m) \<Rightarrow> if m = ''skip'' then Inr Skip else if m = ''catchUp'' then Inr CatchUp else Inl (MissedInvalid i)
             | _ \<Rightarrow> Inl (MissedInvalid i)) (\<lambda>missed.
          result_bind (optionalString record ''prompt'' i) (\<lambda>prompt.
          result_bind (optionalString record ''command'' i) (\<lambda>command.
          if (prompt = None) = (command = None) then Inl (PromptXorCommand i)
          else
          result_bind
            (case map_of record ''timeout'' of
               Some v \<Rightarrow>
                 if command = None then Inl (TimeoutNeedsCommand i)
                 else result_bind (parseCommandTimeout v i) (\<lambda>t. Inr (Some t))
             | None \<Rightarrow> if command \<noteq> None then Inr (Some DEFAULT_COMMAND_TIMEOUT_SECONDS) else Inr None) (\<lambda>timeout.
          result_bind
            (case map_of record ''runAtBoot'' of
               None \<Rightarrow> Inr False
             | Some (YBool b) \<Rightarrow> Inr b
             | Some _ \<Rightarrow> Inl (RunAtBootInvalid i)) (\<lambda>runAtBoot.
          result_bind (validateTimezone known_zone timezone i) (\<lambda>_.
          case parseCronExpression schedule of
            Inl e \<Rightarrow> Inl (CronInvalid i e)
          | Inr parsed \<Rightarrow>
              Inr \<lparr>cj_id = i, cj_schedule = schedule, cj_timezone = timezone, cj_missed = missed, cj_prompt = prompt,
                   cj_command = command, cj_timeout = timeout, cj_runAtBoot = runAtBoot, cj_parsed = parsed\<rparr>))))))))
      | Some _ \<Rightarrow> Inl (NotAMapping i))"

text \<open>The directory is its list of names and contents; an unreadable directory is empty.\<close>

definition loadSchedules :: "(string \<Rightarrow> yaml option) \<Rightarrow> (string \<Rightarrow> bool) \<Rightarrow> (string \<times> string) list \<Rightarrow> (schedule_error, CronJob list) result" where
  "loadSchedules parse_yaml known_zone dir =
     result_mapM (\<lambda>(name, source). parseScheduleFile parse_yaml known_zone (take (length name - 4) name) source)
       (filter (\<lambda>f. js_ends_with ''.yml'' (fst f)) (sort_key fst dir))"

section \<open>Arguments and environment\<close>

record CronSchedulerOptions =
  co_schedulesDir :: string
  co_cronDataDir :: string
  co_workspaceDir :: string
  co_ompBinary :: string
  co_ompModel :: "string option"
  co_ompProfile :: "string option"
  co_ompArgs :: "string list"
  co_ambientExtensionPath :: string

text \<open>An optional string that is also left out when empty.\<close>

definition truthy_str :: "string option \<Rightarrow> string option" where
  "truthy_str v = (case v of Some s \<Rightarrow> if s = [] then None else Some s | None \<Rightarrow> None)"

definition buildChildArgs :: "CronSchedulerOptions \<Rightarrow> string list" where
  "buildChildArgs opts =
     [''-e'', co_ambientExtensionPath opts]
     @ (case truthy_str (co_ompModel opts) of Some m \<Rightarrow> [''--model'', m] | None \<Rightarrow> [])
     @ (case truthy_str (co_ompProfile opts) of Some p \<Rightarrow> [''--profile'', p] | None \<Rightarrow> [])
     @ [''--cwd'', co_workspaceDir opts] @ co_ompArgs opts"

definition parseArgs :: "string option \<Rightarrow> string list" where
  "parseArgs raw =
     (case raw of
        None \<Rightarrow> []
      | Some s \<Rightarrow> let trimmed = js_trim s in if trimmed = [] then [] else js_split_ws trimmed)"

text \<open>\<open>join\<close> is \<open>node:path\<close>'s; \<open>here\<close> is the directory of the module.\<close>

definition optionsFromEnv :: "(string \<Rightarrow> string \<Rightarrow> string) \<Rightarrow> string \<Rightarrow> (string \<Rightarrow> string option) \<Rightarrow> CronSchedulerOptions" where
  "optionsFromEnv join here env =
     (let cronDataDir = (case env ''OMP_CRON_DATA_DIR'' of Some d \<Rightarrow> d | None \<Rightarrow> ''/data/cron'')
      in \<lparr>co_schedulesDir = (case env ''OMP_CRON_SCHEDULES_DIR'' of Some d \<Rightarrow> d | None \<Rightarrow> join cronDataDir ''schedules''),
          co_cronDataDir = cronDataDir,
          co_workspaceDir = (case env ''OMP_WORKSPACE_DIR'' of Some d \<Rightarrow> d | None \<Rightarrow> ''/data/workspace''),
          co_ompBinary = (case truthy_str (map_option js_trim (env ''OMP_BINARY'')) of Some b \<Rightarrow> b | None \<Rightarrow> ''omp''),
          co_ompModel = truthy_str (map_option js_trim (env ''OMP_MODEL'')),
          co_ompProfile = truthy_str (map_option js_trim (env ''OMP_PROFILE'')),
          co_ompArgs = parseArgs (env ''OMP_ARGS''),
          co_ambientExtensionPath =
            (case truthy_str (map_option js_trim (env ''OMP_AMBIENT_EXTENSION'')) of
               Some p \<Rightarrow> p | None \<Rightarrow> join here ''ambient-ingest-extension.ts'')\<rparr>)"

section \<open>Running a job\<close>

record RunResult =
  ru_ok :: bool
  ru_text :: string
  ru_sessionFile :: "string option"
  ru_error :: "string option"

definition extractDelta :: "json \<Rightarrow> string option" where
  "extractDelta frame =
     (case jget ''assistantMessageEvent'' frame of
        Some ev \<Rightarrow>
          if jget ''type'' ev \<noteq> Some (JStr ''text_delta'') then None else jstring (jget ''delta'' ev)
      | None \<Rightarrow> None)"

text \<open>What the child emits while the runner waits, and how a wait ends: with a value or a throw.\<close>

datatype child_event = ChildFrame json | ChildExit

type_synonym 'a stage = "child_event list \<times> (string, 'a) result"

record rpc_answer =
  ra_success :: bool
  ra_error :: "string option"
  ra_data :: "json option"

record prompt_script =
  ps_factory :: "(string, unit) result"
  ps_negotiate :: "unit stage"
  ps_newSession :: "rpc_answer stage"
  ps_getState :: "rpc_answer stage"
  ps_prompt :: "rpc_answer stage"
  ps_turn :: "child_event list"

definition frame_type :: "json \<Rightarrow> string option" where
  "frame_type f = jstring (jget ''type'' f)"

definition event_text :: "child_event \<Rightarrow> string" where
  "event_text e =
     (case e of
        ChildFrame f \<Rightarrow>
          if frame_type f = Some ''message_update'' then (case extractDelta f of Some d \<Rightarrow> d | None \<Rightarrow> []) else []
      | ChildExit \<Rightarrow> [])"

definition ends_turn :: "child_event \<Rightarrow> bool" where
  "ends_turn e = (case e of ChildFrame f \<Rightarrow> frame_type f = Some ''agent_end'' | ChildExit \<Rightarrow> True)"

definition is_agent_end :: "child_event \<Rightarrow> bool" where
  "is_agent_end e = (case e of ChildFrame f \<Rightarrow> frame_type f = Some ''agent_end'' | ChildExit \<Rightarrow> False)"

definition run_text :: "child_event list \<Rightarrow> string" where
  "run_text es = concat (map event_text es)"

text \<open>Events up to and including the first one that satisfies \<open>P\<close>, if there is one.\<close>

fun upto :: "('a \<Rightarrow> bool) \<Rightarrow> 'a list \<Rightarrow> 'a list option" where
  "upto P [] = None"
| "upto P (x # xs) = (if P x then Some [x] else map_option ((#) x) (upto P xs))"

definition run_failed :: "child_event list \<Rightarrow> string option \<Rightarrow> string \<Rightarrow> RunResult option" where
  "run_failed es sessionFile err =
     Some \<lparr>ru_ok = False, ru_text = run_text es, ru_sessionFile = sessionFile, ru_error = Some err\<rparr>"

definition or_unknown_error :: "string option \<Rightarrow> string" where
  "or_unknown_error e = (case e of Some s \<Rightarrow> s | None \<Rightarrow> ''unknown'')"

text \<open>
  \<open>runPromptOnce\<close>: the events of each wait are collected in order; \<open>None\<close> is a turn that
  never ends. The last wait is over at once when the turn had ended before.
\<close>

definition runPromptOnce :: "prompt_script \<Rightarrow> RunResult option" where
  "runPromptOnce sc =
     (case ps_factory sc of
        Inl err \<Rightarrow> run_failed [] None err
      | Inr _ \<Rightarrow>
     (case ps_negotiate sc of (e1, r1) \<Rightarrow>
     (case r1 of
        Inl err \<Rightarrow> run_failed e1 None err
      | Inr _ \<Rightarrow>
     (case ps_newSession sc of (e2, r2) \<Rightarrow>
     (case r2 of
        Inl err \<Rightarrow> run_failed (e1 @ e2) None err
      | Inr newRes \<Rightarrow>
          if \<not> ra_success newRes
          then run_failed (e1 @ e2) None (''new_session failed: '' @ or_unknown_error (ra_error newRes))
          else
     (case ps_getState sc of (e3, r3) \<Rightarrow>
     (case r3 of
        Inl err \<Rightarrow> run_failed (e1 @ e2 @ e3) None err
      | Inr stateRes \<Rightarrow>
          let sessionFile = (if ra_success stateRes
                 then (case ra_data stateRes of Some d \<Rightarrow> jstring (jget ''sessionFile'' d) | None \<Rightarrow> None) else None)
          in
     (case ps_prompt sc of (e4, r4) \<Rightarrow>
     (case r4 of
        Inl err \<Rightarrow> run_failed (e1 @ e2 @ e3 @ e4) sessionFile err
      | Inr promptRes \<Rightarrow>
          if \<not> ra_success promptRes
          then run_failed (e1 @ e2 @ e3 @ e4) sessionFile (''prompt failed: '' @ or_unknown_error (ra_error promptRes))
          else
            let before = e1 @ e2 @ e3 @ e4
            in (case (if \<exists>e \<in> set before. ends_turn e then Some [] else upto ends_turn (ps_turn sc)) of
                  None \<Rightarrow> None
                | Some e5 \<Rightarrow>
                    if \<exists>e \<in> set (before @ e5). is_agent_end e
                    then Some \<lparr>ru_ok = True, ru_text = run_text (before @ e5), ru_sessionFile = sessionFile, ru_error = None\<rparr>
                    else run_failed (before @ e5) sessionFile ''agent ended without an agent_end frame''))))))))))"

text \<open>
  \<open>runCommandOnce\<close> as a reaction to the events of the process and of its timers. The force-kill
  timer is only armed by the timeout.
\<close>

datatype command_event =
    Output string
  | SpawnError string
  | Closed "int option"
  | TimeoutTimer
  | ForceKillTimer

record command_run =
  cr_text :: string
  cr_timedOut :: bool
  cr_result :: "RunResult option"
  cr_signals :: "string list"

definition command_start :: command_run where
  "command_start = \<lparr>cr_text = [], cr_timedOut = False, cr_result = None, cr_signals = []\<rparr>"

definition command_finish :: "bool \<Rightarrow> string option \<Rightarrow> command_run \<Rightarrow> command_run" where
  "command_finish ok err s =
     (if cr_result s \<noteq> None then s
      else s\<lparr>cr_result := Some \<lparr>ru_ok = ok, ru_text = cr_text s, ru_sessionFile = None, ru_error = err\<rparr>\<rparr>)"

definition show_exit :: "int option \<Rightarrow> string" where
  "show_exit code = (case code of None \<Rightarrow> ''unknown'' | Some c \<Rightarrow> show_int c)"

definition timeout_error :: "int \<Rightarrow> string" where
  "timeout_error timeoutSeconds = ''command timed out after '' @ show_int timeoutSeconds @ ''s''"

fun command_step :: "int \<Rightarrow> command_run \<Rightarrow> command_event \<Rightarrow> command_run" where
  "command_step timeoutSeconds s (Output chunk) = s\<lparr>cr_text := cr_text s @ chunk\<rparr>"
| "command_step timeoutSeconds s (SpawnError err) = (if cr_timedOut s then s else command_finish False (Some err) s)"
| "command_step timeoutSeconds s (Closed code) =
     (if cr_timedOut s then command_finish False (Some (timeout_error timeoutSeconds)) s
      else if code = Some 0 then command_finish True None s
      else command_finish False (Some (''exit code '' @ show_exit code)) s)"
| "command_step timeoutSeconds s TimeoutTimer =
     (if cr_result s \<noteq> None then s else s\<lparr>cr_timedOut := True, cr_signals := cr_signals s @ [''SIGTERM'']\<rparr>)"
| "command_step timeoutSeconds s ForceKillTimer =
     (if cr_result s \<noteq> None \<or> \<not> cr_timedOut s then s
      else command_finish False (Some (timeout_error timeoutSeconds)) (s\<lparr>cr_signals := cr_signals s @ [''SIGKILL'']\<rparr>))"

definition command_events :: "CronJob \<Rightarrow> command_event list \<Rightarrow> command_run" where
  "command_events job es =
     foldl (command_step (case cj_timeout job of Some t \<Rightarrow> t | None \<Rightarrow> DEFAULT_COMMAND_TIMEOUT_SECONDS)) command_start es"

text \<open>\<open>spawn\<close> is \<open>Inl\<close> when it throws.\<close>

definition runCommandOnce :: "CronJob \<Rightarrow> (string, command_event list) result \<Rightarrow> RunResult option" where
  "runCommandOnce job spawn =
     (case spawn of
        Inl err \<Rightarrow> cr_result (command_finish False (Some err) command_start)
      | Inr es \<Rightarrow> cr_result (command_events job es))"

definition runJobOnce :: "CronJob \<Rightarrow> (string, command_event list) result \<Rightarrow> prompt_script \<Rightarrow> RunResult option" where
  "runJobOnce job spawn sc = (if cj_command job \<noteq> None then runCommandOnce job spawn else runPromptOnce sc)"

section \<open>Properties of jobs\<close>

text \<open>
  C32. A schedule file that is accepted yields a job with exactly one of prompt and command, a
  positive timeout exactly when it has a command, a zone the runtime knows, and the schedule
  its expression denotes; its strings are not blank.\<close>

theorem parseScheduleFile_job:
  assumes "parseScheduleFile parse_yaml known_zone i source = Inr job"
  shows "cj_id job = i \<and> (cj_prompt job = None \<longleftrightarrow> cj_command job \<noteq> None) \<and>
    (case cj_timeout job of Some t \<Rightarrow> 0 < t \<and> cj_command job \<noteq> None | None \<Rightarrow> cj_command job = None) \<and>
    known_zone (cj_timezone job) \<and> parseCronExpression (cj_schedule job) = Inr (cj_parsed job) \<and>
    js_trim (cj_schedule job) \<noteq> [] \<and> Some [] \<notin> map_option js_trim ` {cj_prompt job, cj_command job}"
proof -
  have opt: "optionalString m f j = Inr (Some v) \<Longrightarrow> js_trim v \<noteq> []" for m f j v
    by (auto simp: optionalString_def split: option.splits yaml.splits if_splits)
  have req: "requiredString m f j = Inr v \<Longrightarrow> js_trim v \<noteq> []" for m f j v
    by (auto simp: requiredString_def split: option.splits yaml.splits if_splits)
  have tmo: "parseCommandTimeout v j = Inr t \<Longrightarrow> 0 < t" for v j t
    by (auto simp: parseCommandTimeout_def split: option.splits if_splits)
  obtain m where y: "parse_yaml source = Some (YMap m)"
    using assms by (auto simp: parseScheduleFile_def split: option.splits yaml.splits)
  show ?thesis
    using assms unfolding parseScheduleFile_def y option.case yaml.case result_bind_Inr_iff Let_def
    by (elim exE conjE)
      (auto simp: result_bind_Inr_iff validateTimezone_def DEFAULT_COMMAND_TIMEOUT_SECONDS_def dest: opt req tmo
        split: if_splits option.splits sum.splits)
qed

definition w_yaml :: "string \<Rightarrow> yaml option" where
  "w_yaml source = Some (YMap [(''schedule'', YStr ''30 9 * * *''), (''missed'', YStr ''skip''), (''command'', YStr ''ls''), (''timeout'', YStr ''1e2'')])"

theorem parseScheduleFile_job_witness:
  "\<exists>job. parseScheduleFile w_yaml (\<lambda>z. z = ''UTC'') ''nightly'' ''x'' = Inr job \<and> cj_timeout job = Some 100 \<and> cj_prompt job = None"
proof -
  have t: "parseCommandTimeout (YStr ''1e2'') ''nightly'' = Inr 100" by code_simp
  have s: "requiredString [(''schedule'', YStr ''30 9 * * *''), (''missed'', YStr ''skip''), (''command'', YStr ''ls''), (''timeout'', YStr ''1e2'')] ''schedule'' ''nightly'' = Inr ''30 9 * * *''"
    "optionalString [(''schedule'', YStr ''30 9 * * *''), (''missed'', YStr ''skip''), (''command'', YStr ''ls''), (''timeout'', YStr ''1e2'')] ''command'' ''nightly'' = Inr (Some ''ls'')"
    by code_simp+
  obtain job where j: "parseScheduleFile w_yaml (\<lambda>z. z = ''UTC'') ''nightly'' ''x'' = Inr job" "cj_timeout job = Some 100" "cj_command job = Some ''ls''"
    by (simp add: parseScheduleFile_def w_yaml_def s t w_daily_parse validateTimezone_def) (simp add: optionalString_def t w_daily_parse validateTimezone_def)
  from parseScheduleFile_job [OF j(1)] j show ?thesis by auto
qed

text \<open>Once settled, a command run keeps its result; the timers settle every run.\<close>

lemma command_finish_settled: "\<exists>r. cr_result (command_finish ok err s) = Some r"
  by (cases "cr_result s") (simp_all add: command_finish_def)

lemma command_step_result: "cr_result s = Some r \<Longrightarrow> cr_result (command_step t s e) = Some r"
  by (cases e) (simp_all add: command_finish_def)

lemma command_steps_result: "cr_result s = Some r \<Longrightarrow> cr_result (foldl (command_step t) s es) = Some r"
  by (induction es arbitrary: s) (simp_all add: command_step_result)

lemma command_timedOut_step: "cr_timedOut s \<Longrightarrow> cr_timedOut (command_step t s e)"
  by (cases e) (simp_all add: command_finish_def)

lemma command_timedOut_steps: "cr_timedOut s \<Longrightarrow> cr_timedOut (foldl (command_step t) s es)"
  by (induction es arbitrary: s) (simp_all add: command_timedOut_step)

lemma command_ok_step:
  "cr_result s = None \<Longrightarrow> cr_result (command_step t s e) = Some r \<Longrightarrow> ru_ok r \<Longrightarrow> e = Closed (Some 0) \<and> \<not> cr_timedOut s \<and> ru_text r = cr_text s"
  by (cases e) (auto simp: command_finish_def split: if_splits)

lemma command_text: "cr_result (foldl (command_step t) s es) = None \<Longrightarrow>
  cr_text (foldl (command_step t) s es) = cr_text s @ concat (map (\<lambda>e. case e of Output c \<Rightarrow> c | _ \<Rightarrow> []) es)"
proof (induction es arbitrary: s)
  case (Cons e es)
  have "cr_text (command_step t s e) = cr_text s @ (case e of Output c \<Rightarrow> c | _ \<Rightarrow> [])"
    by (cases e) (simp_all add: command_finish_def)
  then show ?case using Cons by simp
qed simp

text \<open>
  C31. A command run ends and ends once. Whatever the process does, once the timeout and then
  the force-kill timer have fired, or the process has closed, there is a result; the first
  result stands whatever follows. A run is reported as successful only when the process closed
  with code 0 before the timeout, and then its text is all output received until then.\<close>

theorem command_run_settles:
  "cr_result (command_events job (es1 @ TimeoutTimer # es2 @ ForceKillTimer # es3)) \<noteq> None \<and>
   cr_result (command_events job (es1 @ Closed code # es2)) = cr_result (command_events job (es1 @ [Closed code])) \<and>
   cr_result (command_events job (es1 @ [Closed code])) \<noteq> None \<and>
   (case cr_result (command_events job es) of
      None \<Rightarrow> True
    | Some r \<Rightarrow> ru_ok r = (\<exists>pre post. es = pre @ Closed (Some 0) # post \<and> cr_result (command_events job pre) = None \<and>
        \<not> cr_timedOut (command_events job pre) \<and>
        ru_text r = concat (map (\<lambda>e. case e of Output c \<Rightarrow> c | _ \<Rightarrow> []) pre)))"
proof -
  define t where "t = (case cj_timeout job of Some t \<Rightarrow> t | None \<Rightarrow> DEFAULT_COMMAND_TIMEOUT_SECONDS)"
  let ?run = "foldl (command_step t)"
  have ev: "command_events job xs = ?run command_start xs" for xs by (simp add: command_events_def t_def)
  have closed: "cr_result (command_step t s (Closed code)) \<noteq> None" for s code
    by (simp add: command_finish_settled)
  have keep: "cr_result s \<noteq> None \<Longrightarrow> cr_result (?run s xs) = cr_result s" for s xs
    using command_steps_result by fastforce
  have kill: "cr_result (?run s (TimeoutTimer # es2 @ [ForceKillTimer])) \<noteq> None" for s
  proof (cases "cr_result s")
    case None
    have "cr_timedOut (?run (command_step t s TimeoutTimer) es2)" using None by (intro command_timedOut_steps) simp
    then show ?thesis by (simp add: command_finish_settled)
  qed (use keep [of s] in auto)
  have ok: "\<exists>pre post. es = pre @ Closed (Some 0) # post \<and> cr_result (?run s pre) = None \<and> \<not> cr_timedOut (?run s pre) \<and> ru_text r = cr_text (?run s pre)"
    if "cr_result (?run s es) = Some r" "ru_ok r" "cr_result s = None" for s r es
    using that
  proof (induction es arbitrary: s)
    case (Cons e es)
    show ?case
    proof (cases "cr_result (command_step t s e)")
      case None
      then obtain pre post where "es = pre @ Closed (Some 0) # post" "cr_result (?run (command_step t s e) pre) = None"
        "\<not> cr_timedOut (?run (command_step t s e) pre)" "ru_text r = cr_text (?run (command_step t s e) pre)"
        using Cons.IH [of "command_step t s e"] Cons.prems by auto
      then show ?thesis by (intro exI [of _ "e # pre"] exI [of _ post]) simp
    next
      case (Some r')
      then have "r' = r" using Cons.prems(1) command_steps_result [OF Some, of t es] by simp
      then show ?thesis using command_ok_step [OF Cons.prems(3) Some] Cons.prems(2,3) by (intro exI [of _ "[]"] exI [of _ es]) simp
    qed
  qed simp
  have conv: "ru_ok r" if "es = pre @ Closed (Some 0) # post" "cr_result (?run s pre) = None" "\<not> cr_timedOut (?run s pre)" "cr_result (?run s es) = Some r" for s pre post r
    using that keep [of "command_step t (?run s pre) (Closed (Some 0))" post] by (auto simp: command_finish_def)
  have "ru_ok r = (\<exists>pre post. es = pre @ Closed (Some 0) # post \<and> cr_result (?run command_start pre) = None \<and>
        \<not> cr_timedOut (?run command_start pre) \<and> ru_text r = concat (map (\<lambda>e. case e of Output c \<Rightarrow> c | _ \<Rightarrow> []) pre))"
    if r: "cr_result (?run command_start es) = Some r" for r
  proof
    assume "ru_ok r"
    then obtain pre post where "es = pre @ Closed (Some 0) # post" "cr_result (?run command_start pre) = None"
      "\<not> cr_timedOut (?run command_start pre)" "ru_text r = cr_text (?run command_start pre)"
      using ok [OF r] by (auto simp: command_start_def)
    then show "\<exists>pre post. es = pre @ Closed (Some 0) # post \<and> cr_result (?run command_start pre) = None \<and>
        \<not> cr_timedOut (?run command_start pre) \<and> ru_text r = concat (map (\<lambda>e. case e of Output c \<Rightarrow> c | _ \<Rightarrow> []) pre)"
      using command_text [of t command_start pre] by (intro exI [of _ pre] exI [of _ post]) (simp add: command_start_def)
  qed (use conv r in blast)
  moreover have "cr_result (?run command_start (es1 @ Closed code # es2)) = cr_result (?run command_start (es1 @ [Closed code]))"
    using keep [OF closed, of "?run command_start es1" code es2] by simp
  moreover have "cr_result (?run command_start (es1 @ [Closed code])) \<noteq> None" using closed by simp
  moreover have "cr_result (?run command_start (es1 @ TimeoutTimer # es2 @ ForceKillTimer # es3)) \<noteq> None"
    using kill [of "?run command_start es1"] keep [of "?run command_start (es1 @ TimeoutTimer # es2 @ [ForceKillTimer])" es3] by simp
  ultimately show ?thesis unfolding ev by (auto split: option.splits)
qed

end
