(* ===== verification/Cron_Scheduler.thy ===== *)
theory Cron_Scheduler
  imports Cron_Jobs
begin

text \<open>
  \<open>packages/core/src/cron-scheduler.ts\<close>, the loop: which fires of a job are due, one fire with
  its persisted state, and a tick over the jobs. The durable state is the \<open>last-run.json\<close> of
  each job, as the JSON value it holds (\<open>None\<close> when the text does not parse), and the run
  outputs. What a job run yields is an argument, since it is the child's doing. A tick ends
  with the delay it schedules next or with the error that stopped it.
\<close>

section \<open>Due fires\<close>

definition CATCH_UP_CAP :: nat where
  "CATCH_UP_CAP = 5"

definition MAX_WAKE_MS :: int where
  "MAX_WAKE_MS = 60000"

text \<open>
  The endless loop of the skip policy, over the function that yields the next fire: \<open>None\<close> is
  a loop that never ends.
\<close>

partial_function (option) skip_loop :: "(epoch_ms \<Rightarrow> (cron_error, epoch_ms) result) \<Rightarrow> epoch_ms \<Rightarrow> epoch_ms \<Rightarrow> int
    \<Rightarrow> (cron_error, int) result option" where
  "skip_loop next nowMs cursor latest =
     (case next cursor of
        Inl e \<Rightarrow> Some (Inl e)
      | Inr fire \<Rightarrow> if fire > nowMs then Some (Inr latest) else skip_loop next nowMs fire fire)"

fun catch_up_loop :: "nat \<Rightarrow> (epoch_ms \<Rightarrow> (cron_error, epoch_ms) result) \<Rightarrow> epoch_ms \<Rightarrow> epoch_ms \<Rightarrow> (cron_error, epoch_ms list) result" where
  "catch_up_loop 0 next nowMs cursor = Inr []"
| "catch_up_loop (Suc i) next nowMs cursor =
     result_bind (next cursor) (\<lambda>fire.
       if fire > nowMs then Inr [] else result_bind (catch_up_loop i next nowMs fire) (\<lambda>fires. Inr (fire # fires)))"

type_synonym zones = "string \<Rightarrow> (date_format \<times> date_format) option"

definition computeDueFires :: "zones \<Rightarrow> CronJob \<Rightarrow> epoch_ms option \<Rightarrow> epoch_ms \<Rightarrow> (cron_error, epoch_ms list) result option" where
  "computeDueFires intl job lastRunMs nowMs =
     (let base = (case lastRunMs of Some l \<Rightarrow> l | None \<Rightarrow> nowMs);
          next = (\<lambda>cursor. nextRunAfter intl (cj_parsed job) cursor (cj_timezone job))
      in if cj_missed job = Skip
         then map_option (\<lambda>r. result_bind r (\<lambda>latest. Inr (if latest \<ge> 0 then [latest] else []))) (skip_loop next nowMs base (- 1))
         else Some (catch_up_loop CATCH_UP_CAP next nowMs base))"

section \<open>Fires and ticks\<close>

text \<open>
  The scheduler's state: the last-run files by job id, the run outputs in the order they were
  written (job, epoch, text; a boot run is marked), and the jobs whose boot run is done.
\<close>

record cron_state =
  cn_lastRun :: "(string, json option) js_map"
  cn_runs :: "(string \<times> epoch_ms \<times> bool \<times> string) list"
  cn_bootRan :: "string list"

definition readLastRun :: "cron_state \<Rightarrow> string \<Rightarrow> epoch_ms option" where
  "readLastRun st jobId =
     (case map_get (cn_lastRun st) jobId of
        Some (Some data) \<Rightarrow> (case jget ''fireEpoch'' data of Some (JNum n) \<Rightarrow> Some n | _ \<Rightarrow> None)
      | _ \<Rightarrow> None)"

definition writeLastRun :: "string \<Rightarrow> json \<Rightarrow> cron_state \<Rightarrow> cron_state" where
  "writeLastRun jobId data st = st\<lparr>cn_lastRun := map_set (cn_lastRun st) jobId (Some data)\<rparr>"

definition writeRun :: "string \<Rightarrow> epoch_ms \<Rightarrow> bool \<Rightarrow> string \<Rightarrow> cron_state \<Rightarrow> cron_state" where
  "writeRun jobId epoch boot text st = st\<lparr>cn_runs := cn_runs st @ [(jobId, epoch, boot, text)]\<rparr>"

definition opt_json :: "string option \<Rightarrow> json" where
  "opt_json v = (case v of Some s \<Rightarrow> JStr s | None \<Rightarrow> JNull)"

text \<open>\<open>run job epoch boot\<close> is the result of a run, \<open>firedAt\<close> the clock when it ended, \<open>dur\<close> its duration.\<close>

definition fireOne :: "(CronJob \<Rightarrow> epoch_ms \<Rightarrow> RunResult) \<Rightarrow> epoch_ms \<Rightarrow> int \<Rightarrow> CronJob \<Rightarrow> epoch_ms \<Rightarrow> cron_state \<Rightarrow> cron_state" where
  "fireOne run firedAt dur job fireEpoch st =
     (let result = run job fireEpoch
      in writeLastRun (cj_id job)
           (JObj ([(''jobId'', JStr (cj_id job)), (''firedAt'', JNum firedAt), (''fireEpoch'', JNum fireEpoch),
                   (''status'', JStr (if ru_ok result then ''ok'' else ''error'')), (''sessionFile'', opt_json (ru_sessionFile result))]
                  @ (case truthy_str (ru_error result) of Some e \<Rightarrow> [(''error'', JStr e)] | None \<Rightarrow> [])
                  @ [(''durationMs'', JNum dur)]))
           (writeRun (cj_id job) fireEpoch False (ru_text result) st))"

definition runAtBootOnce :: "(CronJob \<Rightarrow> epoch_ms \<Rightarrow> RunResult) \<Rightarrow> CronJob \<Rightarrow> epoch_ms \<Rightarrow> cron_state \<Rightarrow> cron_state" where
  "runAtBootOnce run job atMs st = writeRun (cj_id job) atMs True (ru_text (run job atMs)) st"

fun boot_loop :: "(CronJob \<Rightarrow> epoch_ms \<Rightarrow> RunResult) \<Rightarrow> epoch_ms \<Rightarrow> CronJob list \<Rightarrow> cron_state \<Rightarrow> cron_state" where
  "boot_loop run nowMs [] st = st"
| "boot_loop run nowMs (job # jobs) st =
     (if \<not> cj_runAtBoot job \<or> cj_id job \<in> set (cn_bootRan st) then boot_loop run nowMs jobs st
      else boot_loop run nowMs jobs (runAtBootOnce run job nowMs (st\<lparr>cn_bootRan := cn_bootRan st @ [cj_id job]\<rparr>)))"

text \<open>The part of a tick for one job: anchor it or run what is due.\<close>

definition job_fires :: "zones \<Rightarrow> (CronJob \<Rightarrow> epoch_ms \<Rightarrow> RunResult) \<Rightarrow> epoch_ms \<Rightarrow> int \<Rightarrow> epoch_ms \<Rightarrow> CronJob \<Rightarrow> cron_state
    \<Rightarrow> ((cron_error, unit) result \<times> cron_state) option" where
  "job_fires intl run firedAt dur nowMs job st =
     (case readLastRun st (cj_id job) of
        None \<Rightarrow>
          Some (Inr (), writeLastRun (cj_id job)
            (JObj [(''jobId'', JStr (cj_id job)), (''fireEpoch'', JNum nowMs), (''anchoredAt'', JNum nowMs)]) st)
      | Some lastRun \<Rightarrow>
          (case computeDueFires intl job (Some lastRun) nowMs of
             None \<Rightarrow> None
           | Some (Inl e) \<Rightarrow> Some (Inl e, st)
           | Some (Inr due) \<Rightarrow> Some (Inr (), fold (fireOne run firedAt dur job) due st)))"

text \<open>The loop over the jobs; \<open>earliest\<close> is \<open>None\<close> for the initial infinity.\<close>

fun jobs_loop :: "zones \<Rightarrow> (CronJob \<Rightarrow> epoch_ms \<Rightarrow> RunResult) \<Rightarrow> epoch_ms \<Rightarrow> int \<Rightarrow> epoch_ms \<Rightarrow> CronJob list \<Rightarrow> epoch_ms option \<Rightarrow> cron_state
    \<Rightarrow> ((cron_error, epoch_ms option) result \<times> cron_state) option" where
  "jobs_loop intl run firedAt dur nowMs [] earliest st = Some (Inr earliest, st)"
| "jobs_loop intl run firedAt dur nowMs (job # jobs) earliest st =
     (case job_fires intl run firedAt dur nowMs job st of
        None \<Rightarrow> None
      | Some (Inl e, st') \<Rightarrow> Some (Inl e, st')
      | Some (Inr _, st') \<Rightarrow>
          (case nextRunAfter intl (cj_parsed job) nowMs (cj_timezone job) of
             Inl e \<Rightarrow> Some (Inl e, st')
           | Inr next \<Rightarrow>
               jobs_loop intl run firedAt dur nowMs jobs
                 (case earliest of Some m \<Rightarrow> if next < m then Some next else Some m | None \<Rightarrow> Some next) st'))"

text \<open>
  A tick that was not stopped: the result is the delay of the next one; an error of the loop
  is logged and the next tick is a full wake interval away. A schedule directory that fails
  to load is retried at once.
\<close>

definition tick :: "zones \<Rightarrow> (CronJob \<Rightarrow> epoch_ms \<Rightarrow> RunResult) \<Rightarrow> epoch_ms \<Rightarrow> int \<Rightarrow> epoch_ms \<Rightarrow> (schedule_error, CronJob list) result \<Rightarrow> cron_state
    \<Rightarrow> (int \<times> cron_error option \<times> cron_state) option" where
  "tick intl run firedAt dur nowMs loaded st =
     (case loaded of
        Inl _ \<Rightarrow> Some (0, None, st)
      | Inr jobs \<Rightarrow>
          if jobs = [] then Some (MAX_WAKE_MS, None, st)
          else
            (case jobs_loop intl run firedAt dur nowMs jobs None (boot_loop run nowMs jobs st) of
               None \<Rightarrow> None
             | Some (Inl e, st') \<Rightarrow> Some (MAX_WAKE_MS, Some e, st')
             | Some (Inr earliest, st') \<Rightarrow>
                 Some (max 0 (case earliest of Some m \<Rightarrow> min MAX_WAKE_MS (m - nowMs) | None \<Rightarrow> MAX_WAKE_MS), None, st')))"

section \<open>What the loops rely on: fires strictly later\<close>

locale fire_source =
  fixes next_fire :: "epoch_ms \<Rightarrow> (cron_error, epoch_ms) result"
  assumes later: "next_fire c = Inr t \<Longrightarrow> c < t"
begin

lemma skip_loop_returns: "\<exists>r. skip_loop next_fire now c latest = Some r"
proof (induction "nat (now - c)" arbitrary: c latest rule: less_induct)
  case less
  show ?case
  proof (cases "next_fire c")
    case (Inr t)
    show ?thesis
    proof (cases "t > now")
      case False
      then have "nat (now - t) < nat (now - c)" using later [OF Inr] by simp
      then obtain r where r: "skip_loop next_fire now t t = Some r" using less by blast
      show ?thesis by (subst skip_loop.simps) (simp add: Inr False r)
    qed (use Inr in \<open>subst skip_loop.simps, simp\<close>)
  qed (subst skip_loop.simps, simp)
qed

lemma skip_loop_error:
  assumes "skip_loop next_fire now c latest = Some (Inl e)"
  shows "\<exists>c. next_fire c = Inl e"
  using assms
proof (induction "nat (now - c)" arbitrary: c latest rule: less_induct)
  case less
  show ?case
  proof (cases "next_fire c")
    case (Inr t)
    then have "\<not> t > now" and l: "skip_loop next_fire now t t = Some (Inl e)"
      using less.prems by (subst (asm) skip_loop.simps, simp split: if_splits)+
    then have "nat (now - t) < nat (now - c)" using later [OF Inr] by simp
    from less.hyps [OF this l] show ?thesis .
  next
    case (Inl x)
    then show ?thesis using less.prems by (subst (asm) skip_loop.simps) auto
  qed
qed

text \<open>The result is the given one, or a due fire such that the one after it is not due.\<close>

lemma skip_loop_latest:
  assumes "skip_loop next_fire now c latest = Some (Inr l)"
  shows "(l = latest \<and> (\<exists>t. next_fire c = Inr t \<and> now < t)) \<or>
    (c < l \<and> l \<le> now \<and> (\<exists>p t. c \<le> p \<and> next_fire p = Inr l \<and> next_fire l = Inr t \<and> now < t))"
  using assms
proof (induction "nat (now - c)" arbitrary: c latest rule: less_induct)
  case less
  obtain t where t: "next_fire c = Inr t" using less.prems by (subst (asm) skip_loop.simps) (auto split: sum.splits)
  show ?case
  proof (cases "t > now")
    case True
    then show ?thesis using less.prems t by (subst (asm) skip_loop.simps) auto
  next
    case False
    then have l: "skip_loop next_fire now t t = Some (Inr l)" using less.prems t by (subst (asm) skip_loop.simps) simp
    have "nat (now - t) < nat (now - c)" using later [OF t] False by simp
    from less.hyps [OF this l] show ?thesis
    proof (elim disjE conjE exE)
      fix t' assume "l = t" "next_fire t = Inr t'" "now < t'"
      then show ?thesis using later [OF t] t False by (intro disjI2) auto
    next
      fix p t' assume "t < l" "l \<le> now" "t \<le> p" "next_fire p = Inr l" "next_fire l = Inr t'" "now < t'"
      then show ?thesis using later [OF t] by (intro disjI2 conjI exI [of _ p] exI [of _ t']) auto
    qed
  qed
qed

lemma catch_up_chain:
  assumes "catch_up_loop n next_fire now c = Inr fires"
  shows "length fires \<le> n \<and> sorted_wrt (<) (c # fires) \<and> (\<forall>f \<in> set fires. f \<le> now) \<and>
    (\<forall>i < length fires. next_fire ((c # fires) ! i) = Inr (fires ! i)) \<and>
    (length fires < n \<longrightarrow> (\<exists>t. next_fire (last (c # fires)) = Inr t \<and> now < t))"
  using assms
proof (induction n arbitrary: c fires)
  case (Suc n)
  obtain t where t: "next_fire c = Inr t" using Suc.prems by (auto simp: result_bind_Inr_iff)
  show ?case
  proof (cases "t > now")
    case True
    then show ?thesis using Suc.prems t by auto
  next
    case False
    then obtain fs where fs: "catch_up_loop n next_fire now t = Inr fs" "fires = t # fs"
      using Suc.prems t by (auto simp: result_bind_Inr_iff)
    show ?thesis using Suc.IH [OF fs(1)] later [OF t] t False
      by (auto simp: fs(2) nth_Cons split: nat.splits)
  qed
qed simp

end

lemma try_times_later: "try_times wall offset after first ah am y m0 d ts = Inr (Some t) \<Longrightarrow> t > after"
  using try_times_sound by blast

lemma day_loop_later: "day_loop n wall offset sch after ah am first y m0 d wd = Inr t \<Longrightarrow> t > after"
proof (induction n arbitrary: first y m0 d wd)
  case (Suc n)
  then show ?case
    by (auto simp: result_bind_Inr_iff dest: try_times_later split: if_splits option.splits prod.splits)
qed simp

lemma nextRunAfter_later: "nextRunAfter intl sch after tz = Inr t \<Longrightarrow> after < t"
  by (elim nextRunAfter_Inr) (rule day_loop_later)

interpretation cron: fire_source "\<lambda>cursor. nextRunAfter intl sch cursor tz" for intl sch tz
  by unfold_locales (rule nextRunAfter_later)

section \<open>Every fire at most once\<close>

definition sched_epochs :: "cron_state \<Rightarrow> string \<Rightarrow> epoch_ms list" where
  "sched_epochs st i = map (\<lambda>r. fst (snd r)) (filter (\<lambda>r. fst r = i \<and> \<not> fst (snd (snd r))) (cn_runs st))"

definition boot_runs :: "cron_state \<Rightarrow> string list" where
  "boot_runs st = map fst (filter (\<lambda>r. fst (snd (snd r))) (cn_runs st))"

text \<open>Per job: the fires so far increase and the persisted last run is at or after them.\<close>

definition fires_ok :: "cron_state \<Rightarrow> string \<Rightarrow> bool" where
  "fires_ok st i \<longleftrightarrow> sorted_wrt (<) (sched_epochs st i) \<and>
     (sched_epochs st i \<noteq> [] \<longrightarrow> (\<exists>l. readLastRun st i = Some l \<and> last (sched_epochs st i) \<le> l))"

definition cron_inv :: "cron_state \<Rightarrow> bool" where
  "cron_inv st \<longleftrightarrow> (\<forall>i. fires_ok st i) \<and> distinct (boot_runs st) \<and> set (boot_runs st) = set (cn_bootRan st)"

lemma readLastRun_write [simp]:
  "readLastRun (writeLastRun j data st) i =
     (if i = j then (case jget ''fireEpoch'' data of Some (JNum n) \<Rightarrow> Some n | _ \<Rightarrow> None) else readLastRun st i)"
  by (simp add: readLastRun_def writeLastRun_def jm.get_put)

lemma writeLastRun_other [simp]:
  "cn_runs (writeLastRun j data st) = cn_runs st" "cn_bootRan (writeLastRun j data st) = cn_bootRan st"
  "sched_epochs (writeLastRun j data st) i = sched_epochs st i" "boot_runs (writeLastRun j data st) = boot_runs st"
  by (simp_all add: writeLastRun_def sched_epochs_def boot_runs_def)

lemma writeRun_other [simp]:
  "readLastRun (writeRun j t b x st) i = readLastRun st i" "cn_bootRan (writeRun j t b x st) = cn_bootRan st"
  "sched_epochs (writeRun j t b x st) i = sched_epochs st i @ (if i = j \<and> \<not> b then [t] else [])"
  "boot_runs (writeRun j t b x st) = boot_runs st @ (if b then [j] else [])"
  by (simp_all add: writeRun_def readLastRun_def sched_epochs_def boot_runs_def)

lemma fireOne_state:
  "readLastRun (fireOne run fa dur job t st) i = (if i = cj_id job then Some t else readLastRun st i)"
  "sched_epochs (fireOne run fa dur job t st) i = sched_epochs st i @ (if i = cj_id job then [t] else [])"
  "boot_runs (fireOne run fa dur job t st) = boot_runs st" "cn_bootRan (fireOne run fa dur job t st) = cn_bootRan st"
  by (simp_all add: fireOne_def Let_def)

lemma sorted_last: "sorted_wrt (<) xs \<Longrightarrow> x \<in> set xs \<Longrightarrow> x \<le> last (xs :: int list)"
proof (induction xs)
  case (Cons a xs)
  then show ?case by (cases "xs = []") (auto intro: less_imp_le)
qed simp

lemma fires_ok_fireOne:
  assumes "fires_ok st i" "i = cj_id job \<Longrightarrow> \<exists>l. readLastRun st i = Some l \<and> l < t"
  shows "fires_ok (fireOne run fa dur job t st) i"
proof (cases "i = cj_id job")
  case True
  then obtain l where "readLastRun st i = Some l" "l < t" using assms(2) by blast
  moreover have "last (sched_epochs st i) < t" if "sched_epochs st i \<noteq> []" using assms(1) calculation that by (auto simp: fires_ok_def)
  moreover have "x < t" if "x \<in> set (sched_epochs st i)" for x
  proof -
    have "x \<le> last (sched_epochs st i)" using assms(1) that sorted_last by (auto simp: fires_ok_def)
    then show ?thesis using that calculation(3) by force
  qed
  ultimately show ?thesis using True assms(1) by (simp add: fires_ok_def fireOne_state sorted_wrt_append)
next
  case False
  then show ?thesis using assms(1) by (simp add: fires_ok_def fireOne_state)
qed

lemma cron_inv_fires:
  assumes "cron_inv st" "readLastRun st (cj_id job) = Some l" "sorted_wrt (<) (l # due)"
  shows "cron_inv (fold (fireOne run fa dur job) due st)"
  using assms
proof (induction due arbitrary: st l)
  case (Cons t due)
  have "cron_inv (fireOne run fa dur job t st)"
    using Cons.prems by (auto simp: cron_inv_def fireOne_state intro!: fires_ok_fireOne)
  moreover have "readLastRun (fireOne run fa dur job t st) (cj_id job) = Some t" by (simp add: fireOne_state)
  ultimately show ?case using Cons.IH Cons.prems(3) by simp
qed simp

lemma computeDueFires_sorted:
  assumes "computeDueFires intl job (Some l) now = Some (Inr due)"
  shows "sorted_wrt (<) (l # due) \<and> set due \<subseteq> {l<..now} \<and> length due \<le> (if cj_missed job = Skip then 1 else CATCH_UP_CAP)"
proof (cases "cj_missed job = Skip")
  case True
  then obtain x where x: "skip_loop (\<lambda>c. nextRunAfter intl (cj_parsed job) c (cj_timezone job)) now l (- 1) = Some (Inr x)"
    and due: "due = (if x \<ge> 0 then [x] else [])"
    using assms by (auto simp: computeDueFires_def result_bind_Inr_iff)
  from cron.skip_loop_latest [OF x] show ?thesis using True by (auto simp: due)
next
  case False
  then have "catch_up_loop CATCH_UP_CAP (\<lambda>c. nextRunAfter intl (cj_parsed job) c (cj_timezone job)) now l = Inr due"
    using assms by (simp add: computeDueFires_def)
  from cron.catch_up_chain [OF this] show ?thesis using False by auto
qed

lemma cron_inv_job:
  assumes "cron_inv st" "job_fires intl run fa dur now job st = Some (r, st')"
  shows "cron_inv st'"
proof (cases "readLastRun st (cj_id job)")
  case None
  then have "sched_epochs st (cj_id job) = []" using assms(1) by (auto simp: cron_inv_def fires_ok_def)
  then show ?thesis using assms None by (auto simp: job_fires_def cron_inv_def fires_ok_def)
next
  case (Some l)
  then show ?thesis using assms cron_inv_fires [OF assms(1) Some] computeDueFires_sorted
    by (auto simp: job_fires_def split: option.splits sum.splits)
qed

lemma cron_inv_jobs:
  assumes "cron_inv st" "jobs_loop intl run fa dur now jobs m st = Some (r, st')"
  shows "cron_inv st'"
  using assms
proof (induction jobs arbitrary: m st)
  case (Cons job jobs)
  obtain q st1 where j: "job_fires intl run fa dur now job st = Some (q, st1)" using Cons.prems(2) by (auto split: option.splits)
  have "cron_inv st1" using cron_inv_job [OF Cons.prems(1) j] .
  then show ?case using Cons.prems(2) Cons.IH [of st1] j by (auto split: sum.splits)
qed simp

lemma cron_inv_boot: "cron_inv st \<Longrightarrow> cron_inv (boot_loop run now jobs st)"
proof (induction jobs arbitrary: st)
  case (Cons job jobs)
  let ?st = "runAtBootOnce run job now (st\<lparr>cn_bootRan := cn_bootRan st @ [cj_id job]\<rparr>)"
  have e: "sched_epochs ?st i = sched_epochs st i" "readLastRun ?st i = readLastRun st i" for i
    by (simp_all add: runAtBootOnce_def) (simp_all add: sched_epochs_def readLastRun_def)
  have "boot_runs ?st = boot_runs st @ [cj_id job]" by (simp add: runAtBootOnce_def) (simp add: boot_runs_def)
  moreover have "cn_bootRan ?st = cn_bootRan st @ [cj_id job]" by (simp add: runAtBootOnce_def)
  ultimately have "cj_id job \<notin> set (cn_bootRan st) \<Longrightarrow> cron_inv ?st"
    using Cons.prems by (auto simp: cron_inv_def fires_ok_def e)
  then show ?case using Cons by simp
qed simp

inductive cron_run :: "cron_state \<Rightarrow> bool" where
  start: "cron_run \<lparr>cn_lastRun = [], cn_runs = [], cn_bootRan = []\<rparr>"
| tick: "cron_run st \<Longrightarrow> tick intl run firedAt dur nowMs loaded st = Some (delay, err, st') \<Longrightarrow> cron_run st'"

lemma cron_inv_tick:
  assumes "cron_inv st" "tick intl run fa dur now loaded st = Some (delay, err, st')"
  shows "cron_inv st'"
  using assms cron_inv_jobs [OF cron_inv_boot [OF assms(1)]]
  by (fastforce simp: tick_def split: sum.splits if_splits option.splits)

lemma cron_run_inv: "cron_run st \<Longrightarrow> cron_inv st"
proof (induction rule: cron_run.induct)
  case start
  show ?case by (simp add: cron_inv_def fires_ok_def sched_epochs_def boot_runs_def)
next
  case tick
  then show ?case using cron_inv_tick by blast
qed

section \<open>Properties of the scheduler\<close>


definition w_job :: "string \<Rightarrow> CronSchedule \<Rightarrow> CronJob" where
  "w_job i sch = \<lparr>cj_id = i, cj_schedule = ''s'', cj_timezone = ''UTC'', cj_missed = CatchUp, cj_prompt = Some ''p'',
     cj_command = None, cj_timeout = None, cj_runAtBoot = False, cj_parsed = sch\<rparr>"



definition w_run :: "CronJob \<Rightarrow> epoch_ms \<Rightarrow> RunResult" where
  "w_run job t = \<lparr>ru_ok = True, ru_text = ''done'', ru_sessionFile = None, ru_error = None\<rparr>"

lemma w_cron_run: "\<exists>st. cron_run st \<and> cn_lastRun st \<noteq> []"
proof -
  let ?st = "\<lparr>cn_lastRun = [], cn_runs = [], cn_bootRan = []\<rparr>" and ?job = "w_job ''j'' w_daily"
  let ?st1 = "writeLastRun ''j'' (JObj [(''jobId'', JStr ''j''), (''fireEpoch'', JNum 1000), (''anchoredAt'', JNum 1000)]) ?st"
  have "readLastRun ?st ''j'' = None" by (simp add: readLastRun_def map_get_def)
  then have "job_fires utc_only w_run 0 0 1000 ?job ?st = Some (Inr (), ?st1)" by (simp add: job_fires_def w_job_def)
  moreover have "cron_fires w_daily 34200000" using w_daily_fires by blast
  then obtain t where "nextRunAfter utc_only w_daily 1000 ''UTC'' = Inr t"
    using fixed_zone_result [where intl = utc_only and tz = "''UTC''" and after = 1000 and off = 0 and t' = 34200000,
        OF w_daily_parse utc_known fixed_zone_utc] by (auto simp: MS_PER_DAY_def)
  ultimately have "\<exists>d. tick utc_only w_run 0 0 1000 (Inr [?job]) ?st = Some (d, None, ?st1)"
    by (simp add: tick_def w_job_def)
  then have "cron_run ?st1" using cron_run.start cron_run.tick by blast
  moreover have "cn_lastRun ?st1 \<noteq> []" by (simp add: writeLastRun_def)
  ultimately show ?thesis by blast
qed



definition w_feb30 :: CronSchedule where
  "w_feb30 = \<lparr>cs_minute = [0], cs_hour = [0], cs_dayOfMonth = [30], cs_month = [2], cs_dayOfWeek = [0..<7]\<rparr>"

lemma w_feb30_parse: "parseCronExpression ''0 0 30 2 *'' = Inr w_feb30"
  by code_simp

lemma w_feb30_never: "\<not> cron_fires w_feb30 l"
proof -
  obtain y m0 d where c: "civil_of_day (l div MS_PER_DAY) = (y, m0, d)" by (cases "civil_of_day (l div MS_PER_DAY)")
  have "d \<le> month_lengths y ! nat m0" using civil_of_day_valid [OF c] by blast
  then have "\<not> (m0 = 1 \<and> d = 30)" by (auto simp: month_lengths_def split: if_splits)
  then show ?thesis using c by (auto simp: cron_fires_def local_wall_def day_matches_def w_feb30_def Let_def)
qed

lemma w_feb30_fails: "\<exists>e. nextRunAfter utc_only w_feb30 1000 ''UTC'' = Inl e"
  using nextRunAfter_fixed [where intl = utc_only and tz = "''UTC''" and after = 1000 and off = 0, OF w_feb30_parse utc_known fixed_zone_utc]
    w_feb30_never by (auto split: sum.splits)


end
