(* ===== verification/Emitter_Frames.thy ===== *)
theory Emitter_Frames
  imports Js_Number Contracts
begin

text \<open>
  \<open>packages/core/src/outbound-emitter.ts\<close>, reading the frames of the agent process: text
  deltas, attachments, token usage and model errors. A frame is a JSON object; every read
  goes through the guards of the source, so any other shape yields the stated default.
\<close>

definition DELIVERY_ATTACHMENT_TOOL :: string where
  "DELIVERY_ATTACHMENT_TOOL = ''deliver_attachment''"

definition STAY_SILENT_TOOL :: string where
  "STAY_SILENT_TOOL = ''stay_silent''"

definition nonnegInt :: "json option \<Rightarrow> int" where
  "nonnegInt v = (case js_number js_floor v of Some n \<Rightarrow> if n > 0 then n else 0 | None \<Rightarrow> 0)"

definition nonnegNum :: "json option \<Rightarrow> int" where
  "nonnegNum v = (case js_number js_int v of Some n \<Rightarrow> if n > 0 then n else 0 | None \<Rightarrow> 0)"

text \<open>\<open>v && typeof v === "object"\<close>: an object or an array, with its properties.\<close>

definition as_object :: "json option \<Rightarrow> json option" where
  "as_object v = (case v of Some (JObj kvs) \<Rightarrow> Some (JObj kvs) | Some (JArr xs) \<Rightarrow> Some (JArr xs) | _ \<Rightarrow> None)"

definition extractTextDelta :: "json \<Rightarrow> string option" where
  "extractTextDelta frame =
     (case as_object (jget ''assistantMessageEvent'' frame) of
        None \<Rightarrow> None
      | Some ev \<Rightarrow> if jget ''type'' ev \<noteq> Some (JStr ''text_delta'') then None else jstring (jget ''delta'' ev))"

text \<open>A property that is a non-empty string.\<close>

definition nonempty_prop :: "string \<Rightarrow> json \<Rightarrow> string option" where
  "nonempty_prop k v = (case jstring (jget k v) of Some s \<Rightarrow> if s = [] then None else Some s | None \<Rightarrow> None)"

definition extractDeliveryAttachment :: "json \<Rightarrow> WorkspaceAttachment option" where
  "extractDeliveryAttachment frame =
     (if jget ''toolName'' frame \<noteq> Some (JStr DELIVERY_ATTACHMENT_TOOL) \<or> jget ''isError'' frame = Some (JBool True) then None
      else Option.bind (as_object (jget ''result'' frame)) (\<lambda>result.
           Option.bind (as_object (jget ''details'' result)) (\<lambda>details.
           Option.bind (as_object (jget ''ompBundlerAttachment'' details)) (\<lambda>v.
             map_option (\<lambda>path. \<lparr>wa_path = path, wa_name = nonempty_prop ''name'' v,
               wa_mediaType = nonempty_prop ''mediaType'' v\<rparr>) (nonempty_prop ''path'' v)))))"

definition usageFromMessage :: "json \<Rightarrow> TurnUsage option" where
  "usageFromMessage msg =
     (case as_object (jget ''usage'' msg) of
        None \<Rightarrow> None
      | Some u \<Rightarrow> Some
          \<lparr>tu_input = nonnegInt (jget ''input'' u), tu_output = nonnegInt (jget ''output'' u),
           tu_cacheRead = nonnegInt (jget ''cacheRead'' u), tu_cacheWrite = nonnegInt (jget ''cacheWrite'' u),
           tu_costUsd = (case as_object (jget ''cost'' u) of Some cost \<Rightarrow> nonnegNum (jget ''total'' cost) | None \<Rightarrow> 0)\<rparr>)"

definition extractUsage :: "json \<Rightarrow> TurnUsage option" where
  "extractUsage frame =
     (case as_object (jget ''message'' frame) of None \<Rightarrow> None | Some message \<Rightarrow> usageFromMessage message)"

definition no_usage :: TurnUsage where
  "no_usage = \<lparr>tu_input = 0, tu_output = 0, tu_cacheRead = 0, tu_cacheWrite = 0, tu_costUsd = 0\<rparr>"

fun first_usage :: "json list \<Rightarrow> TurnUsage" where
  "first_usage [] = no_usage"
| "first_usage (msg # msgs) =
     (if as_object (Some msg) \<noteq> None \<and> jget ''role'' msg = Some (JStr ''assistant'')
      then (case usageFromMessage msg of Some u \<Rightarrow> u | None \<Rightarrow> first_usage msgs)
      else first_usage msgs)"

definition extractUsageFromAgentEnd :: "json \<Rightarrow> TurnUsage" where
  "extractUsageFromAgentEnd frame =
     (case jget ''messages'' frame of Some (JArr messages) \<Rightarrow> first_usage messages | _ \<Rightarrow> no_usage)"

text \<open>The loop from the last message to the first.\<close>

fun last_assistant_error :: "json list \<Rightarrow> bool" where
  "last_assistant_error [] = False"
| "last_assistant_error (message # rest) =
     (if jget ''role'' message = Some (JStr ''assistant'') then jget ''stopReason'' message = Some (JStr ''error'')
      else last_assistant_error rest)"

definition agentEndHasModelError :: "json \<Rightarrow> bool" where
  "agentEndHasModelError frame =
     (case jget ''messages'' frame of Some (JArr messages) \<Rightarrow> last_assistant_error (rev messages) | _ \<Rightarrow> False)"

definition describeSubagentFrame :: "json \<Rightarrow> string" where
  "describeSubagentFrame frame =
     (let ty = jget ''type'' frame;
          label = (if ty = Some (JStr ''subagent_lifecycle'') then ''subagent lifecycle''
                   else if ty = Some (JStr ''subagent_progress'') then ''subagent progress''
                   else ''subagent event'');
          i = (case jstring (jget ''id'' frame) of Some s \<Rightarrow> s | None \<Rightarrow> []);
          name = (case jstring (jget ''name'' frame) of Some s \<Rightarrow> s | None \<Rightarrow> []);
          detail = (if name \<noteq> [] then name else i)
      in if detail \<noteq> [] then label @ '': '' @ detail else label)"

section \<open>What the reads guarantee\<close>

lemma nonneg [simp]: "0 \<le> nonnegInt v" "0 \<le> nonnegNum v"
  by (auto simp: nonnegInt_def nonnegNum_def split: option.splits)

definition usage_ok :: "TurnUsage \<Rightarrow> bool" where
  "usage_ok u \<longleftrightarrow> 0 \<le> tu_input u \<and> 0 \<le> tu_output u \<and> 0 \<le> tu_cacheRead u \<and> 0 \<le> tu_cacheWrite u \<and> 0 \<le> tu_costUsd u"

lemma usage_ok_no_usage [simp]: "usage_ok no_usage"
  by (simp add: usage_ok_def no_usage_def)

lemma usage_ok_message: "usageFromMessage msg = Some u \<Longrightarrow> usage_ok u"
  by (auto simp: usageFromMessage_def usage_ok_def split: option.splits)

lemma usage_ok_extract: "extractUsage frame = Some u \<Longrightarrow> usage_ok u"
  by (auto simp: extractUsage_def intro: usage_ok_message split: option.splits)

lemma usage_ok_first [simp]: "usage_ok (first_usage msgs)"
  by (induction msgs) (auto intro: usage_ok_message split: option.splits)

lemma usage_ok_agent_end [simp]: "usage_ok (extractUsageFromAgentEnd frame)"
  by (simp add: extractUsageFromAgentEnd_def split: option.splits json.splits)

lemma nonempty_prop_Some: "nonempty_prop k v = Some s \<Longrightarrow> s \<noteq> []"
  by (auto simp: nonempty_prop_def split: option.splits if_splits)

lemma attachment_path: "extractDeliveryAttachment frame = Some a \<Longrightarrow> wa_path a \<noteq> []"
  by (auto simp: extractDeliveryAttachment_def Option.bind_eq_Some_conv dest: nonempty_prop_Some split: if_splits)

end
