(* ===== verification/Outbound_Emitter.thy ===== *)
theory Outbound_Emitter
  imports Emitter_Frames Sql_Table
begin

text \<open>
  \<open>packages/core/src/outbound-emitter.ts\<close>: the emitter of one correlation. It maps frames
  of the agent process to outbound events, persists durable ones in the outbox before their
  POST is queued, and delivers the queue one POST at a time with a bounded retry schedule.

  The state holds the fields of the class, the rows of the outbox (a table shared with the
  emitters of other correlations), the delivery chain as the list of deliveries that have
  not settled, and the requests made so far. \<open>ee_uuid\<close>, \<open>ee_now\<close> and \<open>ee_utc\<close> give the
  results of the successive calls of the id generator and the clock. A lifecycle hook takes
  the state of whoever registered it and answers or throws; a hook that was not registered is
  one that does nothing. A throw of the source is \<open>Inl\<close>. Failures of the database other
  than a key conflict or a closed handle are not modelled.
\<close>

section \<open>Data\<close>

datatype OutboxStatus = OPending | ODelivered | OPermanentFailure

record OutboxRow =
  ob_eventId :: string
  ob_adapterId :: string
  ob_conversationKey :: string
  ob_correlationId :: string
  ob_sequence :: nat
  ob_eventType :: string
  ob_payload :: string
  ob_status :: OutboxStatus
  ob_attempts :: nat
  ob_lastError :: "string option"
  ob_createdAt :: string
  ob_updatedAt :: string

record AdapterTarget =
  at_callbackUrl :: string
  at_sign :: "string \<Rightarrow> (string, string) result"

record EmitterOptions =
  eo_adapterId :: string
  eo_conversationKey :: string
  eo_correlationId :: string
  eo_resolveAdapterTarget :: "string \<Rightarrow> AdapterTarget option"
  eo_dbPath :: string
  eo_progressThresholdMs :: int
  eo_retryDelaysMs :: "int list"
  eo_requestTimeoutMs :: int

record 'h EmitterEnv =
  ee_uuid :: "nat \<Rightarrow> string"
  ee_now :: "nat \<Rightarrow> epoch_ms"
  ee_utc :: "nat \<Rightarrow> string"
  ee_iso :: "epoch_ms \<Rightarrow> string"
  ee_prepared :: "json \<Rightarrow> 'h \<Rightarrow> (string, unit) result \<times> 'h"
  ee_delivered :: "json \<Rightarrow> 'h \<Rightarrow> (string, unit) result \<times> 'h"
  ee_failed :: "json \<Rightarrow> string \<Rightarrow> 'h \<Rightarrow> (string, unit) result \<times> 'h"

datatype emitter_error =
    OptionRequired string
  | OptionInvalid string
  | DuplicateEventConflict string
  | HookThrew string
  | DatabaseClosed
  | PayloadCorrupt
  | NoPermanentFailure string
  | ChangedBeforeRetry string

text \<open>
  A queued delivery: a rejection left by a prepared hook, a durable event that has not
  started, one whose target is resolved and that is about to make its next attempt, or a
  best-effort event. The tag says which call waits for it.
\<close>

datatype delivery =
    Rejected emitter_error
  | Durable json string nat
  | Attempting json string AdapterTarget nat string
  | BestEffort json

datatype waiter = Live | Resuming nat | Retrying string

record http_request =
  hr_url :: string
  hr_signature :: string
  hr_eventType :: "json option"
  hr_body :: string
  hr_delay :: int

record 'h emitter =
  em_closed :: bool
  em_sequence :: nat
  em_replyText :: string
  em_replyAttachments :: "WorkspaceAttachment list"
  em_replyUsage :: "TurnUsage option"
  em_terminalEmitted :: bool
  em_staySilent :: bool
  em_startedEmitted :: bool
  em_presence :: "Presence option"
  em_lastProgressAt :: epoch_ms
  em_pendingProgress :: "string option"
  em_deliveryChain :: "(waiter \<times> delivery) list"
  em_settled :: "(emitter_error, unit) result"
  em_resumes :: nat
  em_resumePromise :: "nat option"
  em_reads :: nat
  em_requests :: "http_request list"
  em_outbox :: "OutboxRow list"
  em_hooks :: 'h

type_synonym 'h emit_op = "'h emitter \<Rightarrow> (emitter_error, unit) result \<times> 'h emitter"

definition op_then :: "'h emit_op \<Rightarrow> 'h emit_op \<Rightarrow> 'h emit_op" where
  "op_then f g s = (case f s of (Inl e, s') \<Rightarrow> (Inl e, s') | (Inr _, s') \<Rightarrow> g s')"

definition of_emitter :: "EmitterOptions \<Rightarrow> OutboxRow \<Rightarrow> bool" where
  "of_emitter opts r \<longleftrightarrow> ob_adapterId r = eo_adapterId opts \<and> ob_correlationId r = eo_correlationId opts"

definition terminal_types :: "string list" where
  "terminal_types = [''turn.reply'', ''turn.error'', ''turn.cancelled'']"

section \<open>Construction\<close>

definition check_options :: "EmitterOptions \<Rightarrow> (emitter_error, unit) result" where
  "check_options opts =
     (if eo_adapterId opts = [] then Inl (OptionRequired ''adapterId'')
      else if eo_conversationKey opts = [] then Inl (OptionRequired ''conversationKey'')
      else if eo_correlationId opts = [] then Inl (OptionRequired ''correlationId'')
      else if eo_dbPath opts = [] then Inl (OptionRequired ''dbPath'')
      else if eo_progressThresholdMs opts < 0 then Inl (OptionInvalid ''progressThresholdMs'')
      else if eo_requestTimeoutMs opts \<le> 0 then Inl (OptionInvalid ''requestTimeoutMs'')
      else if list_ex (\<lambda>d. d < 0) (eo_retryDelaysMs opts) then Inl (OptionInvalid ''retryDelaysMs'')
      else Inr ())"

definition newEmitter :: "EmitterOptions \<Rightarrow> OutboxRow list \<Rightarrow> 'h \<Rightarrow> (emitter_error, 'h emitter) result" where
  "newEmitter opts rows h =
     result_bind (check_options opts) (\<lambda>_.
       let own = filter (of_emitter opts) rows;
           maxSeq = (case own of [] \<Rightarrow> 0 | _ \<Rightarrow> Max (ob_sequence ` set own));
           terminalRow = sql_get (\<lambda>r. of_emitter opts r \<and> ob_eventType r \<in> set terminal_types) rows
       in Inr
         \<lparr>em_closed = False, em_sequence = maxSeq, em_replyText = [], em_replyAttachments = [], em_replyUsage = None,
          em_terminalEmitted = (terminalRow \<noteq> None), em_staySilent = False, em_startedEmitted = (terminalRow \<noteq> None),
          em_presence = None, em_lastProgressAt = 0, em_pendingProgress = None, em_deliveryChain = [], em_settled = Inr (),
          em_resumes = 0, em_resumePromise = None, em_reads = 0, em_requests = [], em_outbox = rows, em_hooks = h\<rparr>)"

section \<open>Queueing and persisting\<close>

definition enqueue :: "waiter \<Rightarrow> delivery \<Rightarrow> 'h emitter \<Rightarrow> 'h emitter" where
  "enqueue w p s = s\<lparr>em_deliveryChain := em_deliveryChain s @ [(w, p)]\<rparr>"

definition take_uuid :: "'h EmitterEnv \<Rightarrow> 'h emitter \<Rightarrow> string \<times> 'h emitter" where
  "take_uuid env s = (ee_uuid env (em_reads s), s\<lparr>em_reads := Suc (em_reads s)\<rparr>)"

definition take_now :: "'h EmitterEnv \<Rightarrow> 'h emitter \<Rightarrow> epoch_ms \<times> 'h emitter" where
  "take_now env s = (ee_now env (em_reads s), s\<lparr>em_reads := Suc (em_reads s)\<rparr>)"

definition take_utc :: "'h EmitterEnv \<Rightarrow> 'h emitter \<Rightarrow> string \<times> 'h emitter" where
  "take_utc env s = (ee_utc env (em_reads s), s\<lparr>em_reads := Suc (em_reads s)\<rparr>)"

definition nextSequence :: "'h emitter \<Rightarrow> nat \<times> 'h emitter" where
  "nextSequence s = (Suc (em_sequence s), s\<lparr>em_sequence := Suc (em_sequence s)\<rparr>)"

definition ob_key :: "OutboxRow \<Rightarrow> string" where
  "ob_key = ob_eventId"

definition outbox_row :: "EmitterOptions \<Rightarrow> OutboundEvent \<Rightarrow> OutboxRow" where
  "outbox_row opts e =
     \<lparr>ob_eventId = ev_eventId e, ob_adapterId = eo_adapterId opts, ob_conversationKey = eo_conversationKey opts,
      ob_correlationId = eo_correlationId opts, ob_sequence = ev_sequence e, ob_eventType = event_type (ev_body e),
      ob_payload = json_stringify (event_json e), ob_status = OPending, ob_attempts = 0, ob_lastError = None,
      ob_createdAt = ev_occurredAt e, ob_updatedAt = ev_occurredAt e\<rparr>"

text \<open>\<open>Inr True\<close>: inserted; \<open>Inr False\<close>: the same row is there already.\<close>

definition persistEvent :: "EmitterOptions \<Rightarrow> OutboundEvent \<Rightarrow> 'h emitter \<Rightarrow> (emitter_error, bool) result \<times> 'h emitter" where
  "persistEvent opts e s =
     (if em_closed s then (Inl DatabaseClosed, s)
      else (case sql_insert ob_key (outbox_row opts e) (em_outbox s) of
              Some rows \<Rightarrow> (Inr True, s\<lparr>em_outbox := rows\<rparr>)
            | None \<Rightarrow>
                (case sql_get (\<lambda>r. ob_eventId r = ev_eventId e) (em_outbox s) of
                   None \<Rightarrow> (Inl DatabaseClosed, s)
                 | Some r \<Rightarrow>
                     if ob_adapterId r = eo_adapterId opts \<and> ob_conversationKey r = eo_conversationKey opts \<and>
                        ob_correlationId r = eo_correlationId opts \<and> ob_sequence r = ev_sequence e \<and>
                        ob_eventType r = event_type (ev_body e) \<and> ob_payload r = json_stringify (event_json e) \<and>
                        ob_createdAt r = ev_occurredAt e
                     then (Inr False, s) else (Inl (DuplicateEventConflict (ev_eventId e)), s))))"

definition deliverDurable :: "EmitterOptions \<Rightarrow> 'h EmitterEnv \<Rightarrow> OutboundEvent \<Rightarrow> 'h emit_op" where
  "deliverDurable opts env e s =
     (case ee_prepared env (event_json e) (em_hooks s) of
        (Inl err, h) \<Rightarrow> (Inr (), enqueue Live (Rejected (HookThrew err)) (s\<lparr>em_hooks := h\<rparr>))
      | (Inr _, h) \<Rightarrow>
          (case persistEvent opts e (s\<lparr>em_hooks := h\<rparr>) of
             (Inl err, s') \<Rightarrow> (Inl err, s')
           | (Inr False, s') \<Rightarrow> (Inr (), s')
           | (Inr True, s') \<Rightarrow> (Inr (), enqueue Live (Durable (event_json e) (json_stringify (event_json e)) 0) s')))"

definition deliverBestEffort :: "OutboundEvent \<Rightarrow> 'h emitter \<Rightarrow> 'h emitter" where
  "deliverBestEffort e s = enqueue Live (BestEffort (event_json e)) s"

text \<open>The fields every event literal has; \<open>occurredAt\<close> is evaluated after id and sequence.\<close>

definition make_event :: "EmitterOptions \<Rightarrow> 'h EmitterEnv \<Rightarrow> event_body \<Rightarrow> epoch_ms option \<Rightarrow> 'h emitter \<Rightarrow> OutboundEvent \<times> 'h emitter" where
  "make_event opts env body at s =
     (let (i, s1) = take_uuid env s; (n, s2) = nextSequence s1;
          (t, s3) = (case at of Some t \<Rightarrow> (t, s2) | None \<Rightarrow> take_now env s2)
      in (\<lparr>ev_body = body, ev_eventId = i, ev_conversationKey = eo_conversationKey opts,
           ev_correlationId = eo_correlationId opts, ev_sequence = n, ev_occurredAt = ee_iso env t\<rparr>, s3))"

definition emit_durable :: "EmitterOptions \<Rightarrow> 'h EmitterEnv \<Rightarrow> event_body \<Rightarrow> epoch_ms option \<Rightarrow> 'h emit_op" where
  "emit_durable opts env body at s = (let (e, s') = make_event opts env body at s in deliverDurable opts env e s')"

definition emit_best_effort :: "EmitterOptions \<Rightarrow> 'h EmitterEnv \<Rightarrow> event_body \<Rightarrow> 'h emitter \<Rightarrow> 'h emitter" where
  "emit_best_effort opts env body s = (let (e, s') = make_event opts env body None s in deliverBestEffort e s')"

section \<open>Handlers\<close>

text \<open>\<open>handleTurnStart\<close> and \<open>ensureStarted\<close> have the same body.\<close>

definition ensureStarted :: "EmitterOptions \<Rightarrow> 'h EmitterEnv \<Rightarrow> 'h emit_op" where
  "ensureStarted opts env s =
     (if em_startedEmitted s then (Inr (), s)
      else (let (now, s1) = take_now env (s\<lparr>em_startedEmitted := True\<rparr>)
            in emit_durable opts env TurnStarted (Some now) (s1\<lparr>em_lastProgressAt := now\<rparr>)))"

definition handleTurnStart :: "EmitterOptions \<Rightarrow> 'h EmitterEnv \<Rightarrow> 'h emit_op" where
  "handleTurnStart = ensureStarted"

definition emitProviderError :: "EmitterOptions \<Rightarrow> 'h EmitterEnv \<Rightarrow> string \<Rightarrow> string \<Rightarrow> bool \<Rightarrow> 'h emit_op" where
  "emitProviderError opts env code message retryable s =
     (if em_closed s \<or> em_terminalEmitted s then (Inr (), s)
      else op_then (ensureStarted opts env)
             (\<lambda>s. emit_durable opts env (TurnError code message retryable) None (s\<lparr>em_terminalEmitted := True\<rparr>)) s)"

definition emitPresence :: "EmitterOptions \<Rightarrow> 'h EmitterEnv \<Rightarrow> Presence \<Rightarrow> 'h emit_op" where
  "emitPresence opts env p s =
     (if em_presence s = Some p then (Inr (), s)
      else emit_durable opts env (PresenceChanged p) None (s\<lparr>em_presence := Some p\<rparr>))"

definition emitCancelled :: "EmitterOptions \<Rightarrow> 'h EmitterEnv \<Rightarrow> 'h emit_op" where
  "emitCancelled opts env s =
     (if em_closed s \<or> em_terminalEmitted s then (Inr (), s)
      else emit_durable opts env TurnCancelled None (s\<lparr>em_terminalEmitted := True\<rparr>))"

definition emitDirectReply :: "EmitterOptions \<Rightarrow> 'h EmitterEnv \<Rightarrow> string \<Rightarrow> 'h emit_op" where
  "emitDirectReply opts env text s =
     (if em_closed s \<or> em_terminalEmitted s then (Inr (), s)
      else emit_durable opts env (TurnReply text [] no_usage) None (s\<lparr>em_terminalEmitted := True\<rparr>))"

definition emitDelta :: "EmitterOptions \<Rightarrow> 'h EmitterEnv \<Rightarrow> string \<Rightarrow> 'h emitter \<Rightarrow> 'h emitter" where
  "emitDelta opts env text s = emit_best_effort opts env (TurnDelta text) s"

definition emitProgress :: "EmitterOptions \<Rightarrow> 'h EmitterEnv \<Rightarrow> string \<Rightarrow> 'h emitter \<Rightarrow> 'h emitter" where
  "emitProgress opts env message s =
     (let (now, s') = take_now env s in emit_best_effort opts env (TurnProgress message) (s'\<lparr>em_lastProgressAt := now\<rparr>))"

definition flushProgress :: "EmitterOptions \<Rightarrow> 'h EmitterEnv \<Rightarrow> 'h emitter \<Rightarrow> 'h emitter" where
  "flushProgress opts env s =
     (case em_pendingProgress s of
        None \<Rightarrow> s
      | Some message \<Rightarrow>
          let (now, s') = take_now env s
          in if now - em_lastProgressAt s \<ge> eo_progressThresholdMs opts
             then emitProgress opts env message (s'\<lparr>em_pendingProgress := None\<rparr>) else s')"

definition handleProgressCandidate :: "EmitterOptions \<Rightarrow> 'h EmitterEnv \<Rightarrow> string \<Rightarrow> 'h emitter \<Rightarrow> 'h emitter" where
  "handleProgressCandidate opts env message s = flushProgress opts env (s\<lparr>em_pendingProgress := Some message\<rparr>)"

definition handleMessageUpdate :: "EmitterOptions \<Rightarrow> 'h EmitterEnv \<Rightarrow> json \<Rightarrow> 'h emitter \<Rightarrow> 'h emitter" where
  "handleMessageUpdate opts env frame s =
     (case extractTextDelta frame of
        None \<Rightarrow> s
      | Some delta \<Rightarrow>
          if delta = [] then s
          else (let s1 = s\<lparr>em_replyText := em_replyText s @ delta\<rparr>
                in if em_closed s1 \<or> em_terminalEmitted s1 then s1
                   else handleProgressCandidate opts env delta (emitDelta opts env delta s1)))"

definition handleTurnEnd :: "json \<Rightarrow> 'h emitter \<Rightarrow> 'h emitter" where
  "handleTurnEnd frame s = (case extractUsage frame of Some usage \<Rightarrow> s\<lparr>em_replyUsage := Some usage\<rparr> | None \<Rightarrow> s)"

definition handleToolExecutionEnd :: "json \<Rightarrow> 'h emitter \<Rightarrow> 'h emitter" where
  "handleToolExecutionEnd frame s =
     (let s1 = (case extractDeliveryAttachment frame of
                  Some a \<Rightarrow> if list_ex (\<lambda>c. wa_path c = wa_path a) (em_replyAttachments s) then s
                            else s\<lparr>em_replyAttachments := em_replyAttachments s @ [a]\<rparr>
                | None \<Rightarrow> s)
      in if jget ''toolName'' frame = Some (JStr STAY_SILENT_TOOL) \<and> jget ''isError'' frame \<noteq> Some (JBool True)
         then s1\<lparr>em_staySilent := True\<rparr> else s1)"

definition reply_usage :: "json \<Rightarrow> 'h emitter \<Rightarrow> TurnUsage" where
  "reply_usage frame s = (case em_replyUsage s of Some u \<Rightarrow> u | None \<Rightarrow> extractUsageFromAgentEnd frame)"

definition handleAgentEnd :: "EmitterOptions \<Rightarrow> 'h EmitterEnv \<Rightarrow> json \<Rightarrow> 'h emit_op" where
  "handleAgentEnd opts env frame s =
     (if em_closed s \<or> em_terminalEmitted s then (Inr (), s)
      else if agentEndHasModelError frame
      then emitProviderError opts env ''model_error'' ''Agent model request failed'' True s
      else if em_staySilent s
      then op_then (ensureStarted opts env)
             (\<lambda>s. emit_durable opts env (TurnReply [] [] (reply_usage frame s)) None (s\<lparr>em_terminalEmitted := True\<rparr>)) s
      else if em_replyText s = [] \<and> em_replyAttachments s = []
      then emitProviderError opts env ''empty_response'' ''Agent completed without producing a reply'' False s
      else op_then (ensureStarted opts env)
             (\<lambda>s. emit_durable opts env (TurnReply (em_replyText s) (em_replyAttachments s) (reply_usage frame s)) None
                     (s\<lparr>em_terminalEmitted := True\<rparr>)) s)"

definition ingest_frame :: "EmitterOptions \<Rightarrow> 'h EmitterEnv \<Rightarrow> json \<Rightarrow> 'h emit_op" where
  "ingest_frame opts env frame s =
     (let ty = (case jstring (jget ''type'' frame) of Some t \<Rightarrow> t | None \<Rightarrow> [])
      in if ty = ''turn_start'' then handleTurnStart opts env s
         else if ty = ''message_update'' then (Inr (), handleMessageUpdate opts env frame s)
         else if ty = ''tool_execution_end'' then (Inr (), handleToolExecutionEnd frame s)
         else if ty = ''turn_end'' then (Inr (), handleTurnEnd frame s)
         else if ty = ''agent_end'' then handleAgentEnd opts env frame s
         else if ty \<in> {''subagent_lifecycle'', ''subagent_progress'', ''subagent_event''}
         then (Inr (), handleProgressCandidate opts env (describeSubagentFrame frame) s)
         else (Inr (), s))"

section \<open>The delivery chain\<close>

definition event_id :: "json \<Rightarrow> string option" where
  "event_id event = jstring (jget ''eventId'' event)"

text \<open>The head of the chain settles; a resumption is over when it fails or all its deliveries settled.\<close>

definition settle :: "(emitter_error, unit) result \<Rightarrow> 'h emitter \<Rightarrow> 'h emitter" where
  "settle r s =
     (case em_deliveryChain s of
        [] \<Rightarrow> s
      | (w, p) # rest \<Rightarrow>
          s\<lparr>em_deliveryChain := rest, em_settled := r,
            em_resumePromise :=
              (case em_resumePromise s of
                 None \<Rightarrow> None
               | Some g \<Rightarrow> if w = Resuming g \<and> (isl r \<or> Resuming g \<notin> fst ` set rest) then None else Some g)\<rparr>)"

definition set_head :: "delivery \<Rightarrow> 'h emitter \<Rightarrow> 'h emitter" where
  "set_head p s =
     (case em_deliveryChain s of [] \<Rightarrow> s | (w, _) # rest \<Rightarrow> s\<lparr>em_deliveryChain := (w, p) # rest\<rparr>)"

text \<open>One \<open>UPDATE ... WHERE event_id = ?\<close> with a fresh time stamp.\<close>

definition update_event :: "'h EmitterEnv \<Rightarrow> json \<Rightarrow> (OutboxRow \<Rightarrow> OutboxRow) \<Rightarrow> 'h emitter \<Rightarrow> 'h emitter" where
  "update_event env event f s =
     (let (ts, s') = take_utc env s
      in s'\<lparr>em_outbox := fst (sql_update (\<lambda>r. Some (ob_eventId r) = event_id event) (\<lambda>r. (f r)\<lparr>ob_updatedAt := ts\<rparr>) (em_outbox s'))\<rparr>)"

definition markDelivered :: "'h EmitterEnv \<Rightarrow> json \<Rightarrow> nat \<Rightarrow> 'h emitter \<Rightarrow> 'h emitter" where
  "markDelivered env event n = update_event env event (\<lambda>r. r\<lparr>ob_status := ODelivered, ob_attempts := n, ob_lastError := None\<rparr>)"

definition recordAttempt :: "'h EmitterEnv \<Rightarrow> json \<Rightarrow> nat \<Rightarrow> string \<Rightarrow> 'h emitter \<Rightarrow> 'h emitter" where
  "recordAttempt env event n err = update_event env event (\<lambda>r. r\<lparr>ob_attempts := n, ob_lastError := Some err\<rparr>)"

definition markPermanentFailure :: "'h EmitterEnv \<Rightarrow> json \<Rightarrow> string \<Rightarrow> 'h emitter \<Rightarrow> 'h emitter" where
  "markPermanentFailure env event err = update_event env event (\<lambda>r. r\<lparr>ob_status := OPermanentFailure, ob_lastError := Some err\<rparr>)"

text \<open>
  One POST. \<open>fetched\<close> is what \<open>fetch\<close> does: the status of the answer, or the message of the
  network error or timeout. When signing throws, no request is made.
\<close>

definition postOnce :: "AdapterTarget \<Rightarrow> string \<Rightarrow> json option \<Rightarrow> int \<Rightarrow> (string, nat) result \<Rightarrow> 'h emitter
    \<Rightarrow> (string, bool \<times> nat) result \<times> 'h emitter" where
  "postOnce target body ty delay fetched s =
     (case at_sign target body of
        Inl err \<Rightarrow> (Inl err, s)
      | Inr signature \<Rightarrow>
          (result_bind fetched (\<lambda>status. Inr (200 \<le> status \<and> status < 300, status)),
           s\<lparr>em_requests := em_requests s @ [\<lparr>hr_url = at_callbackUrl target, hr_signature = signature,
               hr_eventType = ty, hr_body = body, hr_delay = delay\<rparr>]\<rparr>))"

definition total_posts :: "EmitterOptions \<Rightarrow> nat" where
  "total_posts opts = 1 + length (eo_retryDelaysMs opts)"

definition retry_delay :: "EmitterOptions \<Rightarrow> nat \<Rightarrow> int" where
  "retry_delay opts n = (if n > 0 \<and> n - 1 < length (eo_retryDelaysMs opts) then eo_retryDelaysMs opts ! (n - 1) else 0)"

definition hook_result :: "(string, unit) result \<Rightarrow> (emitter_error, unit) result" where
  "hook_result r = (case r of Inl err \<Rightarrow> Inl (HookThrew err) | Inr _ \<Rightarrow> Inr ())"

text \<open>The end of a delivery without an acknowledgement.\<close>

definition give_up :: "'h EmitterEnv \<Rightarrow> json \<Rightarrow> string \<Rightarrow> 'h emitter \<Rightarrow> 'h emitter" where
  "give_up env event err s =
     (if em_closed s then settle (Inl DatabaseClosed) s
      else (let s1 = markPermanentFailure env event err s; (r, h) = ee_failed env event err (em_hooks s1)
            in settle (hook_result r) (s1\<lparr>em_hooks := h\<rparr>)))"

text \<open>
  One attempt of the loop of \<open>deliverPayload\<close>. The delivered hook runs inside the
  \<open>try\<close> of the POST, so its failure counts as a failed attempt. On a closed database the
  first statement after the POST throws out of the loop.
\<close>

definition deliver_attempt :: "EmitterOptions \<Rightarrow> 'h EmitterEnv \<Rightarrow> (string, nat) result \<Rightarrow> json \<Rightarrow> string \<Rightarrow> AdapterTarget \<Rightarrow> nat
    \<Rightarrow> 'h emitter \<Rightarrow> 'h emitter" where
  "deliver_attempt opts env fetched event payload target n s =
     (let (out, s1) = postOnce target payload (jget ''type'' event) (retry_delay opts n) fetched s;
          again = (\<lambda>err s. set_head (Attempting event payload target (Suc n) err) (recordAttempt env event (Suc n) err s))
      in if em_closed s1 then settle (Inl DatabaseClosed) s1
         else (case out of
                 Inl err \<Rightarrow> again err s1
               | Inr (ok, status) \<Rightarrow>
                   if ok
                   then (let s2 = markDelivered env event (Suc n) s1; (r, h) = ee_delivered env event (em_hooks s2)
                         in case r of
                              Inr _ \<Rightarrow> settle (Inr ()) (s2\<lparr>em_hooks := h\<rparr>)
                            | Inl err \<Rightarrow> again err (s2\<lparr>em_hooks := h\<rparr>))
                   else again (''adapter '' @ at_callbackUrl target @ '' responded '' @ show_nat status) s1))"

definition postBestEffort :: "EmitterOptions \<Rightarrow> (string, nat) result \<Rightarrow> json \<Rightarrow> 'h emitter \<Rightarrow> 'h emitter" where
  "postBestEffort opts fetched event s =
     (case eo_resolveAdapterTarget opts (eo_adapterId opts) of
        None \<Rightarrow> s
      | Some target \<Rightarrow> snd (postOnce target (json_stringify event) (jget ''type'' event) 0 fetched s))"

text \<open>
  The next step of the delivery at the head of the chain: \<open>deliverPayload\<close> resolves the
  target once, then makes one attempt per step, and gives up when the schedule is exhausted.
\<close>

definition chain_step :: "EmitterOptions \<Rightarrow> 'h EmitterEnv \<Rightarrow> (string, nat) result \<Rightarrow> 'h emitter \<Rightarrow> 'h emitter" where
  "chain_step opts env fetched s =
     (case em_deliveryChain s of
        [] \<Rightarrow> s
      | (w, p) # rest \<Rightarrow>
          (case p of
             Rejected e \<Rightarrow> settle (Inl e) s
           | BestEffort event \<Rightarrow> settle (Inr ()) (postBestEffort opts fetched event s)
           | Durable event payload n \<Rightarrow>
               (case eo_resolveAdapterTarget opts (eo_adapterId opts) of
                  None \<Rightarrow> give_up env event (''no adapter target registered for '' @ [dquote] @ eo_adapterId opts @ [dquote]) s
                | Some target \<Rightarrow> set_head (Attempting event payload target n []) s)
           | Attempting event payload target n lastError \<Rightarrow>
               if n < total_posts opts then deliver_attempt opts env fetched event payload target n s
               else give_up env event lastError s))"

section \<open>Recovery\<close>

fun resume_rows :: "nat \<Rightarrow> OutboxRow list \<Rightarrow> 'h emitter \<Rightarrow> (emitter_error, unit) result \<times> 'h emitter" where
  "resume_rows g [] s = (Inr (), s)"
| "resume_rows g (r # rows) s =
     (case json_parse (ob_payload r) of
        None \<Rightarrow> (Inl PayloadCorrupt, s\<lparr>em_resumePromise := None\<rparr>)
      | Some event \<Rightarrow> resume_rows g rows (enqueue (Resuming g) (Durable event (ob_payload r) (ob_attempts r)) s))"

definition resumePending :: "EmitterOptions \<Rightarrow> 'h emit_op" where
  "resumePending opts s =
     (if em_resumePromise s \<noteq> None then (Inr (), s)
      else if em_closed s then (Inl DatabaseClosed, s)
      else (let rows = sort_key ob_sequence (filter (\<lambda>r. of_emitter opts r \<and> ob_status r = OPending) (em_outbox s));
                g = em_resumes s
            in resume_rows g rows
                 (s\<lparr>em_resumes := Suc g, em_resumePromise := (if rows = [] then None else Some g)\<rparr>)))"

definition retryPermanentFailureOnce :: "EmitterOptions \<Rightarrow> 'h EmitterEnv \<Rightarrow> string \<Rightarrow> 'h emit_op" where
  "retryPermanentFailureOnce opts env eventId s =
     (if em_closed s then (Inl DatabaseClosed, s)
      else (case sql_get (\<lambda>r. ob_eventId r = eventId \<and> of_emitter opts r \<and> ob_status r = OPermanentFailure) (em_outbox s) of
        None \<Rightarrow> (Inl (NoPermanentFailure eventId), s)
      | Some row \<Rightarrow>
          (case json_parse (ob_payload row) of
             None \<Rightarrow> (Inl PayloadCorrupt, s)
           | Some event \<Rightarrow>
               (case ee_prepared env event (em_hooks s) of
                  (Inl err, h) \<Rightarrow> (Inl (HookThrew err), s\<lparr>em_hooks := h\<rparr>)
                | (Inr _, h) \<Rightarrow>
                    let (ts, s1) = take_utc env (s\<lparr>em_hooks := h\<rparr>);
                        (rows, changes) = sql_update (\<lambda>r. ob_eventId r = eventId \<and> ob_status r = OPermanentFailure)
                          (\<lambda>r. r\<lparr>ob_status := OPending, ob_attempts := 0, ob_lastError := None, ob_updatedAt := ts\<rparr>) (em_outbox s1);
                        s2 = s1\<lparr>em_outbox := rows\<rparr>
                    in if changes \<noteq> 1 then (Inl (ChangedBeforeRetry eventId), s2)
                       else (Inr (), enqueue (Retrying eventId) (Durable event (ob_payload row) 0) s2)))))"

definition retryPermanentFailure :: "EmitterOptions \<Rightarrow> 'h EmitterEnv \<Rightarrow> string \<Rightarrow> 'h emit_op" where
  "retryPermanentFailure opts env eventId s =
     (if Retrying eventId \<in> fst ` set (em_deliveryChain s) then (Inr (), s)
      else retryPermanentFailureOnce opts env eventId s)"

definition redeliverDurable :: "EmitterOptions \<Rightarrow> 'h EmitterEnv \<Rightarrow> OutboundEvent \<Rightarrow> 'h emit_op" where
  "redeliverDurable opts env e s =
     (if em_closed s then (Inl DatabaseClosed, s)
      else (case sql_get (\<lambda>r. ob_eventId r = ev_eventId e \<and> of_emitter opts r) (em_outbox s) of
        None \<Rightarrow> deliverDurable opts env e s
      | Some row \<Rightarrow>
          if ob_payload row \<noteq> json_stringify (event_json e) then (Inl (DuplicateEventConflict (ev_eventId e)), s)
          else (case ob_status row of
                  OPending \<Rightarrow> resumePending opts s
                | OPermanentFailure \<Rightarrow> retryPermanentFailure opts env (ev_eventId e) s
                | ODelivered \<Rightarrow>
                    let (r, h) = ee_delivered env (event_json e) (em_hooks s) in (hook_result r, s\<lparr>em_hooks := h\<rparr>))))"

definition outboxByStatus :: "EmitterOptions \<Rightarrow> OutboxStatus \<Rightarrow> 'h emitter \<Rightarrow> OutboxRow list" where
  "outboxByStatus opts st s = sort_key ob_sequence (filter (\<lambda>r. of_emitter opts r \<and> ob_status r = st) (em_outbox s))"

definition permanentFailures :: "EmitterOptions \<Rightarrow> 'h emitter \<Rightarrow> OutboxRow list" where
  "permanentFailures opts s = outboxByStatus opts OPermanentFailure s"

definition close_emitter :: "'h emitter \<Rightarrow> 'h emitter" where
  "close_emitter s = s\<lparr>em_closed := True\<rparr>"

text \<open>The correlations with a pending event; the order of equal keys is left to the database.\<close>

definition listPendingOutboundCorrelations :: "OutboxRow list \<Rightarrow> (string \<times> string \<times> string) list" where
  "listPendingOutboundCorrelations rows =
     sort_key (\<lambda>(a, k, c). a) (sort_key (\<lambda>(a, k, c). c)
       (js_set_list (map (\<lambda>r. (ob_adapterId r, ob_conversationKey r, ob_correlationId r))
          (filter (\<lambda>r. ob_status r = OPending) rows))))"

end
