(* ===== verification/Emitter_Protocol.thy ===== *)
theory Emitter_Protocol
  imports Outbound_Emitter
begin

text \<open>
  The outbox protocol that \<open>outbound-emitter.ts\<close> promises, as an abstract transition system
  on what can be observed of an emitter (the immutable columns of the outbox, the counter, the
  terminal guard, the queue and the requests), the refinement lemmas that every operation of
  the emitter performs steps of it, and the properties of its runs.
\<close>

section \<open>The abstract protocol\<close>

text \<open>The columns of a row that never change.\<close>

definition ob_core :: "OutboxRow \<Rightarrow> OutboxRow" where
  "ob_core r = r\<lparr>ob_status := OPending, ob_attempts := 0, ob_lastError := None, ob_updatedAt := []\<rparr>"

record outbox_view =
  vw_rows :: "OutboxRow list"
  vw_seq :: nat
  vw_term :: bool
  vw_chain :: "delivery list"
  vw_reqs :: "http_request list"

definition view :: "'h emitter \<Rightarrow> outbox_view" where
  "view s = \<lparr>vw_rows = map ob_core (em_outbox s), vw_seq = em_sequence s, vw_term = em_terminalEmitted s,
     vw_chain = map snd (em_deliveryChain s), vw_reqs = em_requests s\<rparr>"

definition is_terminal :: "OutboxRow \<Rightarrow> bool" where
  "is_terminal r \<longleftrightarrow> ob_eventType r \<in> set terminal_types"

abbreviation own :: "EmitterOptions \<Rightarrow> OutboxRow list \<Rightarrow> OutboxRow list" where
  "own opts rows \<equiv> filter (of_emitter opts) rows"

definition best_effort :: "OutboundEvent \<Rightarrow> bool" where
  "best_effort e \<longleftrightarrow> event_type (ev_body e) \<in> {''turn.delta'', ''turn.progress''}"

text \<open>A delivery that may be queued: durable ones belong to a persisted row of the correlation.\<close>

fun queueable :: "EmitterOptions \<Rightarrow> OutboxRow list \<Rightarrow> delivery \<Rightarrow> bool" where
  "queueable opts rows (Rejected e) = True"
| "queueable opts rows (BestEffort event) = (\<exists>e. event = event_json e \<and> best_effort e)"
| "queueable opts rows (Durable event payload n) =
     (\<exists>r \<in> set (own opts rows). ob_payload r = payload \<and> json_parse payload = Some event)"
| "queueable opts rows (Attempting event payload target n err) =
     (eo_resolveAdapterTarget opts (eo_adapterId opts) = Some target \<and>
      (\<exists>r \<in> set (own opts rows). ob_payload r = payload \<and> json_parse payload = Some event))"

fun delivery_body :: "delivery \<Rightarrow> string option" where
  "delivery_body (Rejected e) = None"
| "delivery_body (BestEffort event) = Some (json_stringify event)"
| "delivery_body (Durable event payload n) = Some payload"
| "delivery_body (Attempting event payload target n err) = Some payload"

text \<open>A request goes to the callback of the adapter and carries the signature of its body.\<close>

definition signed :: "EmitterOptions \<Rightarrow> http_request \<Rightarrow> bool" where
  "signed opts q \<longleftrightarrow> (case eo_resolveAdapterTarget opts (eo_adapterId opts) of
     None \<Rightarrow> False | Some target \<Rightarrow> hr_url q = at_callbackUrl target \<and> at_sign target (hr_body q) = Inr (hr_signature q))"

definition request_for :: "EmitterOptions \<Rightarrow> OutboxRow list \<Rightarrow> delivery \<Rightarrow> http_request \<Rightarrow> bool" where
  "request_for opts rows p q \<longleftrightarrow> (queueable opts rows p \<longrightarrow> Some (hr_body q) = delivery_body p \<and> signed opts q)"

definition max_seq :: "OutboxRow list \<Rightarrow> nat" where
  "max_seq rows = (case rows of [] \<Rightarrow> 0 | _ \<Rightarrow> Max (ob_sequence ` set rows))"

inductive vstep :: "EmitterOptions \<Rightarrow> outbox_view \<Rightarrow> outbox_view \<Rightarrow> bool" for opts where
  queue: "vw_seq v \<le> n \<Longrightarrow> vw_term v \<longrightarrow> t \<Longrightarrow> \<forall>p \<in> set ps. queueable opts (vw_rows v) p \<Longrightarrow>
     vstep opts v (v\<lparr>vw_seq := n, vw_term := t, vw_chain := vw_chain v @ ps\<rparr>)"
| persist: "ev_eventId e \<notin> ob_eventId ` set (vw_rows v) \<Longrightarrow> vw_seq v < ev_sequence e \<Longrightarrow>
     vw_term v \<longrightarrow> t \<Longrightarrow> event_type (ev_body e) \<in> set terminal_types \<longrightarrow> \<not> vw_term v \<and> t \<Longrightarrow>
     ev_conversationKey e = eo_conversationKey opts \<Longrightarrow> ev_correlationId e = eo_correlationId opts \<Longrightarrow>
     vstep opts v (v\<lparr>vw_rows := vw_rows v @ [ob_core (outbox_row opts e)], vw_seq := ev_sequence e, vw_term := t,
       vw_chain := vw_chain v @ [Durable (event_json e) (json_stringify (event_json e)) 0]\<rparr>)"
| advance: "vw_chain v = p # ps \<Longrightarrow> delivery_body p' = delivery_body p \<Longrightarrow>
     queueable opts (vw_rows v) p \<longrightarrow> queueable opts (vw_rows v) p' \<Longrightarrow>
     \<forall>q \<in> set qs. request_for opts (vw_rows v) p q \<Longrightarrow>
     vstep opts v (v\<lparr>vw_chain := p' # ps, vw_reqs := vw_reqs v @ qs\<rparr>)"
| finish: "vw_chain v = p # ps \<Longrightarrow> \<forall>q \<in> set qs. request_for opts (vw_rows v) p q \<Longrightarrow>
     vstep opts v (v\<lparr>vw_chain := ps, vw_reqs := vw_reqs v @ qs\<rparr>)"
| others: "own opts rows = own opts (vw_rows v) \<Longrightarrow> distinct (map ob_eventId rows) \<Longrightarrow>
     vstep opts v (v\<lparr>vw_rows := rows\<rparr>)"
| restart: "vstep opts v \<lparr>vw_rows = vw_rows v, vw_seq = max_seq (own opts (vw_rows v)),
     vw_term = (\<exists>r \<in> set (own opts (vw_rows v)). is_terminal r), vw_chain = [], vw_reqs = []\<rparr>"

section \<open>Invariant of the protocol\<close>

text \<open>A row of the correlation holds the printed form of an event that agrees with its columns.\<close>

definition row_wf :: "EmitterOptions \<Rightarrow> OutboxRow \<Rightarrow> bool" where
  "row_wf opts r \<longleftrightarrow> (\<exists>e. ob_core r = ob_core (outbox_row opts e) \<and>
     ev_conversationKey e = eo_conversationKey opts \<and> ev_correlationId e = eo_correlationId opts)"

definition rows_inv :: "EmitterOptions \<Rightarrow> OutboxRow list \<Rightarrow> nat \<Rightarrow> bool \<Rightarrow> bool" where
  "rows_inv opts rows n t \<longleftrightarrow>
     distinct (map ob_eventId rows) \<and>
     sorted_wrt (<) (map ob_sequence (own opts rows)) \<and>
     (\<forall>r \<in> set (own opts rows). ob_sequence r \<le> n \<and> row_wf opts r) \<and>
     length (filter is_terminal (own opts rows)) \<le> 1 \<and>
     ((\<exists>r \<in> set (own opts rows). is_terminal r) \<longrightarrow> t)"

text \<open>A request body is the payload of a persisted row or a printed best-effort event.\<close>

definition body_ok :: "EmitterOptions \<Rightarrow> OutboxRow list \<Rightarrow> string \<Rightarrow> bool" where
  "body_ok opts rows b \<longleftrightarrow> (\<exists>r \<in> set (own opts rows). b = ob_payload r) \<or>
     (\<exists>e. b = json_stringify (event_json e) \<and> best_effort e)"

definition view_inv :: "EmitterOptions \<Rightarrow> outbox_view \<Rightarrow> bool" where
  "view_inv opts v \<longleftrightarrow>
     rows_inv opts (vw_rows v) (vw_seq v) (vw_term v) \<and>
     (\<forall>p \<in> set (vw_chain v). queueable opts (vw_rows v) p) \<and>
     (\<forall>q \<in> set (vw_reqs v). body_ok opts (vw_rows v) (hr_body q) \<and> signed opts q)"

lemma queueable_mono:
  "queueable opts rows p \<Longrightarrow> set (own opts rows) \<subseteq> set (own opts rows') \<Longrightarrow> queueable opts rows' p"
  by (cases p) auto

lemma body_ok_mono: "body_ok opts rows b \<Longrightarrow> set (own opts rows) \<subseteq> set (own opts rows') \<Longrightarrow> body_ok opts rows' b"
  by (auto simp: body_ok_def)

lemma queueable_body: "queueable opts rows p \<Longrightarrow> Some b = delivery_body p \<Longrightarrow> body_ok opts rows b"
  by (cases p) (auto simp: body_ok_def)

lemma ob_core_sel [simp]:
  "ob_eventId (ob_core r) = ob_eventId r" "ob_sequence (ob_core r) = ob_sequence r" "ob_payload (ob_core r) = ob_payload r"
  "ob_eventType (ob_core r) = ob_eventType r" "of_emitter opts (ob_core r) = of_emitter opts r"
  "is_terminal (ob_core r) = is_terminal r" "ob_core (ob_core r) = ob_core r" "row_wf opts (ob_core r) = row_wf opts r"
  by (simp_all add: ob_core_def of_emitter_def is_terminal_def row_wf_def)

lemma of_emitter_outbox_row [simp]: "of_emitter opts (outbox_row opts e)"
  by (simp add: of_emitter_def outbox_row_def)

lemma outbox_row_sel [simp]:
  "ob_eventId (outbox_row opts e) = ev_eventId e" "ob_sequence (outbox_row opts e) = ev_sequence e"
  "ob_payload (outbox_row opts e) = json_stringify (event_json e)" "ob_eventType (outbox_row opts e) = event_type (ev_body e)"
  by (simp_all add: outbox_row_def)

lemma max_seq_ge: "r \<in> set rows \<Longrightarrow> ob_sequence r \<le> max_seq rows"
  by (cases rows) (auto simp: max_seq_def)

lemma row_wf_outbox_row: "ev_conversationKey e = eo_conversationKey opts \<Longrightarrow> ev_correlationId e = eo_correlationId opts \<Longrightarrow> row_wf opts (outbox_row opts e)"
  by (auto simp: row_wf_def)

lemma rows_inv_persist:
  assumes inv: "rows_inv opts rows n t0"
    and e: "ev_eventId e \<notin> ob_eventId ` set rows" "n < ev_sequence e" "t0 \<longrightarrow> t"
      "event_type (ev_body e) \<in> set terminal_types \<longrightarrow> \<not> t0 \<and> t"
      "ev_conversationKey e = eo_conversationKey opts" "ev_correlationId e = eo_correlationId opts"
  shows "rows_inv opts (rows @ [ob_core (outbox_row opts e)]) (ev_sequence e) t"
proof -
  let ?own = "own opts rows" and ?r = "ob_core (outbox_row opts e)"
  have "sorted_wrt (<) (map ob_sequence (?own @ [?r]))"
    using inv e(2) by (fastforce simp: rows_inv_def sorted_wrt_append)
  moreover have "length (filter is_terminal (?own @ [?r])) \<le> 1"
  proof (cases "is_terminal ?r")
    case True
    then have "filter is_terminal ?own = []"
      using inv e(4) by (auto simp: rows_inv_def filter_empty_conv is_terminal_def)
    then show ?thesis by simp
  qed (use inv in \<open>simp add: rows_inv_def\<close>)
  moreover have "\<forall>r \<in> set (?own @ [?r]). ob_sequence r \<le> ev_sequence e \<and> row_wf opts r"
    using inv e(2,5,6) by (fastforce simp: rows_inv_def row_wf_outbox_row)
  moreover have "(\<exists>r \<in> set (?own @ [?r]). is_terminal r) \<longrightarrow> t"
    using inv e(3,4) by (auto simp: rows_inv_def is_terminal_def)
  ultimately show ?thesis
    using inv e(1) by (simp add: rows_inv_def image_iff)
qed

lemma view_inv_persist:
  assumes inv: "view_inv opts v" and "rows_inv opts (vw_rows v @ [ob_core (outbox_row opts e)]) n t"
  shows "view_inv opts (v\<lparr>vw_rows := vw_rows v @ [ob_core (outbox_row opts e)], vw_seq := n, vw_term := t,
       vw_chain := vw_chain v @ [Durable (event_json e) (json_stringify (event_json e)) 0]\<rparr>)"
proof -
  have sub: "set (own opts (vw_rows v)) \<subseteq> set (own opts (vw_rows v @ [ob_core (outbox_row opts e)]))" by auto
  have "queueable opts (vw_rows v @ [ob_core (outbox_row opts e)]) p" if "p \<in> set (vw_chain v)" for p
    using inv that queueable_mono [OF _ sub] by (auto simp: view_inv_def)
  moreover have "body_ok opts (vw_rows v @ [ob_core (outbox_row opts e)]) (hr_body q)" if "q \<in> set (vw_reqs v)" for q
    using inv that body_ok_mono [OF _ sub] by (auto simp: view_inv_def)
  ultimately show ?thesis using assms by (simp add: view_inv_def json_parse_stringify)
qed

lemma rows_inv_weaken: "rows_inv opts rows n t \<Longrightarrow> n \<le> n' \<Longrightarrow> t \<longrightarrow> t' \<Longrightarrow> rows_inv opts rows n' t'"
  by (fastforce simp: rows_inv_def)

lemma rows_inv_restart: "rows_inv opts rows n t \<Longrightarrow> rows_inv opts rows (max_seq (own opts rows)) (\<exists>r \<in> set (own opts rows). is_terminal r)"
  using max_seq_ge [of _ "own opts rows"] by (simp add: rows_inv_def)

lemma rows_inv_others: "rows_inv opts rows n t \<Longrightarrow> own opts rows' = own opts rows \<Longrightarrow> distinct (map ob_eventId rows') \<Longrightarrow> rows_inv opts rows' n t"
  by (simp add: rows_inv_def)

lemma view_inv_step: "vstep opts v v' \<Longrightarrow> view_inv opts v \<Longrightarrow> view_inv opts v'"
proof (induction rule: vstep.induct)
  case (queue v n t ps)
  then show ?case using rows_inv_weaken by (auto simp: view_inv_def)
next
  case (persist e v t)
  then show ?case by (intro view_inv_persist rows_inv_persist [of opts "vw_rows v" "vw_seq v" "vw_term v"]) (auto simp: view_inv_def)
next
  case (advance v p ps p' qs)
  then show ?case using queueable_body [of opts "vw_rows v" p] by (auto simp: view_inv_def request_for_def)
next
  case (finish v p ps qs)
  then show ?case using queueable_body [of opts "vw_rows v" p] by (auto simp: view_inv_def request_for_def)
next
  case (others rows v)
  have sub: "set (own opts (vw_rows v)) \<subseteq> set (own opts rows)" using others(1) by simp
  show ?case
    using others queueable_mono [OF _ sub] body_ok_mono [OF _ sub] rows_inv_others by (auto simp: view_inv_def)
next
  case (restart v)
  then show ?case using rows_inv_restart by (auto simp: view_inv_def)
qed

lemma view_inv_steps: "(vstep opts)\<^sup>*\<^sup>* v v' \<Longrightarrow> view_inv opts v \<Longrightarrow> view_inv opts v'"
  by (induction rule: rtranclp_induct) (auto intro: view_inv_step)

section \<open>The emitter follows the protocol\<close>

lemma view_frame [simp]:
  "view (s\<lparr>em_replyText := x1\<rparr>) = view s" "view (s\<lparr>em_replyAttachments := x2\<rparr>) = view s" "view (s\<lparr>em_replyUsage := x3\<rparr>) = view s"
  "view (s\<lparr>em_staySilent := x4\<rparr>) = view s" "view (s\<lparr>em_startedEmitted := x5\<rparr>) = view s" "view (s\<lparr>em_presence := x6\<rparr>) = view s"
  "view (s\<lparr>em_lastProgressAt := x7\<rparr>) = view s" "view (s\<lparr>em_pendingProgress := x8\<rparr>) = view s" "view (s\<lparr>em_settled := x9\<rparr>) = view s"
  "view (s\<lparr>em_resumes := x10\<rparr>) = view s" "view (s\<lparr>em_resumePromise := x11\<rparr>) = view s" "view (s\<lparr>em_reads := x12\<rparr>) = view s"
  "view (s\<lparr>em_hooks := x13\<rparr>) = view s" "view (s\<lparr>em_closed := x14\<rparr>) = view s"
  by (simp_all add: view_def)

lemma view_change [simp]:
  "view (s\<lparr>em_sequence := n\<rparr>) = (view s)\<lparr>vw_seq := n\<rparr>" "view (s\<lparr>em_terminalEmitted := t\<rparr>) = (view s)\<lparr>vw_term := t\<rparr>"
  "view (s\<lparr>em_deliveryChain := c\<rparr>) = (view s)\<lparr>vw_chain := map snd c\<rparr>" "view (s\<lparr>em_requests := q\<rparr>) = (view s)\<lparr>vw_reqs := q\<rparr>"
  "view (s\<lparr>em_outbox := rows\<rparr>) = (view s)\<lparr>vw_rows := map ob_core rows\<rparr>"
  "view (enqueue w p s) = (view s)\<lparr>vw_chain := vw_chain (view s) @ [p]\<rparr>"
  by (simp_all add: view_def enqueue_def)

lemma view_sel [simp]:
  "vw_seq (view s) = em_sequence s" "vw_term (view s) = em_terminalEmitted s" "vw_rows (view s) = map ob_core (em_outbox s)"
  "vw_chain (view s) = map snd (em_deliveryChain s)" "vw_reqs (view s) = em_requests s"
  by (simp_all add: view_def)

abbreviation vsteps :: "EmitterOptions \<Rightarrow> outbox_view \<Rightarrow> outbox_view \<Rightarrow> bool" where
  "vsteps opts \<equiv> (vstep opts)\<^sup>*\<^sup>*"

lemma vstep_queueI:
  "v' = v\<lparr>vw_seq := n, vw_term := t, vw_chain := vw_chain v @ ps\<rparr> \<Longrightarrow> vw_seq v \<le> n \<Longrightarrow> vw_term v \<longrightarrow> t \<Longrightarrow>
   \<forall>p \<in> set ps. queueable opts (vw_rows v) p \<Longrightarrow> vstep opts v v'"
  using vstep.queue by blast

lemma vstep_quiet: "vw_seq v \<le> n \<Longrightarrow> vw_term v \<longrightarrow> t \<Longrightarrow> vstep opts v (v\<lparr>vw_seq := n, vw_term := t\<rparr>)"
  using vstep.queue [where v = v and n = n and t = t and ps = "[]"] by (cases v) simp

lemma make_event_state:
  "make_event opts env body at s = (e, s') \<Longrightarrow>
     view s' = (view s)\<lparr>vw_seq := Suc (em_sequence s)\<rparr> \<and> em_closed s' = em_closed s \<and> em_hooks s' = em_hooks s \<and>
     ev_body e = body \<and> ev_sequence e = Suc (em_sequence s) \<and> ev_conversationKey e = eo_conversationKey opts \<and>
     ev_correlationId e = eo_correlationId opts"
  by (auto simp: make_event_def take_uuid_def nextSequence_def take_now_def split: option.splits)

lemma deliverDurable_vstep:
  assumes v: "view s = (view s0)\<lparr>vw_seq := ev_sequence e, vw_term := t\<rparr>" and t: "em_terminalEmitted s0 \<longrightarrow> t"
    and e: "em_sequence s0 < ev_sequence e" "event_type (ev_body e) \<in> set terminal_types \<longrightarrow> \<not> em_terminalEmitted s0 \<and> t"
      "ev_conversationKey e = eo_conversationKey opts" "ev_correlationId e = eo_correlationId opts"
  shows "vstep opts (view s0) (view (snd (deliverDurable opts env e s)))"
proof -
  obtain r h where p: "ee_prepared env (event_json e) (em_hooks s) = (r, h)" by fastforce
  have rows: "map ob_core (em_outbox s) = map ob_core (em_outbox s0)" and chain: "map snd (em_deliveryChain s) = map snd (em_deliveryChain s0)"
    using arg_cong [OF v, of vw_rows] arg_cong [OF v, of vw_chain] by simp_all
  have ids: "ob_eventId ` set (em_outbox s) = ob_eventId ` set (em_outbox s0)"
    using arg_cong [OF rows, of "\<lambda>rs. ob_eventId ` set rs"] by (simp add: image_image)
  have queue: "vstep opts (view s0) ((view s)\<lparr>vw_chain := vw_chain (view s) @ ps\<rparr>)" if "\<forall>p \<in> set ps. queueable opts (vw_rows (view s0)) p" for ps
    by (rule vstep_queueI [where n = "ev_sequence e" and t = t and ps = ps]) (use that t e v chain in auto)
  show ?thesis
  proof (cases r)
    case (Inl err)
    then show ?thesis using queue [of "[Rejected (HookThrew err)]"] p by (simp add: deliverDurable_def)
  next
    case (Inr u)
    show ?thesis
    proof (cases "em_closed s \<or> ev_eventId e \<in> ob_eventId ` set (em_outbox s)")
      case True
      then have "view (snd (deliverDurable opts env e s)) = view s"
        using p Inr by (auto simp: deliverDurable_def persistEvent_def sql_insert_def ob_key_def split: option.splits bool.splits)
      then show ?thesis using vstep_quiet [of "view s0" "ev_sequence e" t opts] v t e by simp
    next
      case False
      then have "view (snd (deliverDurable opts env e s)) =
        (view s0)\<lparr>vw_rows := vw_rows (view s0) @ [ob_core (outbox_row opts e)], vw_seq := ev_sequence e, vw_term := t,
          vw_chain := vw_chain (view s0) @ [Durable (event_json e) (json_stringify (event_json e)) 0]\<rparr>"
        using p Inr v rows chain by (auto simp: deliverDurable_def persistEvent_def sql_insert_def ob_key_def)
      then show ?thesis using vstep.persist [where e = e and v = "view s0" and t = t and opts = opts] False ids t e by (auto simp: image_image)
    qed
  qed
qed

lemma emit_durable_vstep:
  assumes "view s = (view s0)\<lparr>vw_term := t\<rparr>" "em_terminalEmitted s0 \<longrightarrow> t"
    "event_type body \<in> set terminal_types \<longrightarrow> \<not> em_terminalEmitted s0 \<and> t"
  shows "vstep opts (view s0) (view (snd (emit_durable opts env body at s)))"
proof -
  obtain e s1 where e: "make_event opts env body at s = (e, s1)" by fastforce
  have "em_sequence s = em_sequence s0" using arg_cong [OF assms(1), of vw_seq] by simp
  then show ?thesis
    using deliverDurable_vstep [where s = s1 and ?s0.0 = s0 and e = e and t = t and opts = opts and env = env] make_event_state [OF e] assms
    by (simp add: emit_durable_def e)
qed

lemma emit_best_effort_vstep:
  assumes "event_type body \<in> {''turn.delta'', ''turn.progress''}"
  shows "vstep opts (view s) (view (emit_best_effort opts env body s))"
proof -
  obtain e s1 where e: "make_event opts env body None s = (e, s1)" by fastforce
  have m: "view s1 = (view s)\<lparr>vw_seq := Suc (em_sequence s)\<rparr>" "ev_body e = body" using make_event_state [OF e] by auto
  have c: "map snd (em_deliveryChain s1) = map snd (em_deliveryChain s)" using arg_cong [OF m(1), of vw_chain] by simp
  show ?thesis
    by (rule vstep_queueI [where n = "Suc (em_sequence s)" and t = "em_terminalEmitted s" and ps = "[BestEffort (event_json e)]"])
      (use m c assms in \<open>auto simp: emit_best_effort_def e deliverBestEffort_def best_effort_def\<close>)
qed

lemma view_term_id [simp]: "(view s)\<lparr>vw_term := em_terminalEmitted s\<rparr> = view s"
  by (simp add: view_def)

lemma emit_plain:
  "view s = view s0 \<Longrightarrow> event_type body \<notin> set terminal_types \<Longrightarrow> vsteps opts (view s0) (view (snd (emit_durable opts env body at s)))"
  using emit_durable_vstep [where s = s and ?s0.0 = s0 and t = "em_terminalEmitted s0" and body = body] by auto

lemma emit_terminal:
  "\<not> em_terminalEmitted s \<Longrightarrow> vsteps opts (view s) (view (snd (emit_durable opts env body at (s\<lparr>em_terminalEmitted := True\<rparr>))))"
  using emit_durable_vstep [where s = "s\<lparr>em_terminalEmitted := True\<rparr>" and ?s0.0 = s and t = True and body = body] by auto

lemma emit_durable_term [simp]: "em_terminalEmitted (snd (emit_durable opts env body at s)) = em_terminalEmitted s"
  by (auto simp: emit_durable_def make_event_def take_uuid_def nextSequence_def take_now_def deliverDurable_def persistEvent_def enqueue_def
      split: option.splits prod.splits sum.splits bool.splits)

lemma ensureStarted_term [simp]: "em_terminalEmitted (snd (ensureStarted opts env s)) = em_terminalEmitted s"
  by (simp add: ensureStarted_def take_now_def)

lemma ensureStarted_vsteps: "vsteps opts (view s) (view (snd (ensureStarted opts env s)))"
  by (simp add: ensureStarted_def take_now_def emit_plain terminal_types_def)

lemma op_then_vsteps:
  assumes "vsteps opts (view s) (view (snd (f s)))" "vsteps opts (view (snd (f s))) (view (snd (g (snd (f s)))))"
  shows "vsteps opts (view s) (view (snd (op_then f g s)))"
  using assms by (auto simp: op_then_def split: prod.splits sum.splits intro: rtranclp_trans)

lemma started_terminal_vsteps:
  assumes "\<not> em_terminalEmitted s"
  shows "vsteps opts (view s) (view (snd (op_then (ensureStarted opts env)
    (\<lambda>s. emit_durable opts env (body s) None (s\<lparr>em_terminalEmitted := True\<rparr>)) s)))"
  by (intro op_then_vsteps ensureStarted_vsteps emit_terminal) (simp add: assms)

lemmas terminal_ops_defs = emitProviderError_def emitCancelled_def emitDirectReply_def handleAgentEnd_def

lemma terminal_ops_vsteps:
  "vsteps opts (view s) (view (snd (emitProviderError opts env c m r s)))"
  "vsteps opts (view s) (view (snd (emitCancelled opts env s)))"
  "vsteps opts (view s) (view (snd (emitDirectReply opts env text s)))"
  "vsteps opts (view s) (view (snd (handleAgentEnd opts env frame s)))"
  by (simp_all add: terminal_ops_defs started_terminal_vsteps emit_terminal)

lemma emitPresence_vsteps: "vsteps opts (view s) (view (snd (emitPresence opts env p s)))"
  by (simp add: emitPresence_def emit_plain terminal_types_def)

lemma emitProgress_vsteps: "vsteps opts (view s) (view (emitProgress opts env m s))"
  using emit_best_effort_vstep [where body = "TurnProgress m" and opts = opts and env = env
      and s = "s\<lparr>em_reads := Suc (em_reads s), em_lastProgressAt := ee_now env (em_reads s)\<rparr>"]
  by (auto simp: emitProgress_def take_now_def)

lemma flushProgress_vsteps: "vsteps opts (view s) (view (flushProgress opts env s))"
  using emitProgress_vsteps [of opts "s\<lparr>em_reads := Suc (em_reads s), em_pendingProgress := None\<rparr>" env]
  by (auto simp: flushProgress_def take_now_def split: option.splits)

lemma handleProgressCandidate_vsteps: "vsteps opts (view s) (view (handleProgressCandidate opts env m s))"
  using flushProgress_vsteps [of opts "s\<lparr>em_pendingProgress := Some m\<rparr>" env] by (simp add: handleProgressCandidate_def)

lemma handleMessageUpdate_vsteps: "vsteps opts (view s) (view (handleMessageUpdate opts env frame s))"
proof -
  have "vsteps opts (view s) (view (handleProgressCandidate opts env d (emitDelta opts env d (s\<lparr>em_replyText := x\<rparr>))))" for d x
    using emit_best_effort_vstep [where body = "TurnDelta d" and opts = opts and env = env and s = "s\<lparr>em_replyText := x\<rparr>"]
    by (intro rtranclp_trans [OF _ handleProgressCandidate_vsteps]) (auto simp: emitDelta_def)
  then show ?thesis by (simp add: handleMessageUpdate_def Let_def split: option.splits)
qed

lemma tool_and_turn_end_view [simp]: "view (handleToolExecutionEnd frame s) = view s" "view (handleTurnEnd frame s) = view s"
  by (simp_all add: handleToolExecutionEnd_def handleTurnEnd_def Let_def split: option.splits)

lemma ingest_frame_vsteps: "vsteps opts (view s) (view (snd (ingest_frame opts env frame s)))"
  by (simp add: ingest_frame_def Let_def handleTurnStart_def ensureStarted_vsteps handleMessageUpdate_vsteps terminal_ops_vsteps
      handleProgressCandidate_vsteps)

subsection \<open>Deliveries and recovery\<close>

lemma view_update_event:
  assumes "\<And>r. ob_core (f r) = ob_core r"
  shows "view (update_event env event f s) = view s" "em_closed (update_event env event f s) = em_closed s"
    "em_deliveryChain (update_event env event f s) = em_deliveryChain s"
proof -
  have core: "ob_core ((f r)\<lparr>ob_updatedAt := ts\<rparr>) = ob_core r" for r ts
  proof -
    have "ob_core ((f r)\<lparr>ob_updatedAt := ts\<rparr>) = ob_core (f r)" by (simp add: ob_core_def)
    then show ?thesis using assms by simp
  qed
  show "view (update_event env event f s) = view s"
    by (simp add: update_event_def take_utc_def sql_update_def comp_def if_distrib [of ob_core] core)
qed (simp_all add: update_event_def take_utc_def)

lemma mark_view [simp]:
  "view (markDelivered env event n s) = view s" "view (recordAttempt env event n err s) = view s"
  "view (markPermanentFailure env event err s) = view s"
  "em_deliveryChain (markDelivered env event n s) = em_deliveryChain s" "em_deliveryChain (recordAttempt env event n err s) = em_deliveryChain s"
  "em_deliveryChain (markPermanentFailure env event err s) = em_deliveryChain s"
  unfolding markDelivered_def recordAttempt_def markPermanentFailure_def
  by (simp_all add: view_update_event ob_core_def)

lemma settle_view: "em_deliveryChain s = (w, p) # rest \<Longrightarrow> view (settle r s) = (view s)\<lparr>vw_chain := map snd rest\<rparr>"
  by (simp add: settle_def)

lemma set_head_view: "em_deliveryChain s = (w, p) # rest \<Longrightarrow> view (set_head p' s) = (view s)\<lparr>vw_chain := p' # map snd rest\<rparr>"
  by (simp add: set_head_def)

lemma view_swap [simp]: "v\<lparr>vw_reqs := q, vw_chain := c\<rparr> = v\<lparr>vw_chain := c, vw_reqs := q\<rparr>"
  by simp

lemma postOnce_view:
  "\<exists>qs. view (snd (postOnce target body ty d fetched s)) = (view s)\<lparr>vw_reqs := em_requests s @ qs\<rparr> \<and>
     (\<forall>q \<in> set qs. hr_body q = body \<and> hr_url q = at_callbackUrl target \<and> at_sign target body = Inr (hr_signature q))"
  by (cases "at_sign target body") (auto simp: postOnce_def view_def intro: exI [of _ "[]"])

lemma postOnce_frame [simp]:
  "em_deliveryChain (snd (postOnce target body ty d fetched s)) = em_deliveryChain s"
  "em_outbox (snd (postOnce target body ty d fetched s)) = em_outbox s" "em_hooks (snd (postOnce target body ty d fetched s)) = em_hooks s"
  "em_closed (snd (postOnce target body ty d fetched s)) = em_closed s"
  by (simp_all add: postOnce_def split: sum.splits)

lemma give_up_view: "em_deliveryChain s = (w, p) # rest \<Longrightarrow> view (give_up env event err s) = (view s)\<lparr>vw_chain := map snd rest\<rparr>"
  by (simp add: give_up_def settle_def Let_def split: prod.splits)

text \<open>One attempt makes at most one request, for the payload at the head, and keeps or drops the head.\<close>

lemma deliver_attempt_view:
  assumes c: "em_deliveryChain s = (w, p) # rest"
  obtains qs ps where "view (deliver_attempt opts env fetched event payload target n s) =
      (view s)\<lparr>vw_chain := ps @ map snd rest, vw_reqs := em_requests s @ qs\<rparr>"
    "\<forall>q \<in> set qs. hr_body q = payload \<and> hr_url q = at_callbackUrl target \<and> at_sign target payload = Inr (hr_signature q)" "ps = [] \<or> (\<exists>err. ps = [Attempting event payload target (Suc n) err])"
proof -
  obtain out s1 where post: "postOnce target payload (jget ''type'' event) (retry_delay opts n) fetched s = (out, s1)" by fastforce
  obtain qs where qs: "view s1 = (view s)\<lparr>vw_reqs := em_requests s @ qs\<rparr>" "\<forall>q \<in> set qs. hr_body q = payload \<and> hr_url q = at_callbackUrl target \<and> at_sign target payload = Inr (hr_signature q)"
    using postOnce_view [of target payload "jget ''type'' event" "retry_delay opts n" fetched s] post by auto
  have c1: "em_deliveryChain s1 = (w, p) # rest" using post c by (metis postOnce_frame(1) snd_conv)
  have done1: "view (settle r s1) = (view s)\<lparr>vw_chain := [] @ map snd rest, vw_reqs := em_requests s @ qs\<rparr>" for r
    using settle_view [OF c1] qs(1) by simp
  have done2: "view (settle r ((markDelivered env event k s1)\<lparr>em_hooks := h\<rparr>)) = (view s)\<lparr>vw_chain := [] @ map snd rest, vw_reqs := em_requests s @ qs\<rparr>" for r k h
    using settle_view [of "(markDelivered env event k s1)\<lparr>em_hooks := h\<rparr>" w p rest] c1 qs(1) by simp
  have again1: "view (set_head q (recordAttempt env event k err s1)) = (view s)\<lparr>vw_chain := [q] @ map snd rest, vw_reqs := em_requests s @ qs\<rparr>" for q k err
    using set_head_view [of "recordAttempt env event k err s1" w p rest] c1 qs(1) by simp
  have again2: "view (set_head q (recordAttempt env event k err ((markDelivered env event k' s1)\<lparr>em_hooks := h\<rparr>))) =
      (view s)\<lparr>vw_chain := [q] @ map snd rest, vw_reqs := em_requests s @ qs\<rparr>" for q k k' err h
    using set_head_view [of "recordAttempt env event k err ((markDelivered env event k' s1)\<lparr>em_hooks := h\<rparr>)" w p rest] c1 qs(1) by simp
  show thesis
    by (rule that [of qs "if em_closed s1 then [] else (case out of Inl err \<Rightarrow> [Attempting event payload target (Suc n) err]
          | Inr (ok, status) \<Rightarrow> if ok
              then (case fst (ee_delivered env event (em_hooks (markDelivered env event (Suc n) s1))) of Inr _ \<Rightarrow> []
                    | Inl err \<Rightarrow> [Attempting event payload target (Suc n) err])
              else [Attempting event payload target (Suc n) (''adapter '' @ at_callbackUrl target @ '' responded '' @ show_nat status)])"])
      (use done1 done2 again1 again2 qs(2) in \<open>auto simp: deliver_attempt_def post Let_def split: prod.splits sum.splits\<close>)
qed

lemma chain_step_vsteps: "vsteps opts (view s) (view (chain_step opts env fetched s))"
proof (cases "em_deliveryChain s")
  case (Cons wp rest)
  obtain w p where wp: "wp = (w, p)" by fastforce
  note c = Cons [unfolded wp]
  have vc: "vw_chain (view s) = p # map snd rest" using c by simp
  have fin: "vsteps opts (view s) ((view s)\<lparr>vw_chain := map snd rest\<rparr>)"
    using vstep.finish [OF vc, of "[]" opts] by (simp add: view_def r_into_rtranclp)
  show ?thesis
  proof (cases p)
    case (Rejected e)
    then show ?thesis using fin settle_view [OF c] by (simp add: chain_step_def c)
  next
    case (BestEffort event)
    have ch: "em_deliveryChain (postBestEffort opts fetched event s) = (w, p) # rest"
      by (simp add: postBestEffort_def c split: option.splits)
    obtain qs where "view (postBestEffort opts fetched event s) = (view s)\<lparr>vw_reqs := em_requests s @ qs\<rparr>"
      "\<forall>q \<in> set qs. request_for opts (vw_rows (view s)) p q"
    proof (cases "eo_resolveAdapterTarget opts (eo_adapterId opts)")
      case None
      then show ?thesis by (intro that [of "[]"]) (simp_all add: postBestEffort_def view_def)
    next
      case (Some target)
      then show ?thesis
        using postOnce_view [of target "json_stringify event" "jget ''type'' event" 0 fetched s] that BestEffort
        by (auto simp: postBestEffort_def request_for_def signed_def)
    qed
    then show ?thesis
      using vstep.finish [OF vc, of qs opts] settle_view [OF ch] BestEffort by (auto simp: chain_step_def c intro!: r_into_rtranclp)
  next
    case (Durable event payload n)
    have adv: "vsteps opts (view s) ((view s)\<lparr>vw_chain := Attempting event payload target n [] # map snd rest\<rparr>)"
      if "eo_resolveAdapterTarget opts (eo_adapterId opts) = Some target" for target
      using vstep.advance [where qs = "[]" and opts = opts and p' = "Attempting event payload target n []", OF vc] Durable that
      by (simp add: view_def r_into_rtranclp)
    show ?thesis
      using fin adv Durable by (simp add: chain_step_def c give_up_view [OF c] set_head_view [OF c] split: option.splits)
  next
    case (Attempting event payload target n err)
    show ?thesis
    proof (cases "n < total_posts opts")
      case True
      obtain qs ps where a: "view (deliver_attempt opts env fetched event payload target n s) =
          (view s)\<lparr>vw_chain := ps @ map snd rest, vw_reqs := em_requests s @ qs\<rparr>"
        "\<forall>q \<in> set qs. hr_body q = payload \<and> hr_url q = at_callbackUrl target \<and> at_sign target payload = Inr (hr_signature q)"
        "ps = [] \<or> (\<exists>err. ps = [Attempting event payload target (Suc n) err])"
        by (rule deliver_attempt_view [OF c])
      have q: "\<forall>q \<in> set qs. request_for opts (vw_rows (view s)) p q"
        using a(2) Attempting by (auto simp: request_for_def signed_def)
      have "vstep opts (view s) ((view s)\<lparr>vw_chain := ps @ map snd rest, vw_reqs := em_requests s @ qs\<rparr>)"
        using a(3) vstep.finish [OF vc q] vstep.advance [where qs = qs and opts = opts, OF vc _ _ q] Attempting by auto
      then show ?thesis using True Attempting a(1) by (simp add: chain_step_def c)
    next
      case False
      then show ?thesis using fin Attempting by (simp add: chain_step_def c give_up_view [OF c])
    qed
  qed
qed (simp add: chain_step_def)

lemma enqueue_row_vstep:
  assumes "r \<in> set (em_outbox s)" "of_emitter opts r" "json_parse (ob_payload r) = Some event"
  shows "vstep opts (view s) (view (enqueue w (Durable event (ob_payload r) n) s))"
  by (rule vstep_queueI [where n = "em_sequence s" and t = "em_terminalEmitted s" and ps = "[Durable event (ob_payload r) n]"])
    (use assms in \<open>auto simp: view_def enqueue_def intro!: bexI [of _ r]\<close>)

lemma resume_rows_vsteps:
  "set rows \<subseteq> {r \<in> set (em_outbox s). of_emitter opts r} \<Longrightarrow> vsteps opts (view s) (view (snd (resume_rows g rows s)))"
proof (induction rows arbitrary: s)
  case (Cons r rows)
  have "vsteps opts (view s) (view (snd (resume_rows g rows (enqueue (Resuming g) (Durable event (ob_payload r) (ob_attempts r)) s))))"
    if p: "json_parse (ob_payload r) = Some event" for event
    using Cons.prems enqueue_row_vstep [of r s opts event "Resuming g" "ob_attempts r", OF _ _ p]
    by (intro converse_rtranclp_into_rtranclp [OF _ Cons.IH]) (auto simp: enqueue_def)
  then show ?case by (simp split: option.splits)
qed simp

lemma resumePending_vsteps: "vsteps opts (view s) (view (snd (resumePending opts s)))"
proof -
  have "vsteps opts (view s) (view (snd (resume_rows g (sort_key ob_sequence (filter (\<lambda>r. of_emitter opts r \<and> ob_status r = OPending) (em_outbox s)))
      (s\<lparr>em_resumes := x, em_resumePromise := y\<rparr>))))" for g x y
    using resume_rows_vsteps [where s = "s\<lparr>em_resumes := x, em_resumePromise := y\<rparr>" and opts = opts and g = g
        and rows = "sort_key ob_sequence (filter (\<lambda>r. of_emitter opts r \<and> ob_status r = OPending) (em_outbox s))"] by auto
  then show ?thesis by (simp add: resumePending_def Let_def)
qed

lemma retryPermanentFailure_vsteps: "vsteps opts (view s) (view (snd (retryPermanentFailure opts env i s)))"
proof -
  have core: "map ob_core (fst (sql_update P (\<lambda>r. r\<lparr>ob_status := OPending, ob_attempts := 0, ob_lastError := None, ob_updatedAt := ts\<rparr>) rows)) = map ob_core rows"
    for P ts rows by (simp add: sql_update_def comp_def if_distrib [of ob_core]) (simp add: ob_core_def)
  have same: "(view s)\<lparr>vw_rows := map ob_core (em_outbox s)\<rparr> = view s" by (simp add: view_def)
  have queue: "vsteps opts (view s) ((view s)\<lparr>vw_chain := map snd (em_deliveryChain s) @ [Durable event (ob_payload row) 0]\<rparr>)"
    if "sql_get (\<lambda>r. ob_eventId r = i \<and> of_emitter opts r \<and> ob_status r = OPermanentFailure) (em_outbox s) = Some row"
      "json_parse (ob_payload row) = Some event" for row event
    using enqueue_row_vstep [of row s opts event Live 0] that sql_get_SomeD [OF that(1)] by (simp add: r_into_rtranclp)
  show ?thesis
    using queue unfolding retryPermanentFailure_def retryPermanentFailureOnce_def
    by (auto simp: take_utc_def core same Let_def case_prod_beta split: option.splits sum.splits)
qed

section \<open>Runs\<close>

text \<open>
  A run of the emitter of a correlation: calls of its operations in any order, steps of its
  delivery chain with any outcome, writes of other emitters to the shared outbox, and
  restarts of the process, after which a new emitter is built from the outbox.
\<close>

datatype emission =
    Ingest json
  | ProviderError string string bool
  | SetPresence Presence
  | Cancel
  | DirectReply string
  | FlushProgress
  | ResumePending
  | RetryFailure string
  | ChainStep "(string, nat) result"
  | Close
  | OtherWrites "OutboxRow list"
  | Restart

definition restart_emitter :: "EmitterOptions \<Rightarrow> 'h emitter \<Rightarrow> 'h emitter" where
  "restart_emitter opts s =
     (case newEmitter opts (em_outbox s) (em_hooks s) of Inl e \<Rightarrow> s | Inr s' \<Rightarrow> s'\<lparr>em_reads := em_reads s\<rparr>)"

fun emitter_call :: "EmitterOptions \<Rightarrow> 'h EmitterEnv \<Rightarrow> emission \<Rightarrow> 'h emitter \<Rightarrow> 'h emitter" where
  "emitter_call opts env (Ingest frame) s = snd (ingest_frame opts env frame s)"
| "emitter_call opts env (ProviderError c m r) s = snd (emitProviderError opts env c m r s)"
| "emitter_call opts env (SetPresence p) s = snd (emitPresence opts env p s)"
| "emitter_call opts env Cancel s = snd (emitCancelled opts env s)"
| "emitter_call opts env (DirectReply text) s = snd (emitDirectReply opts env text s)"
| "emitter_call opts env FlushProgress s = flushProgress opts env s"
| "emitter_call opts env ResumePending s = snd (resumePending opts s)"
| "emitter_call opts env (RetryFailure i) s = snd (retryPermanentFailure opts env i s)"
| "emitter_call opts env (ChainStep fetched) s = chain_step opts env fetched s"
| "emitter_call opts env Close s = close_emitter s"
| "emitter_call opts env (OtherWrites rows) s =
     (if own opts rows = own opts (em_outbox s) \<and> distinct (map ob_eventId rows) then s\<lparr>em_outbox := rows\<rparr> else s)"
| "emitter_call opts env Restart s = restart_emitter opts s"

definition emitter_run :: "EmitterOptions \<Rightarrow> 'h EmitterEnv \<Rightarrow> emission list \<Rightarrow> 'h emitter \<Rightarrow> 'h emitter" where
  "emitter_run opts env calls s = foldl (\<lambda>s c. emitter_call opts env c s) s calls"

lemma own_core: "own opts (map ob_core rows) = map ob_core (own opts rows)"
  by (induction rows) auto

lemma max_seq_core: "max_seq (map ob_core rows) = max_seq rows"
  by (cases rows) (simp_all add: max_seq_def image_image)

lemma terminal_row:
  "(\<exists>y. sql_get (\<lambda>r. of_emitter opts r \<and> ob_eventType r \<in> set terminal_types) rows = Some y) \<longleftrightarrow> (\<exists>r \<in> set (own opts rows). is_terminal r)"
  using sql_get_None_iff [of "\<lambda>r. of_emitter opts r \<and> ob_eventType r \<in> set terminal_types" rows]
  by (auto simp: is_terminal_def not_None_eq [symmetric] simp del: not_None_eq)

lemma newEmitter_view:
  "newEmitter opts rows h = Inr s \<Longrightarrow> view s = \<lparr>vw_rows = map ob_core rows, vw_seq = max_seq (own opts rows),
     vw_term = (\<exists>r \<in> set (own opts rows). is_terminal r), vw_chain = [], vw_reqs = []\<rparr>"
  by (auto simp: newEmitter_def result_bind_Inr_iff view_def max_seq_def terminal_row Let_def)

lemma restart_vsteps: "vsteps opts (view s) (view (restart_emitter opts s))"
proof (cases "newEmitter opts (em_outbox s) (em_hooks s)")
  case (Inr s')
  have "vstep opts (view s) (view s')"
    using vstep.restart [of opts "view s"] by (simp add: newEmitter_view [OF Inr] own_core max_seq_core)
  then show ?thesis by (simp add: restart_emitter_def Inr r_into_rtranclp)
qed (simp add: restart_emitter_def)

lemma emitter_call_vsteps: "vsteps opts (view s) (view (emitter_call opts env c s))"
proof (cases c)
  case (OtherWrites rows)
  have "vsteps opts (view s) ((view s)\<lparr>vw_rows := map ob_core rows\<rparr>)"
    if "own opts rows = own opts (em_outbox s)" "distinct (map ob_eventId rows)"
    using vstep.others [where rows = "map ob_core rows" and v = "view s" and opts = opts] that
    by (auto simp: own_core comp_def)
  then show ?thesis using OtherWrites by simp
qed (simp_all add: ingest_frame_vsteps terminal_ops_vsteps emitPresence_vsteps flushProgress_vsteps resumePending_vsteps
    retryPermanentFailure_vsteps chain_step_vsteps close_emitter_def restart_vsteps)

lemma emitter_run_vsteps: "vsteps opts (view s) (view (emitter_run opts env calls s))"
proof (induction calls arbitrary: s)
  case (Cons c calls)
  show ?case
    using rtranclp_trans [OF emitter_call_vsteps Cons.IH] by (simp add: emitter_run_def)
qed (simp add: emitter_run_def)

lemma fresh_view_inv:
  assumes "newEmitter opts rows h = Inr s" "distinct (map ob_eventId rows)" "own opts rows = []"
  shows "view_inv opts (view s)"
  using assms by (simp add: newEmitter_view [OF assms(1)] view_inv_def rows_inv_def own_core comp_def)

lemma emitter_run_inv:
  assumes "newEmitter opts rows h = Inr s" "distinct (map ob_eventId rows)" "own opts rows = []"
  shows "view_inv opts (view (emitter_run opts env calls s))"
  by (rule view_inv_steps [OF emitter_run_vsteps fresh_view_inv [OF assms]])

lemma own_terminal_core: "filter is_terminal (own opts (map ob_core rows)) = map ob_core (filter is_terminal (own opts rows))"
  by (induction rows) auto

lemma max_seq_le: "(\<forall>r \<in> set rows. ob_sequence r \<le> n) \<Longrightarrow> max_seq rows \<le> n"
  by (cases rows) (auto simp: max_seq_def)

section \<open>Properties of a run\<close>


definition w_target :: AdapterTarget where
  "w_target = \<lparr>at_callbackUrl = ''http://a/cb'', at_sign = (\<lambda>body. Inr (''sig:'' @ show_nat (length body)))\<rparr>"

definition w_opts :: EmitterOptions where
  "w_opts = \<lparr>eo_adapterId = ''web'', eo_conversationKey = ''room'', eo_correlationId = ''c1'',
     eo_resolveAdapterTarget = (\<lambda>i. Some w_target), eo_dbPath = '':memory:'', eo_progressThresholdMs = 1000,
     eo_retryDelaysMs = [50], eo_requestTimeoutMs = 100\<rparr>"

definition w_env :: "unit EmitterEnv" where
  "w_env = \<lparr>ee_uuid = (\<lambda>n. ''e'' @ show_nat n), ee_now = (\<lambda>n. int n), ee_utc = (\<lambda>n. ''u'' @ show_nat n),
     ee_iso = (\<lambda>t. ''t''), ee_prepared = (\<lambda>e h. (Inr (), h)), ee_delivered = (\<lambda>e h. (Inr (), h)),
     ee_failed = (\<lambda>e err h. (Inr (), h))\<rparr>"

definition w_frame :: "string \<Rightarrow> json" where
  "w_frame ty = JObj [(''type'', JStr ty)]"

definition w_delta :: "string \<Rightarrow> json" where
  "w_delta d = JObj [(''type'', JStr ''message_update''),
     (''assistantMessageEvent'', JObj [(''type'', JStr ''text_delta''), (''delta'', JStr d)])]"

definition w_start :: "unit emitter" where
  "w_start = (case newEmitter w_opts [] () of Inr s \<Rightarrow> s)"

definition w_calls :: "emission list" where
  "w_calls = [Ingest (w_frame ''turn_start''), Ingest (w_delta ''hi''), Ingest (w_frame ''agent_end''), Cancel, Restart, DirectReply ''again'']"

lemma w_start: "newEmitter w_opts [] () = Inr w_start"
  by (simp add: w_start_def newEmitter_def check_options_def w_opts_def Let_def)


text \<open>
  C15. Persisted, then posted, and exactly what was persisted. Over every such run each
  request made goes to the callback of the adapter with the signature of its body, and its
  body is the payload of an outbox row of the correlation, or a printed delta or progress
  event; and each row holds the printed form of an event with its id, sequence and type, so
  that what a later process reads back is the event that was persisted.\<close>

theorem emitter_persists_before_posting:
  assumes "newEmitter opts rows h = Inr s0" "distinct (map ob_eventId rows)" "own opts rows = []"
    and "s = emitter_run opts env calls s0"
  shows "(\<forall>q \<in> set (em_requests s). signed opts q \<and> body_ok opts (em_outbox s) (hr_body q)) \<and>
    (\<forall>r \<in> set (own opts (em_outbox s)). \<exists>e. json_parse (ob_payload r) = Some (event_json e) \<and> ob_eventId r = ev_eventId e \<and>
       ob_sequence r = ev_sequence e \<and> ob_eventType r = event_type (ev_body e))"
proof -
  have inv: "view_inv opts (view s)" using emitter_run_inv [OF assms(1-3), of env calls] assms(4) by simp
  have "body_ok opts (map ob_core (em_outbox s)) b \<Longrightarrow> body_ok opts (em_outbox s) b" for b
    by (auto simp: body_ok_def own_core)
  moreover have "\<exists>e. json_parse (ob_payload r) = Some (event_json e) \<and> ob_eventId r = ev_eventId e \<and>
       ob_sequence r = ev_sequence e \<and> ob_eventType r = event_type (ev_body e)" if "row_wf opts r" for r
  proof -
    obtain e where e: "ob_core r = ob_core (outbox_row opts e)" using \<open>row_wf opts r\<close> by (auto simp: row_wf_def)
    show ?thesis
      using arg_cong [OF e, of ob_payload] arg_cong [OF e, of ob_eventId] arg_cong [OF e, of ob_sequence] arg_cong [OF e, of ob_eventType]
      by (intro exI [of _ e]) (simp add: json_parse_stringify)
  qed
  ultimately show ?thesis using inv by (auto simp: view_inv_def rows_inv_def own_core)
qed

theorem emitter_persists_before_posting_witness:
  "let s = emitter_run w_opts w_env (w_calls @ [ResumePending, ChainStep (Inr 200), ChainStep (Inr 200)]) w_start
   in length (em_requests s) = 1 \<and> set (filter (\<lambda>q. \<not> (signed w_opts q \<and> body_ok w_opts (em_outbox s) (hr_body q))) (em_requests s)) = {}"
proof -
  define s where "s = emitter_run w_opts w_env (w_calls @ [ResumePending, ChainStep (Inr 200), ChainStep (Inr 200)]) w_start"
  have "length (em_requests (emitter_run w_opts w_env (w_calls @ [ResumePending, ChainStep (Inr 200), ChainStep (Inr 200)]) w_start)) = 1"
    by code_simp
  then show ?thesis
    using emitter_persists_before_posting [OF w_start _ _ s_def] by (auto simp: s_def [symmetric])
qed

end
