(* ===== verification/Emitter_Delivery.thy ===== *)
theory Emitter_Delivery
  imports Emitter_Protocol
begin

text \<open>
  Delivery of one durable event by \<open>deliverPayload\<close> of \<open>outbound-emitter.ts\<close>: the retry
  schedule is bounded, a delivery always settles, and the row records the outcome. Then the
  content of the terminal event that ends a turn.
\<close>

section \<open>Steps of one delivery\<close>

definition chain_run :: "EmitterOptions \<Rightarrow> 'h EmitterEnv \<Rightarrow> (string, nat) result list \<Rightarrow> 'h emitter \<Rightarrow> 'h emitter" where
  "chain_run opts env fs s = foldl (\<lambda>s f. chain_step opts env f s) s fs"

lemma chain_run_simps [simp]:
  "chain_run opts env [] s = s" "chain_run opts env (f # fs) s = chain_run opts env fs (chain_step opts env f s)"
  "chain_run opts env (fs @ gs) s = chain_run opts env gs (chain_run opts env fs s)"
  by (simp_all add: chain_run_def)

text \<open>The row of an event.\<close>

definition event_row :: "json \<Rightarrow> 'h emitter \<Rightarrow> OutboxRow option" where
  "event_row event s = sql_get (\<lambda>r. Some (ob_eventId r) = event_id event) (em_outbox s)"

lemma sql_get_update:
  assumes "\<And>r. P r \<Longrightarrow> P (f r)"
  shows "sql_get P (fst (sql_update P f t)) = map_option f (sql_get P t)"
  by (induction t) (auto simp: sql_update_def assms)

lemma event_row_update:
  assumes "\<And>r. ob_eventId (f r) = ob_eventId r"
  shows "event_row event (update_event env event f s) = map_option (\<lambda>r. (f r)\<lparr>ob_updatedAt := ee_utc env (em_reads s)\<rparr>) (event_row event s)"
  by (simp add: event_row_def update_event_def take_utc_def sql_get_update assms)

lemma update_event_frame [simp]:
  "em_closed (update_event env event f s) = em_closed s" "em_requests (update_event env event f s) = em_requests s"
  "em_hooks (update_event env event f s) = em_hooks s" "em_deliveryChain (update_event env event f s) = em_deliveryChain s"
  by (simp_all add: update_event_def take_utc_def)

lemmas mark_defs = markDelivered_def recordAttempt_def markPermanentFailure_def

lemma event_row_frame [simp]:
  "event_row event (s\<lparr>em_hooks := h\<rparr>) = event_row event s" "event_row event (settle r s) = event_row event s"
  "event_row event (set_head p s) = event_row event s" "event_row event (s\<lparr>em_requests := q\<rparr>) = event_row event s"
  by (auto simp: event_row_def settle_def set_head_def split: list.splits)

lemma chain_frame [simp]:
  "em_closed (settle r s) = em_closed s" "em_closed (set_head p s) = em_closed s"
  "em_requests (settle r s) = em_requests s" "em_requests (set_head p s) = em_requests s"
  by (auto simp: settle_def set_head_def split: list.splits)

definition status_is :: "OutboxStatus \<Rightarrow> OutboxRow option \<Rightarrow> bool" where
  "status_is st row \<longleftrightarrow> (case row of None \<Rightarrow> True | Some r \<Rightarrow> ob_status r = st)"

lemma status_is_map: "(\<And>r. ob_status (f r) = st) \<Longrightarrow> status_is st (map_option f row)"
  by (cases row) (simp_all add: status_is_def)

definition acked :: "(string, nat) result \<Rightarrow> bool" where
  "acked f = (case f of Inl _ \<Rightarrow> False | Inr status \<Rightarrow> 200 \<le> status \<and> status < 300)"

lemma give_up_step:
  assumes "em_deliveryChain s = (w, p) # rest" "\<not> em_closed s"
  shows "em_deliveryChain (give_up env event err s) = rest \<and> \<not> em_closed (give_up env event err s) \<and>
    em_requests (give_up env event err s) = em_requests s \<and>
    event_row event (give_up env event err s) =
      map_option (\<lambda>r. r\<lparr>ob_status := OPermanentFailure, ob_lastError := Some err, ob_updatedAt := ee_utc env (em_reads s)\<rparr>) (event_row event s)"
proof -
  obtain r h where "ee_failed env event err (em_hooks s) = (r, h)" by fastforce
  then show ?thesis
    using assms by (simp add: give_up_def mark_defs Let_def event_row_update) (simp add: settle_def)
qed

text \<open>One attempt: the request, then either the end with an acknowledgement or the next attempt.\<close>

lemma attempt_step:
  assumes c: "em_deliveryChain s = (w, Attempting event payload target n err) # rest" and o: "\<not> em_closed s" and n: "n < total_posts opts"
    and s': "s' = chain_step opts env f s"
  shows "\<not> em_closed s' \<and> length (em_requests s') \<le> Suc (length (em_requests s)) \<and>
    (em_deliveryChain s' = rest \<and> status_is ODelivered (event_row event s') \<or>
     (\<exists>err'. em_deliveryChain s' = (w, Attempting event payload target (Suc n) err') # rest))"
proof -
  obtain out s1 where post: "postOnce target payload (jget ''type'' event) (retry_delay opts n) f s = (out, s1)" by fastforce
  have s1: "\<not> em_closed s1" "em_deliveryChain s1 = em_deliveryChain s" "length (em_requests s1) \<le> Suc (length (em_requests s))"
    using post o by (auto simp: postOnce_def split: sum.splits)
  let ?again = "\<lambda>err s. set_head (Attempting event payload target (Suc n) err) (recordAttempt env event (Suc n) err s)"
  have again: "?thesis" if "s' = ?again e s2" "\<not> em_closed s2" "em_deliveryChain s2 = em_deliveryChain s" "em_requests s2 = em_requests s1" for e s2
    using that s1 c by (simp add: recordAttempt_def) (simp add: set_head_def recordAttempt_def)
  have done1: "?thesis" if "s' = settle (Inr ()) ((markDelivered env event (Suc n) s1)\<lparr>em_hooks := h\<rparr>)" for h
    using that s1 c by (simp add: markDelivered_def event_row_update status_is_map) (simp add: settle_def)
  have st: "s' = (case out of
      Inl err \<Rightarrow> ?again err s1
    | Inr (ok, status) \<Rightarrow> if ok then (let s2 = markDelivered env event (Suc n) s1; (r, h) = ee_delivered env event (em_hooks s2)
        in case r of Inr _ \<Rightarrow> settle (Inr ()) (s2\<lparr>em_hooks := h\<rparr>) | Inl err \<Rightarrow> ?again err (s2\<lparr>em_hooks := h\<rparr>))
      else ?again (''adapter '' @ at_callbackUrl target @ '' responded '' @ show_nat status) s1)"
    using s1 c n s' by (simp add: chain_step_def deliver_attempt_def post)
  show ?thesis
  proof (cases out)
    case (Inl e)
    then show ?thesis using again [of e s1] st s1 by simp
  next
    case (Inr os)
    obtain ok status where os: "os = (ok, status)" by fastforce
    obtain r h where d: "ee_delivered env event (em_hooks s1) = (r, h)" by fastforce
    have m: "em_hooks (markDelivered env event (Suc n) s1) = em_hooks s1" by (simp add: markDelivered_def)
    show ?thesis
    proof (cases ok)
      case False
      then show ?thesis by (intro again [of _ s1]) (use st Inr os s1 in simp_all)
    next
      case True
      note ok = this
      show ?thesis
      proof (cases r)
        case (Inl e)
        then show ?thesis
          by (intro again [of e "(markDelivered env event (Suc n) s1)\<lparr>em_hooks := h\<rparr>"])
            (use st Inr os ok d s1 m in \<open>simp_all add: markDelivered_def\<close>)
      next
        case (Inr u)
        then show ?thesis by (intro done1 [of h]) (use st \<open>out = Inr os\<close> os ok d m in simp)
      qed
    qed
  qed
qed

lemma exhausted_step:
  assumes "em_deliveryChain s = (w, Attempting event payload target n err) # rest" "\<not> em_closed s" "\<not> n < total_posts opts"
  shows "chain_step opts env f s = give_up env event err s"
  using assms by (simp add: chain_step_def)

lemma attempting_settles:
  assumes "em_deliveryChain s = (w, Attempting event payload target n err) # rest" "\<not> em_closed s" "total_posts opts - n < length fs"
  shows "\<exists>k \<le> Suc (total_posts opts - n). let s' = chain_run opts env (take k fs) s in
     em_deliveryChain s' = rest \<and> \<not> em_closed s' \<and> length (em_requests s') \<le> length (em_requests s) + (total_posts opts - n) \<and>
     (status_is ODelivered (event_row event s') \<or> status_is OPermanentFailure (event_row event s'))"
  using assms
proof (induction "total_posts opts - n" arbitrary: s n err fs)
  case 0
  obtain f fs' where fs: "fs = f # fs'" using 0 by (cases fs) auto
  have "chain_step opts env f s = give_up env event err s" using exhausted_step [OF 0(2,3)] 0(1) by simp
  then show ?case
    using give_up_step [OF 0(2,3), of env event err] by (intro exI [of _ 1]) (simp add: fs status_is_map)
next
  case (Suc d)
  obtain f fs' where fs: "fs = f # fs'" using Suc(5) by (cases fs) auto
  have n: "n < total_posts opts" "d = total_posts opts - Suc n" using Suc(2) by auto
  define s1 where "s1 = chain_step opts env f s"
  have a: "\<not> em_closed s1" "length (em_requests s1) \<le> Suc (length (em_requests s))"
    "em_deliveryChain s1 = rest \<and> status_is ODelivered (event_row event s1) \<or>
     (\<exists>err'. em_deliveryChain s1 = (w, Attempting event payload target (Suc n) err') # rest)"
    using attempt_step [OF Suc(3,4) n(1) s1_def] by auto
  show ?case
  proof (cases "em_deliveryChain s1 = rest \<and> status_is ODelivered (event_row event s1)")
    case True
    then show ?thesis using a Suc(2) by (intro exI [of _ 1]) (simp add: fs s1_def [symmetric])
  next
    case False
    then obtain err' where "em_deliveryChain s1 = (w, Attempting event payload target (Suc n) err') # rest" using a(3) by blast
    then obtain k where "k \<le> Suc d" and k: "let s' = chain_run opts env (take k fs') s1 in
       em_deliveryChain s' = rest \<and> \<not> em_closed s' \<and> length (em_requests s') \<le> length (em_requests s1) + d \<and>
       (status_is ODelivered (event_row event s') \<or> status_is OPermanentFailure (event_row event s'))"
      using Suc(1) [OF n(2) _ a(1), of err' fs'] Suc(2,5) n(2) fs by auto
    then show ?thesis using a(2) Suc(2) by (intro exI [of _ "Suc k"]) (auto simp: fs s1_def [symmetric] Let_def)
  qed
qed

section \<open>The outcome of a delivery\<close>

text \<open>An attempt after which the loop goes on: no acknowledgement, or a throw of the delivered hook.\<close>

definition goes_on :: "'h EmitterEnv \<Rightarrow> json \<Rightarrow> (string, nat) result \<Rightarrow> bool" where
  "goes_on env event f \<longleftrightarrow> \<not> acked f \<or> (\<forall>h. isl (fst (ee_delivered env event h)))"

lemma goes_on_step:
  assumes c: "em_deliveryChain s = (w, Attempting event payload target n err) # rest" and o: "\<not> em_closed s" "n < total_posts opts"
    and sign: "at_sign target payload = Inr sig" and g: "goes_on env event f" and row: "event_row event s \<noteq> None"
    and s': "s' = chain_step opts env f s"
  shows "(\<exists>err'. em_deliveryChain s' = (w, Attempting event payload target (Suc n) err') # rest) \<and> \<not> em_closed s' \<and>
    length (em_requests s') = Suc (length (em_requests s)) \<and> event_row event s' \<noteq> None"
proof -
  define s1 where "s1 = snd (postOnce target payload (jget ''type'' event) (retry_delay opts n) f s)"
  have s1: "\<not> em_closed s1" "em_deliveryChain s1 = em_deliveryChain s" "length (em_requests s1) = Suc (length (em_requests s))" "event_row event s1 \<noteq> None"
    using o row by (simp_all add: s1_def postOnce_def sign)
  let ?again = "\<lambda>err s. set_head (Attempting event payload target (Suc n) err) (recordAttempt env event (Suc n) err s)"
  have again: "?thesis" if "s' = ?again e s2" "\<not> em_closed s2" "em_deliveryChain s2 = em_deliveryChain s" "em_requests s2 = em_requests s1" "event_row event s2 \<noteq> None" for e s2
    using that s1 c by (simp add: recordAttempt_def event_row_update) (simp add: set_head_def recordAttempt_def)
  show ?thesis
  proof (cases "acked f")
    case False
    then obtain e where "s' = ?again e s1"
      using s1 c o s' sign by (auto simp: chain_step_def deliver_attempt_def s1_def postOnce_def acked_def split: sum.splits)
    then show ?thesis using s1 by (intro again) auto
  next
    case True
    obtain e h where d: "ee_delivered env event (em_hooks s1) = (Inl e, h)"
      using g True by (auto simp: goes_on_def isl_def) (metis prod.collapse)
    have "em_hooks (markDelivered env event (Suc n) s1) = em_hooks s1" by (simp add: markDelivered_def)
    then have "s' = ?again e ((markDelivered env event (Suc n) s1)\<lparr>em_hooks := h\<rparr>)"
      using True s1 c o s' sign d by (auto simp: chain_step_def deliver_attempt_def s1_def postOnce_def acked_def split: sum.splits)
    then show ?thesis using s1 by (intro again [of e "(markDelivered env event (Suc n) s1)\<lparr>em_hooks := h\<rparr>"]) (simp_all add: markDelivered_def event_row_update)
  qed
qed

lemma goes_on_run:
  assumes "em_deliveryChain s = (w, Attempting event payload target n err) # rest" "\<not> em_closed s" "n + length fs \<le> total_posts opts"
    "at_sign target payload = Inr sig" "\<forall>f \<in> set fs. goes_on env event f" "event_row event s \<noteq> None"
  shows "\<exists>err'. let s' = chain_run opts env fs s in
    em_deliveryChain s' = (w, Attempting event payload target (n + length fs) err') # rest \<and> \<not> em_closed s' \<and>
    length (em_requests s') = length (em_requests s) + length fs \<and> event_row event s' \<noteq> None"
  using assms
proof (induction fs arbitrary: s n err)
  case (Cons f fs)
  have g: "goes_on env event f" "n < total_posts opts" using Cons.prems by auto
  obtain err' where s1: "em_deliveryChain (chain_step opts env f s) = (w, Attempting event payload target (Suc n) err') # rest"
    "\<not> em_closed (chain_step opts env f s)" "length (em_requests (chain_step opts env f s)) = Suc (length (em_requests s))"
    "event_row event (chain_step opts env f s) \<noteq> None"
    using goes_on_step [OF Cons.prems(1,2) g(2) Cons.prems(4) g(1) Cons.prems(6) refl] by blast
  show ?case using Cons.IH [OF s1(1,2) _ Cons.prems(4) _ s1(4)] Cons.prems s1(3) by (auto simp: Let_def)
qed (simp add: Let_def)

lemma ack_step:
  assumes c: "em_deliveryChain s = (w, Attempting event payload target n err) # rest" and o: "\<not> em_closed s" "n < total_posts opts"
    and sign: "at_sign target payload = Inr sig" and a: "acked f" and hook: "fst (ee_delivered env event (em_hooks s)) = Inr ()"
    and s': "s' = chain_step opts env f s"
  shows "em_hooks s' = snd (ee_delivered env event (em_hooks s)) \<and> em_deliveryChain s' = rest \<and> em_settled s' = Inr () \<and> length (em_requests s') = Suc (length (em_requests s)) \<and>
    event_row event s' = map_option (\<lambda>r. r\<lparr>ob_status := ODelivered, ob_attempts := Suc n, ob_lastError := None,
      ob_updatedAt := ee_utc env (em_reads s)\<rparr>) (event_row event s)"
proof -
  define s1 where "s1 = snd (postOnce target payload (jget ''type'' event) (retry_delay opts n) f s)"
  have s1: "\<not> em_closed s1" "em_deliveryChain s1 = em_deliveryChain s" "length (em_requests s1) = Suc (length (em_requests s))"
    "event_row event s1 = event_row event s" "em_reads s1 = em_reads s" "em_hooks s1 = em_hooks s"
    using o by (simp_all add: s1_def postOnce_def sign)
  obtain h where d: "ee_delivered env event (em_hooks s1) = (Inr (), h)" using hook s1(6) by (metis prod.collapse)
  have "em_hooks (markDelivered env event (Suc n) s1) = em_hooks s1" by (simp add: markDelivered_def)
  then have "s' = settle (Inr ()) ((markDelivered env event (Suc n) s1)\<lparr>em_hooks := h\<rparr>)"
    using a s1 c o s' sign d by (auto simp: chain_step_def deliver_attempt_def s1_def postOnce_def acked_def split: sum.splits)
  then show ?thesis
    using s1 c d by (simp add: markDelivered_def event_row_update) (simp add: settle_def)
qed

lemma durable_step:
  "em_deliveryChain s = (w, Durable event payload n) # rest \<Longrightarrow> eo_resolveAdapterTarget opts (eo_adapterId opts) = Some target \<Longrightarrow>
   s' = chain_step opts env f s \<Longrightarrow> em_deliveryChain s' = (w, Attempting event payload target n []) # rest \<and>
     em_closed s' = em_closed s \<and> em_requests s' = em_requests s \<and> event_row event s' = event_row event s"
  by (simp add: chain_step_def) (simp add: set_head_def)

lemma exhausted_run:
  assumes "em_deliveryChain s = (w, Durable event payload n) # rest" "\<not> em_closed s" "n \<le> total_posts opts"
    and "eo_resolveAdapterTarget opts (eo_adapterId opts) = Some target" "at_sign target payload = Inr sig" "event_row event s \<noteq> None"
    and "length fs = total_posts opts - n" "\<forall>f \<in> set fs. goes_on env event f" and s': "s' = chain_run opts env (f0 # fs @ [f1]) s"
  shows "em_deliveryChain s' = rest \<and> length (em_requests s') = length (em_requests s) + (total_posts opts - n) \<and>
    (\<exists>row. event_row event s' = Some row \<and> ob_status row = OPermanentFailure \<and> ob_lastError row \<noteq> None)"
proof -
  define s1 where "s1 = chain_step opts env f0 s"
  note d = durable_step [OF assms(1,4) s1_def]
  obtain err' where r: "em_deliveryChain (chain_run opts env fs s1) = (w, Attempting event payload target (n + length fs) err') # rest"
    "\<not> em_closed (chain_run opts env fs s1)" "length (em_requests (chain_run opts env fs s1)) = length (em_requests s1) + length fs"
    "event_row event (chain_run opts env fs s1) \<noteq> None"
    using goes_on_run [of s1 w event payload target n "[]" rest fs opts sig env] d assms by (auto simp: Let_def)
  have "s' = give_up env event err' (chain_run opts env fs s1)"
    using exhausted_step [OF r(1,2)] assms(3,7) by (simp add: s' s1_def)
  then show ?thesis using give_up_step [OF r(1,2), of env event err'] r(3,4) d assms(7) by auto
qed

lemma list_ex_takeWhile:
  assumes "list_ex P xs"
  obtains ys y zs where "xs = ys @ y # zs" "P y" "\<forall>x \<in> set ys. \<not> P x" "length (takeWhile (\<lambda>x. \<not> P x) xs) = length ys"
proof -
  obtain ys y zs where *: "xs = ys @ y # zs" "P y" "\<forall>x \<in> set ys. \<not> P x"
    using split_list_first_prop [of xs P] assms by (auto simp: list_ex_iff)
  then have "takeWhile (\<lambda>x. \<not> P x) xs = ys" by (simp add: takeWhile_append2)
  with * show thesis by (intro that [of ys y zs]) auto
qed

lemma durable_settles:
  assumes c: "em_deliveryChain s = (w, Durable event payload n) # rest" "\<not> em_closed s" and len: "total_posts opts - n + 2 \<le> length fs"
  shows "\<exists>k \<le> total_posts opts - n + 2. let s' = chain_run opts env (take k fs) s in
    em_deliveryChain s' = rest \<and> length (em_requests s') \<le> length (em_requests s) + (total_posts opts - n) \<and>
    (status_is ODelivered (event_row event s') \<or> status_is OPermanentFailure (event_row event s'))"
proof -
  obtain f fs' where fs: "fs = f # fs'" using len by (cases fs) auto
  show ?thesis
  proof (cases "eo_resolveAdapterTarget opts (eo_adapterId opts)")
    case None
    define err where "err = ''no adapter target registered for '' @ [dquote] @ eo_adapterId opts @ [dquote]"
    have "chain_step opts env f s = give_up env event err s" by (simp add: chain_step_def c None err_def)
    then show ?thesis using give_up_step [OF c, of env event err] by (intro exI [of _ 1]) (simp add: fs status_is_map)
  next
    case (Some target)
    define s1 where "s1 = chain_step opts env f s"
    note d = durable_step [OF c(1) Some s1_def]
    obtain k where "k \<le> Suc (total_posts opts - n)" "let s' = chain_run opts env (take k fs') s1 in
     em_deliveryChain s' = rest \<and> \<not> em_closed s' \<and> length (em_requests s') \<le> length (em_requests s1) + (total_posts opts - n) \<and>
     (status_is ODelivered (event_row event s') \<or> status_is OPermanentFailure (event_row event s'))"
      using attempting_settles [of s1 w event payload target n "[]" rest opts fs' env] d c(2) len fs by auto
    then show ?thesis using d by (intro exI [of _ "Suc k"]) (auto simp: fs s1_def [symmetric] Let_def)
  qed
qed

text \<open>
  C17. Every durable delivery settles after boundedly many requests. Whatever the adapter
  answers and whatever the hooks do, the delivery at the head of the chain leaves it within
  the number of attempts that remain of the schedule (one immediate, one per retry delay) and
  two bookkeeping steps; it makes at most that many requests, the deliveries queued behind it
  stay queued, and its row ends as delivered or as a permanent failure.\<close>

theorem delivery_settles:
  assumes "em_deliveryChain s = (w, Durable event payload n) # rest" "\<not> em_closed s" "total_posts opts - n + 2 \<le> length fs"
  shows "\<exists>k \<le> 1 + length (eo_retryDelaysMs opts) - n + 2. let s' = chain_run opts env (take k fs) s in
    em_deliveryChain s' = rest \<and> length (em_requests s') \<le> length (em_requests s) + (1 + length (eo_retryDelaysMs opts) - n) \<and>
    (status_is ODelivered (event_row event s') \<or> status_is OPermanentFailure (event_row event s'))"
  using durable_settles [OF assms, of env] by (simp add: total_posts_def)

definition w_queued :: "unit emitter" where
  "w_queued = emitter_run w_opts w_env [Ingest (w_frame ''turn_start'')] w_start"

definition w_started :: OutboundEvent where
  "w_started = \<lparr>ev_body = TurnStarted, ev_eventId = ''e1'', ev_conversationKey = ''room'', ev_correlationId = ''c1'',
     ev_sequence = 1, ev_occurredAt = ''t''\<rparr>"

fun durable_of :: "delivery \<Rightarrow> (json \<times> string \<times> nat) option" where
  "durable_of (Durable event payload n) = Some (event, payload, n)"
| "durable_of p = None"

lemma durable_of_Some: "durable_of p = Some (event, payload, n) \<longleftrightarrow> p = Durable event payload n"
  by (cases p) auto

lemma w_queued:
  "em_deliveryChain w_queued = [(Live, Durable (event_json w_started) (json_stringify (event_json w_started)) 0)]" "\<not> em_closed w_queued"
  "em_outbox w_queued = [outbox_row w_opts w_started]"
proof -
  have "map (\<lambda>(w, p). (w, durable_of p)) (em_deliveryChain w_queued) =
      [(Live, Some (event_json w_started, json_stringify (event_json w_started), 0))]"
    by code_simp
  then show "em_deliveryChain w_queued = [(Live, Durable (event_json w_started) (json_stringify (event_json w_started)) 0)]"
    by (auto simp: durable_of_Some)
qed code_simp+

lemma w_total: "total_posts w_opts = 2" "length (eo_retryDelaysMs w_opts) = 1"
  by (simp_all add: total_posts_def w_opts_def)

theorem delivery_settles_witness:
  "\<exists>k \<le> 4. em_deliveryChain (chain_run w_opts w_env (take k [Inr 500, Inr 500, Inl ''timeout'', Inr 200]) w_queued) = []"
proof -
  have "total_posts w_opts - 0 + 2 \<le> length [Inr 500, Inr 500, Inl ''timeout'', Inr 200 :: (string, nat) result]" by (simp add: w_total)
  from delivery_settles [OF w_queued(1,2) this, of w_env] obtain k where "k \<le> 1 + 1 - 0 + 2"
    "em_deliveryChain (chain_run w_opts w_env (take k [Inr 500, Inr 500, Inl ''timeout'', Inr 200]) w_queued) = []"
    unfolding Let_def w_total by blast
  then show ?thesis by (intro exI [of _ k]) simp
qed

text \<open>
  C18. The outcome of a delivery, with hooks that do not throw. If an attempt within the
  schedule is acknowledged, the delivery ends with the first such attempt, the row is
  delivered with the number of attempts made and no error, and no further request is made;
  if none is, every attempt of the schedule is made and the row is kept as a permanent
  failure with the last error.\<close>

theorem delivery_outcome:
  assumes c: "em_deliveryChain s = (w, Durable event payload n) # rest" "\<not> em_closed s" "n \<le> total_posts opts"
    and t: "eo_resolveAdapterTarget opts (eo_adapterId opts) = Some target" "at_sign target payload = Inr sig"
    and row: "event_row event s \<noteq> None" and hook: "\<And>h. fst (ee_delivered env event h) = Inr ()"
    and len: "length fs = total_posts opts - n"
  shows "if list_ex acked fs
    then (let j = length (takeWhile (\<lambda>f. \<not> acked f) fs); s' = chain_run opts env (f0 # take (Suc j) fs) s in
      em_deliveryChain s' = rest \<and> length (em_requests s') = length (em_requests s) + Suc j \<and>
      (\<exists>row'. event_row event s' = Some row' \<and> ob_status row' = ODelivered \<and> ob_attempts row' = n + Suc j \<and> ob_lastError row' = None))
    else (let s' = chain_run opts env (f0 # fs @ [f1]) s in
      em_deliveryChain s' = rest \<and> length (em_requests s') = length (em_requests s) + length fs \<and>
      (\<exists>row'. event_row event s' = Some row' \<and> ob_status row' = OPermanentFailure \<and> ob_lastError row' \<noteq> None))"
proof (cases "list_ex acked fs")
  case True
  obtain ys y zs where fs: "fs = ys @ y # zs" "acked y" "\<forall>x \<in> set ys. \<not> acked x" "length (takeWhile (\<lambda>x. \<not> acked x) fs) = length ys"
    by (rule list_ex_takeWhile [OF True])
  define s1 where "s1 = chain_step opts env f0 s"
  note d = durable_step [OF c(1) t(1) s1_def]
  have n: "n + length ys < total_posts opts" using len fs(1) by simp
  have g: "\<forall>f \<in> set ys. goes_on env event f" using fs(3) by (simp add: goes_on_def)
  have open1: "\<not> em_closed s1" and row1: "event_row event s1 \<noteq> None" using d c(2) row by auto
  obtain err' where r: "em_deliveryChain (chain_run opts env ys s1) = (w, Attempting event payload target (n + length ys) err') # rest"
    "\<not> em_closed (chain_run opts env ys s1)" "length (em_requests (chain_run opts env ys s1)) = length (em_requests s1) + length ys"
    "event_row event (chain_run opts env ys s1) \<noteq> None"
    using goes_on_run [OF conjunct1 [OF d] open1 less_imp_le [OF n] t(2) g row1] unfolding Let_def by blast
  have tk: "take (Suc (length ys)) fs = ys @ [y]" by (simp add: fs(1))
  show ?thesis
    using ack_step [OF r(1,2) n t(2) fs(2) hook refl] r(3,4) True d
    by (auto simp: Let_def fs(4) tk s1_def [symmetric] simp del: split_paired_Ex)
next
  case False
  then have "\<forall>f \<in> set fs. goes_on env event f" by (auto simp: goes_on_def list_ex_iff)
  then show ?thesis using exhausted_run [OF c t row len _ refl] False len by (simp add: Let_def)
qed

theorem delivery_outcome_witness:
  "\<exists>row'. event_row (event_json w_started) (chain_run w_opts w_env [Inr 0, Inr 500, Inr 204] w_queued) = Some row' \<and>
     ob_status row' = ODelivered \<and> ob_attempts row' = 2 \<and> ob_lastError row' = None"
proof -
  have e: "event_row (event_json w_started) w_queued \<noteq> None"
    by (simp add: event_row_def w_queued event_id_def)
  have h: "fst (ee_delivered w_env (event_json w_started) h) = Inr ()" for h by (simp add: w_env_def)
  have t: "eo_resolveAdapterTarget w_opts (eo_adapterId w_opts) = Some w_target" by (simp add: w_opts_def)
  have g: "at_sign w_target b = Inr (''sig:'' @ show_nat (length b))" for b by (simp add: w_target_def)
  have "length [Inr 500, Inr 204 :: (string, nat) result] = total_posts w_opts - 0" "(0::nat) \<le> total_posts w_opts"
    by (simp_all add: total_posts_def w_opts_def)
  then show ?thesis
    using delivery_outcome [OF w_queued(1,2) _ t g e h, of "[Inr 500, Inr 204]" "Inr 0" "Inr 0"]
    by (simp add: acked_def Let_def w_total numeral_2_eq_2)
qed

text \<open>
  C34. A delivered hook that throws undoes an acknowledged delivery. The hook runs inside
  the \<open>try\<close> of the POST: when it throws, the attempt counts as failed although the adapter
  acknowledged it and the row was marked delivered. The event is posted again for every entry
  of the schedule, and the row ends as a permanent failure.\<close>

theorem delivered_hook_failure_reposts:
  assumes "em_deliveryChain s = (w, Durable event payload 0) # rest" "\<not> em_closed s"
    and "eo_resolveAdapterTarget opts (eo_adapterId opts) = Some target" "at_sign target payload = Inr sig" "event_row event s \<noteq> None"
    and "\<And>h. isl (fst (ee_delivered env event h))"
  shows "let s' = chain_run opts env (replicate (total_posts opts + 2) (Inr 200)) s in
    em_deliveryChain s' = rest \<and> length (em_requests s') = length (em_requests s) + (1 + length (eo_retryDelaysMs opts)) \<and>
    (\<exists>row. event_row event s' = Some row \<and> ob_status row = OPermanentFailure)"
proof -
  let ?fs = "replicate (total_posts opts) (Inr 200 :: (string, nat) result)"
  have fs: "replicate (total_posts opts + 2) (Inr 200) = Inr 200 # ?fs @ [Inr 200]"
    by (simp add: replicate_append_same)
  have g: "length ?fs = total_posts opts - 0" "\<forall>f \<in> set ?fs. goes_on env event f" using assms(6) by (simp_all add: goes_on_def)
  show ?thesis
    unfolding fs Let_def using exhausted_run [OF assms(1,2) le0 assms(3-5) g refl] total_posts_def [of opts] by auto
qed

theorem delivered_hook_failure_reposts_witness:
  "let s' = chain_run w_opts (w_env\<lparr>ee_delivered := \<lambda>e h. (Inl ''locked'', h)\<rparr>) (replicate 4 (Inr 200)) w_queued
   in length (em_requests s') = 2 \<and> (\<exists>row. event_row (event_json w_started) s' = Some row \<and> ob_status row = OPermanentFailure)"
proof -
  have e: "event_row (event_json w_started) w_queued \<noteq> None"
    by (simp add: event_row_def w_queued event_id_def)
  have t: "eo_resolveAdapterTarget w_opts (eo_adapterId w_opts) = Some w_target" by (simp add: w_opts_def)
  have g: "at_sign w_target b = Inr (''sig:'' @ show_nat (length b))" for b by (simp add: w_target_def)
  have "total_posts w_opts + 2 = 4" "1 + length (eo_retryDelaysMs w_opts) = 2" by (simp_all add: total_posts_def w_opts_def)
  moreover have "em_requests w_queued = []" by code_simp
  ultimately show ?thesis
    using delivered_hook_failure_reposts [OF w_queued(1,2) t g e, of "w_env\<lparr>ee_delivered := \<lambda>e h. (Inl ''locked'', h)\<rparr>"]
    by (simp add: Let_def)
qed

end
