(* ===== verification/Emitter_Turn.thy ===== *)
theory Emitter_Turn
  imports Emitter_Delivery
begin

text \<open>
  What a turn says (\<open>ingest\<close> and its handlers in \<open>outbound-emitter.ts\<close>): the frames of the
  agent process from the start of the emitter to \<open>agent_end\<close> determine the one terminal
  event, its text, attachments and usage.
\<close>

section \<open>The text of a turn\<close>

definition frame_is :: "string \<Rightarrow> json \<Rightarrow> bool" where
  "frame_is ty frame \<longleftrightarrow> jstring (jget ''type'' frame) = Some ty"

text \<open>The specification of the reply: what the frames of a turn contribute to it.\<close>

definition delta_text :: "json \<Rightarrow> string" where
  "delta_text frame = (if frame_is ''message_update'' frame then (case extractTextDelta frame of Some d \<Rightarrow> d | None \<Rightarrow> []) else [])"

definition says_silent :: "json \<Rightarrow> bool" where
  "says_silent frame \<longleftrightarrow> frame_is ''tool_execution_end'' frame \<and> jget ''toolName'' frame = Some (JStr STAY_SILENT_TOOL) \<and>
     jget ''isError'' frame \<noteq> Some (JBool True)"

fun add_attachment :: "WorkspaceAttachment list \<Rightarrow> json \<Rightarrow> WorkspaceAttachment list" where
  "add_attachment as frame =
     (if frame_is ''tool_execution_end'' frame
      then (case extractDeliveryAttachment frame of
              Some a \<Rightarrow> if wa_path a \<in> wa_path ` set as then as else as @ [a]
            | None \<Rightarrow> as)
      else as)"

text \<open>Attachments of a reply are delivered once per path, in the order of their first request.\<close>

lemma distinct_paths: "distinct (map wa_path as) \<Longrightarrow> distinct (map wa_path (foldl add_attachment as frames))"
proof (induction frames arbitrary: as)
  case (Cons f fs)
  have "distinct (map wa_path (add_attachment as f))" using Cons.prems by (auto split: option.splits)
  then show ?case using Cons.IH by simp
qed simp

text \<open>The event ids the generator may still produce are not in the outbox.\<close>

definition fresh_ids :: "'h EmitterEnv \<Rightarrow> 'h emitter \<Rightarrow> bool" where
  "fresh_ids env s \<longleftrightarrow> inj (ee_uuid env) \<and> (\<forall>n \<ge> em_reads s. ee_uuid env n \<notin> ob_eventId ` set (em_outbox s))"

definition turn_fields :: "'h emitter \<Rightarrow> string \<times> WorkspaceAttachment list \<times> bool \<times> TurnUsage option \<times> bool \<times> bool" where
  "turn_fields s = (em_replyText s, em_replyAttachments s, em_staySilent s, em_replyUsage s, em_terminalEmitted s, em_closed s)"

lemma make_event_exact:
  "make_event opts env body at s = (e, s') \<Longrightarrow>
     ev_body e = body \<and> ev_eventId e = ee_uuid env (em_reads s) \<and> em_outbox s' = em_outbox s \<and> em_reads s' > em_reads s \<and>
     turn_fields s' = turn_fields s \<and> em_deliveryChain s' = em_deliveryChain s \<and> em_startedEmitted s' = em_startedEmitted s"
  by (auto simp: make_event_def take_uuid_def nextSequence_def take_now_def turn_fields_def split: option.splits)

lemma emit_durable_ok:
  assumes "\<not> em_closed s" "\<And>e h. fst (ee_prepared env e h) = Inr ()" "fresh_ids env s"
  obtains e s' where "emit_durable opts env body at s = (Inr (), s')" "em_outbox s' = em_outbox s @ [outbox_row opts e]" "ev_body e = body"
    "turn_fields s' = turn_fields s" "em_startedEmitted s' = em_startedEmitted s" "fresh_ids env s'"
    "em_deliveryChain s' = em_deliveryChain s @ [(Live, Durable (event_json e) (json_stringify (event_json e)) 0)]"
proof -
  obtain e s1 where m: "make_event opts env body at s = (e, s1)" by fastforce
  note me = make_event_exact [OF m]
  obtain h where p: "ee_prepared env (event_json e) (em_hooks s1) = (Inr (), h)" using assms(2) by (metis prod.collapse)
  have id: "ev_eventId e \<notin> ob_eventId ` set (em_outbox s1)" "\<not> em_closed s1"
    using me assms(1,3) by (auto simp: fresh_ids_def turn_fields_def)
  define s' where "s' = enqueue Live (Durable (event_json e) (json_stringify (event_json e)) 0) (s1\<lparr>em_hooks := h, em_outbox := em_outbox s1 @ [outbox_row opts e]\<rparr>)"
  have "emit_durable opts env body at s = (Inr (), s')"
    using id p by (simp add: emit_durable_def m deliverDurable_def persistEvent_def sql_insert_def ob_key_def s'_def)
  moreover have "fresh_ids env s'"
    using assms(3) me by (auto simp: fresh_ids_def s'_def enqueue_def dest: injD)
  ultimately show thesis using me by (intro that [of s' e]) (auto simp: s'_def enqueue_def turn_fields_def)
qed

lemma ensureStarted_ok:
  assumes "\<not> em_closed s" "\<And>e h. fst (ee_prepared env e h) = Inr ()" "fresh_ids env s"
  obtains s' where "ensureStarted opts env s = (Inr (), s')" "turn_fields s' = turn_fields s" "fresh_ids env s'" "em_startedEmitted s'"
    "\<exists>rows. em_outbox s' = em_outbox s @ rows"
proof (cases "em_startedEmitted s")
  case True
  then show thesis using assms by (intro that [of s]) (simp_all add: ensureStarted_def)
next
  case False
  let ?s1 = "s\<lparr>em_startedEmitted := True, em_reads := Suc (em_reads s), em_lastProgressAt := ee_now env (em_reads s)\<rparr>"
  have f: "\<not> em_closed ?s1" "fresh_ids env ?s1" using assms by (auto simp: fresh_ids_def)
  obtain e s' where "emit_durable opts env TurnStarted (Some (ee_now env (em_reads s))) ?s1 = (Inr (), s')"
    "em_outbox s' = em_outbox ?s1 @ [outbox_row opts e]" "turn_fields s' = turn_fields ?s1" "em_startedEmitted s' = em_startedEmitted ?s1" "fresh_ids env s'"
    by (rule emit_durable_ok [OF f(1) assms(2) f(2)])
  then show thesis using False by (intro that [of s']) (auto simp: ensureStarted_def take_now_def turn_fields_def)
qed

section \<open>One frame\<close>

definition calm :: "'h emitter \<Rightarrow> 'h emitter \<Rightarrow> bool" where
  "calm s s' \<longleftrightarrow> turn_fields s' = turn_fields s \<and> em_outbox s' = em_outbox s \<and> em_reads s \<le> em_reads s'"

lemma calm_trans: "calm s s' \<Longrightarrow> calm s' s'' \<Longrightarrow> calm s s''"
  by (simp add: calm_def)

lemma calm_fresh: "calm s s' \<Longrightarrow> fresh_ids env s \<Longrightarrow> fresh_ids env s'"
  by (simp add: calm_def fresh_ids_def)

lemma calm_best_effort: "calm s (emit_best_effort opts env body s)"
proof -
  obtain e s1 where m: "make_event opts env body None s = (e, s1)" by fastforce
  have "emit_best_effort opts env body s = enqueue Live (BestEffort (event_json e)) s1" by (simp add: emit_best_effort_def m deliverBestEffort_def)
  then show ?thesis using make_event_exact [OF m] by (simp add: calm_def enqueue_def turn_fields_def)
qed

lemma calm_progress: "calm s (emitProgress opts env m s)"
  using calm_best_effort [of "s\<lparr>em_reads := Suc (em_reads s), em_lastProgressAt := ee_now env (em_reads s)\<rparr>" opts env "TurnProgress m"]
  by (simp add: emitProgress_def take_now_def calm_def turn_fields_def)

lemma calm_flush: "calm s (flushProgress opts env s)"
proof -
  let ?s = "s\<lparr>em_reads := Suc (em_reads s)\<rparr>"
  have read: "calm s ?s" "calm s (?s\<lparr>em_pendingProgress := None\<rparr>)" by (simp_all add: calm_def turn_fields_def)
  show ?thesis
    using read(1) calm_trans [OF read(2) calm_progress]
    by (simp add: flushProgress_def take_now_def calm_def [of s s] split: option.splits)
qed

lemma calm_candidate: "calm s (handleProgressCandidate opts env m s)"
  using calm_flush [of "s\<lparr>em_pendingProgress := Some m\<rparr>" opts env] by (simp add: handleProgressCandidate_def calm_def turn_fields_def)

fun add_usage :: "TurnUsage option \<Rightarrow> json \<Rightarrow> TurnUsage option" where
  "add_usage u frame = (if frame_is ''turn_end'' frame then (case extractUsage frame of Some v \<Rightarrow> Some v | None \<Rightarrow> u) else u)"

text \<open>The effect of a frame other than \<open>agent_end\<close> on the fields of the turn.\<close>

definition frame_effect :: "json \<Rightarrow> 'h emitter \<Rightarrow> string \<times> WorkspaceAttachment list \<times> bool \<times> TurnUsage option \<times> bool \<times> bool" where
  "frame_effect frame s = (em_replyText s @ delta_text frame, add_attachment (em_replyAttachments s) frame,
     em_staySilent s \<or> says_silent frame, add_usage (em_replyUsage s) frame, em_terminalEmitted s, em_closed s)"

lemma message_update_effect:
  assumes "frame_is ''message_update'' frame"
  shows "turn_fields (handleMessageUpdate opts env frame s) = frame_effect frame s \<and>
    em_outbox (handleMessageUpdate opts env frame s) = em_outbox s \<and> em_reads s \<le> em_reads (handleMessageUpdate opts env frame s)"
proof -
  have calm: "calm s1 (handleProgressCandidate opts env d (emitDelta opts env d s1))" for s1 d
    unfolding emitDelta_def by (rule calm_trans [OF calm_best_effort calm_candidate])
  show ?thesis
    using assms calm [of "s\<lparr>em_replyText := em_replyText s @ d\<rparr>" d for d]
    by (simp add: handleMessageUpdate_def frame_effect_def turn_fields_def delta_text_def says_silent_def frame_is_def Let_def calm_def
        split: option.splits)
qed

lemma list_ex_path: "list_ex (\<lambda>c. wa_path c = p) as \<longleftrightarrow> p \<in> wa_path ` set as"
  by (auto simp: list_ex_iff)

lemma tool_end_effect:
  assumes "frame_is ''tool_execution_end'' frame"
  shows "turn_fields (handleToolExecutionEnd frame s) = frame_effect frame s \<and>
    em_outbox (handleToolExecutionEnd frame s) = em_outbox s \<and> em_reads (handleToolExecutionEnd frame s) = em_reads s"
  using assms by (auto simp: handleToolExecutionEnd_def frame_effect_def turn_fields_def delta_text_def says_silent_def frame_is_def Let_def
      list_ex_path split: option.splits)

lemma frame_step:
  assumes "\<not> em_closed s" "\<And>e h. fst (ee_prepared env e h) = Inr ()" "fresh_ids env s" "\<not> frame_is ''agent_end'' frame"
    and s': "s' = snd (ingest_frame opts env frame s)"
  shows "turn_fields s' = frame_effect frame s \<and> fresh_ids env s'"
proof -
  obtain s1 where st: "ensureStarted opts env s = (Inr (), s1)" "turn_fields s1 = turn_fields s" "fresh_ids env s1"
    by (rule ensureStarted_ok [OF assms(1-3)])
  have calm: "calm s (handleProgressCandidate opts env (describeSubagentFrame frame) s)" by (rule calm_candidate)
  have mu: "frame_is ''message_update'' frame \<Longrightarrow> turn_fields (handleMessageUpdate opts env frame s) = frame_effect frame s \<and>
      fresh_ids env (handleMessageUpdate opts env frame s)"
    using message_update_effect [of frame opts env s] assms(3) by (auto simp: fresh_ids_def)
  have te: "frame_is ''tool_execution_end'' frame \<Longrightarrow> turn_fields (handleToolExecutionEnd frame s) = frame_effect frame s \<and>
      fresh_ids env (handleToolExecutionEnd frame s)"
    using tool_end_effect [of frame s] assms(3) by (auto simp: fresh_ids_def)
  have ue: "frame_is ''turn_end'' frame \<Longrightarrow> turn_fields (handleTurnEnd frame s) = frame_effect frame s \<and> fresh_ids env (handleTurnEnd frame s)"
    using assms(3) by (auto simp: handleTurnEnd_def frame_effect_def turn_fields_def delta_text_def says_silent_def frame_is_def fresh_ids_def split: option.splits)
  have same: "turn_fields s = frame_effect frame s"
    if "\<not> frame_is ''message_update'' frame" "\<not> frame_is ''tool_execution_end'' frame" "\<not> frame_is ''turn_end'' frame"
    using that by (simp add: frame_effect_def turn_fields_def delta_text_def says_silent_def)
  define ty where "ty = (case jstring (jget ''type'' frame) of Some t \<Rightarrow> t | None \<Rightarrow> [])"
  have fi: "frame_is t frame \<longleftrightarrow> ty = t" if "t \<noteq> []" for t using that by (auto simp: frame_is_def ty_def split: option.splits)
  show ?thesis
    using s' st mu te ue same calm calm_fresh [OF calm assms(3)] assms(3,4)
    unfolding ingest_frame_def ty_def [symmetric] Let_def
    by (auto simp: fi handleTurnStart_def calm_def)
qed

lemma frames_run:
  assumes "\<And>e h. fst (ee_prepared env e h) = Inr ()" "\<not> em_closed s" "fresh_ids env s" "\<forall>f \<in> set frames. \<not> frame_is ''agent_end'' f"
    and s': "s' = emitter_run opts env (map Ingest frames) s"
  shows "turn_fields s' = (em_replyText s @ concat (map delta_text frames), foldl add_attachment (em_replyAttachments s) frames,
      em_staySilent s \<or> list_ex says_silent frames, foldl add_usage (em_replyUsage s) frames, em_terminalEmitted s, em_closed s) \<and> fresh_ids env s'"
  using assms(2-)
proof (induction frames arbitrary: s)
  case (Cons f frames)
  define s1 where "s1 = snd (ingest_frame opts env f s)"
  have "turn_fields s1 = frame_effect f s \<and> fresh_ids env s1"
    by (rule frame_step [OF Cons.prems(1) assms(1) Cons.prems(2) _ s1_def]) (use Cons.prems(3) in auto)
  moreover from this have "\<not> em_closed s1" using Cons.prems(1) by (simp add: turn_fields_def frame_effect_def)
  ultimately show ?case
    using Cons.IH [of s1] Cons.prems(3,4) by (simp add: emitter_run_def s1_def [symmetric] turn_fields_def frame_effect_def del: add_attachment.simps add_usage.simps)
qed (simp add: emitter_run_def turn_fields_def)

section \<open>The end of a turn\<close>

definition terminal_body :: "json \<Rightarrow> string \<Rightarrow> WorkspaceAttachment list \<Rightarrow> bool \<Rightarrow> TurnUsage option \<Rightarrow> event_body" where
  "terminal_body frame text as silent usage =
     (let u = (case usage of Some u \<Rightarrow> u | None \<Rightarrow> extractUsageFromAgentEnd frame)
      in if agentEndHasModelError frame then TurnError ''model_error'' ''Agent model request failed'' True
         else if silent then TurnReply [] [] u
         else if text = [] \<and> as = [] then TurnError ''empty_response'' ''Agent completed without producing a reply'' False
         else TurnReply text as u)"

lemma started_terminal_ok:
  assumes "\<not> em_closed s" "\<And>e h. fst (ee_prepared env e h) = Inr ()" "fresh_ids env s"
    and body: "\<And>s'. turn_fields s' = turn_fields s \<Longrightarrow> bodyf s' = body"
  obtains e s' where "op_then (ensureStarted opts env) (\<lambda>s. emit_durable opts env (bodyf s) None (s\<lparr>em_terminalEmitted := True\<rparr>)) s = (Inr (), s')"
    "last (em_outbox s') = outbox_row opts e" "ev_body e = body" "em_terminalEmitted s'"
    "last (em_deliveryChain s') = (Live, Durable (event_json e) (json_stringify (event_json e)) 0)"
proof -
  obtain s1 where st: "ensureStarted opts env s = (Inr (), s1)" "turn_fields s1 = turn_fields s" "fresh_ids env s1"
    by (rule ensureStarted_ok [OF assms(1-3)])
  have s1: "\<not> em_closed (s1\<lparr>em_terminalEmitted := True\<rparr>)" "fresh_ids env (s1\<lparr>em_terminalEmitted := True\<rparr>)"
    using st assms(1) by (auto simp: turn_fields_def fresh_ids_def)
  obtain e s' where "emit_durable opts env (bodyf s1) None (s1\<lparr>em_terminalEmitted := True\<rparr>) = (Inr (), s')"
    "em_outbox s' = em_outbox (s1\<lparr>em_terminalEmitted := True\<rparr>) @ [outbox_row opts e]" "ev_body e = bodyf s1"
    "turn_fields s' = turn_fields (s1\<lparr>em_terminalEmitted := True\<rparr>)"
    "em_deliveryChain s' = em_deliveryChain (s1\<lparr>em_terminalEmitted := True\<rparr>) @ [(Live, Durable (event_json e) (json_stringify (event_json e)) 0)]"
    by (rule emit_durable_ok [OF s1(1) assms(2) s1(2)])
  then show thesis using st body [OF st(2)] by (intro that [of s' e]) (auto simp: op_then_def turn_fields_def)
qed

lemma agent_end_body:
  assumes "\<not> em_closed s" "\<not> em_terminalEmitted s" "\<And>e h. fst (ee_prepared env e h) = Inr ()" "fresh_ids env s" "frame_is ''agent_end'' frame"
  obtains e s' where "ingest_frame opts env frame s = (Inr (), s')" "last (em_outbox s') = outbox_row opts e"
    "ev_body e = terminal_body frame (em_replyText s) (em_replyAttachments s) (em_staySilent s) (em_replyUsage s)" "em_terminalEmitted s'"
    "last (em_deliveryChain s') = (Live, Durable (event_json e) (json_stringify (event_json e)) 0)"
proof -
  have ing: "ingest_frame opts env frame s = handleAgentEnd opts env frame s"
    using assms(5) by (simp add: ingest_frame_def frame_is_def)
  define bodyf where "bodyf s' = terminal_body frame (em_replyText s') (em_replyAttachments s') (em_staySilent s) (em_replyUsage s')" for s' :: "'a emitter"
  have body: "turn_fields s' = turn_fields s \<Longrightarrow> bodyf s' = terminal_body frame (em_replyText s) (em_replyAttachments s) (em_staySilent s) (em_replyUsage s)" for s'
    by (simp add: bodyf_def turn_fields_def)
  have run: "handleAgentEnd opts env frame s = op_then (ensureStarted opts env) (\<lambda>s. emit_durable opts env (bodyf s) None (s\<lparr>em_terminalEmitted := True\<rparr>)) s"
  proof -
    have cong: "op_then (ensureStarted opts env) g s = op_then (ensureStarted opts env) g' s"
      if "\<And>s'. turn_fields s' = turn_fields s \<Longrightarrow> g s' = g' s'" for g g' :: "'a emit_op"
    proof -
      obtain s1 where "ensureStarted opts env s = (Inr (), s1)" "turn_fields s1 = turn_fields s"
        by (rule ensureStarted_ok [OF assms(1,3,4)])
      then show ?thesis using that by (simp add: op_then_def)
    qed
    note defs = handleAgentEnd_def emitProviderError_def bodyf_def terminal_body_def reply_usage_def turn_fields_def
    consider "agentEndHasModelError frame" | "\<not> agentEndHasModelError frame" "em_staySilent s"
      | "\<not> agentEndHasModelError frame" "\<not> em_staySilent s" "em_replyText s = [] \<and> em_replyAttachments s = []"
      | "\<not> agentEndHasModelError frame" "\<not> em_staySilent s" "\<not> (em_replyText s = [] \<and> em_replyAttachments s = [])" by blast
    then show ?thesis
    proof cases
      case 1
      then show ?thesis using assms(1,2) by (simp add: handleAgentEnd_def emitProviderError_def, intro cong) (simp add: defs)
    next
      case 2
      then show ?thesis using assms(1,2) by (simp add: handleAgentEnd_def emitProviderError_def, intro cong) (simp add: defs)
    next
      case 3
      then show ?thesis using assms(1,2) by (simp add: handleAgentEnd_def emitProviderError_def, intro cong) (simp add: defs)
    next
      case 4
      have "handleAgentEnd opts env frame s = op_then (ensureStarted opts env)
          (\<lambda>s. emit_durable opts env (TurnReply (em_replyText s) (em_replyAttachments s) (reply_usage frame s)) None (s\<lparr>em_terminalEmitted := True\<rparr>)) s"
        using 4 assms(1,2) by (auto simp: handleAgentEnd_def)
      then show ?thesis using 4 by (simp, intro cong) (auto simp: defs)
    qed
  qed
  obtain e s' where "op_then (ensureStarted opts env) (\<lambda>s. emit_durable opts env (bodyf s) None (s\<lparr>em_terminalEmitted := True\<rparr>)) s = (Inr (), s')"
    "last (em_outbox s') = outbox_row opts e"
    "ev_body e = terminal_body frame (em_replyText s) (em_replyAttachments s) (em_staySilent s) (em_replyUsage s)" "em_terminalEmitted s'"
    "last (em_deliveryChain s') = (Live, Durable (event_json e) (json_stringify (event_json e)) 0)"
    by (rule started_terminal_ok [where bodyf = bodyf, OF assms(1,3,4) body])
  then show thesis using that unfolding ing run by blast
qed

lemma newEmitter_turn:
  assumes "newEmitter opts rows h = Inr s" "own opts rows = []"
  shows "turn_fields s = ([], [], False, None, False, False) \<and> em_reads s = 0 \<and> em_outbox s = rows"
  using assms terminal_row [of opts rows] by (auto simp: newEmitter_def result_bind_Inr_iff turn_fields_def Let_def)

lemma turn_outcome:
  assumes "newEmitter opts rows h = Inr s0" "own opts rows = []" "\<And>e h. fst (ee_prepared env e h) = Inr ()"
    and "inj (ee_uuid env)" "\<And>n. ee_uuid env n \<notin> ob_eventId ` set rows"
    and "\<not> list_ex (frame_is ''agent_end'') frames" "frame_is ''agent_end'' final"
    and s: "s = emitter_run opts env (map Ingest (frames @ [final])) s0"
  obtains e where "last (em_outbox s) = outbox_row opts e" "last (em_deliveryChain s) = (Live, Durable (event_json e) (json_stringify (event_json e)) 0)"
    "ev_body e = terminal_body final (concat (map delta_text frames)) (foldl add_attachment [] frames)
       (list_ex says_silent frames) (foldl add_usage None frames)" "em_terminalEmitted s"
proof -
  define s1 where "s1 = emitter_run opts env (map Ingest frames) s0"
  note n = newEmitter_turn [OF assms(1,2)]
  have "\<not> em_closed s0" "fresh_ids env s0" "\<forall>f \<in> set frames. \<not> frame_is ''agent_end'' f"
    using n assms(4-6) by (auto simp: fresh_ids_def turn_fields_def list_ex_iff)
  then have r: "turn_fields s1 = (concat (map delta_text frames), foldl add_attachment [] frames, list_ex says_silent frames,
      foldl add_usage None frames, False, False)" "fresh_ids env s1"
    using frames_run [OF assms(3) _ _ _ s1_def] n by (auto simp: turn_fields_def)
  then obtain e s' where "ingest_frame opts env final s1 = (Inr (), s')" "last (em_outbox s') = outbox_row opts e"
    "ev_body e = terminal_body final (em_replyText s1) (em_replyAttachments s1) (em_staySilent s1) (em_replyUsage s1)" "em_terminalEmitted s'"
    "last (em_deliveryChain s') = (Live, Durable (event_json e) (json_stringify (event_json e)) 0)"
    by (auto simp: turn_fields_def intro: agent_end_body [OF _ _ assms(3) _ assms(7), of s1 opts])
  then show thesis using r s by (intro that [of e]) (auto simp: turn_fields_def emitter_run_def s1_def)
qed


definition w_ids :: "unit EmitterEnv" where
  "w_ids = w_env\<lparr>ee_uuid := \<lambda>n. replicate n (CHR ''x'')\<rparr>"

lemma w_ids: "fst (ee_prepared w_ids e h) = Inr ()" "inj (ee_uuid w_ids)" "ee_uuid w_ids n \<notin> ob_eventId ` set []"
  by (auto simp: w_ids_def w_env_def inj_def dest: arg_cong [of _ _ length])

lemma w_frames: "frame_is ''agent_end'' (w_frame ''agent_end'')" "\<not> list_ex (frame_is ''agent_end'') [w_frame ''turn_start'', w_delta ''he'', w_delta ''llo'']"
  "\<not> list_ex says_silent [w_frame ''turn_start'', w_delta ''he'', w_delta ''llo'']"
  by (simp_all add: frame_is_def w_frame_def w_delta_def says_silent_def)


text \<open>
  C35. A silent turn violates the contract of replies. When a tool result of the turn chose
  silence and the model did not fail, the terminal event is a reply with empty text and no
  attachments, whatever the agent wrote and attached; the schema of the outbound contract
  declares exactly this pair invalid.\<close>

theorem silent_turn_empty_reply:
  assumes "newEmitter opts rows h = Inr s0" "own opts rows = []" "\<And>e h. fst (ee_prepared env e h) = Inr ()"
    and "inj (ee_uuid env)" "\<And>n. ee_uuid env n \<notin> ob_eventId ` set rows"
    and "\<not> list_ex (frame_is ''agent_end'') frames" "frame_is ''agent_end'' final" "list_ex says_silent frames" "\<not> agentEndHasModelError final"
    and "s = emitter_run opts env (map Ingest (frames @ [final])) s0"
  shows "\<exists>e u. last (em_outbox s) = outbox_row opts e \<and> ev_body e = TurnReply [] [] u"
proof -
  obtain e where "last (em_outbox s) = outbox_row opts e" "last (em_deliveryChain s) = (Live, Durable (event_json e) (json_stringify (event_json e)) 0)"
    "ev_body e = terminal_body final (concat (map delta_text frames)) (foldl add_attachment [] frames)
       (list_ex says_silent frames) (foldl add_usage None frames)"
    by (rule turn_outcome [OF assms(1-7,10)])
  then show ?thesis
    using assms(8,9) by (auto simp: terminal_body_def Let_def)
qed

definition w_silent :: json where
  "w_silent = JObj [(''type'', JStr ''tool_execution_end''), (''toolName'', JStr ''stay_silent'')]"

theorem silent_turn_empty_reply_witness:
  "\<exists>e u. last (em_outbox (emitter_run w_opts w_ids (map Ingest ([w_delta ''secret'', w_silent] @ [w_frame ''agent_end''])) w_start))
     = outbox_row w_opts e \<and> ev_body e = TurnReply [] [] u"
proof -
  have f: "\<not> list_ex (frame_is ''agent_end'') [w_delta ''secret'', w_silent]" "list_ex says_silent [w_delta ''secret'', w_silent]"
    "\<not> agentEndHasModelError (w_frame ''agent_end'')"
    by code_simp+
  show ?thesis
    by (rule silent_turn_empty_reply [OF w_start _ w_ids f(1) w_frames(1) f(2,3) refl]) simp
qed

end
