(* ===== verification/Core_Config.thy ===== *)
theory Core_Config
  imports Adapter_Registry Js_Number Ingest_Buffer Outbound_Emitter
begin

text \<open>
  \<open>packages/core/src/config.ts\<close>: the configuration of the core, read once from the
  environment (a partial map from names to values), with every check the loader makes and the
  error it throws; the diagnostic snapshot; and the two places that check the binding of an
  adapter to the one agent again: \<open>resolveChildSpawnPlan\<close> of \<open>supervisor.ts\<close> and
  \<open>validateAgentBindings\<close> of \<open>server.ts\<close>. The options the supervisor derives from a
  configuration for the ingest buffer and the emitters are stated here too, since a loaded
  configuration satisfies their constructors.

  \<open>join\<close> (\<open>node:path\<close>) and \<open>lstat\<close> (\<open>node:fs\<close>) are parameters.
\<close>

section \<open>The configuration\<close>

record CoreConfig =
  cc_host :: string
  cc_port :: int
  cc_sessionDbPath :: string
  cc_idempotencyDbPath :: string
  cc_outboxDbPath :: string
  cc_childRegistryPath :: string
  cc_workspaceDir :: string
  cc_ompBinary :: string
  cc_ompModel :: "string option"
  cc_ompProfile :: "string option"
  cc_ompArgs :: "string list"
  cc_maxChildren :: int
  cc_idleTimeoutMs :: int
  cc_engagementWindowMs :: int
  cc_ambientQuietPeriodMs :: int
  cc_callbackTimeoutMs :: int
  cc_progressThresholdMs :: int
  cc_retryDelaysMs :: "int list"
  cc_adapters :: "AdapterRegistration list"
  cc_agentId :: "string option"
  cc_agentRootDir :: "string option"

type_synonym env = "string \<Rightarrow> string option"

datatype config_error =
    EnvMissing string
  | EnvNotPositive string string
  | EnvNotNonnegative string string
  | RetryDelayInvalid string
  | AgentIdInvalid string
  | AdaptersMissing
  | AdaptersNotJson
  | AdaptersNotArray
  | AdaptersNotOne
  | AdapterNotObject nat
  | AdapterField nat string
  | AdapterAgentInvalid nat
  | AdapterNeedsRoot nat
  | AdapterNeedsId nat
  | AdapterAgentMismatch nat

section \<open>Reading values\<close>

text \<open>\<open>env[key]?.trim()\<close> with the empty text taken for no value.\<close>

definition trimmed :: "string option \<Rightarrow> string option" where
  "trimmed v = (case v of None \<Rightarrow> None | Some s \<Rightarrow> if js_trim s = [] then None else Some (js_trim s))"

definition required :: "env \<Rightarrow> string \<Rightarrow> (config_error, string) result" where
  "required env key = (case trimmed (env key) of None \<Rightarrow> Inl (EnvMissing key) | Some v \<Rightarrow> Inr v)"

definition MAX_SAFE_INTEGER :: int where
  "MAX_SAFE_INTEGER = 2 ^ 53 - 1"

definition safe_integer :: "string \<Rightarrow> int option" where
  "safe_integer raw = (case js_int raw of Some n \<Rightarrow> if \<bar>n\<bar> \<le> MAX_SAFE_INTEGER then Some n else None | None \<Rightarrow> None)"

definition requiredInt :: "env \<Rightarrow> string \<Rightarrow> (config_error, int) result" where
  "requiredInt env key = result_bind (required env key) (\<lambda>raw.
     case safe_integer raw of
       Some n \<Rightarrow> if n \<le> 0 then Inl (EnvNotPositive key raw) else Inr n
     | None \<Rightarrow> Inl (EnvNotPositive key raw))"

definition optionalInt :: "env \<Rightarrow> string \<Rightarrow> int \<Rightarrow> (config_error, int) result" where
  "optionalInt env key fallback =
     (case trimmed (env key) of
        None \<Rightarrow> Inr fallback
      | Some raw \<Rightarrow>
          (case safe_integer raw of
             Some n \<Rightarrow> if n < 0 then Inl (EnvNotNonnegative key raw) else Inr n
           | None \<Rightarrow> Inl (EnvNotNonnegative key raw)))"

text \<open>The non-empty pieces between separators: \<open>split(/[..]+/)\<close> followed by the filter on length.\<close>

fun pieces :: "(char \<Rightarrow> bool) \<Rightarrow> string \<Rightarrow> string \<Rightarrow> string list" where
  "pieces sep w [] = (if w = [] then [] else [w])"
| "pieces sep w (c # s) =
     (if sep c then (if w = [] then pieces sep [] s else w # pieces sep [] s) else pieces sep (w @ [c]) s)"

definition parse_omp_args :: "string option \<Rightarrow> string list" where
  "parse_omp_args raw =
     (case trimmed raw of None \<Rightarrow> [] | Some s \<Rightarrow> pieces (\<lambda>c. js_ws c \<or> c = CHR '','') [] s)"

definition parseRetryDelays :: "string option \<Rightarrow> (config_error, int list) result" where
  "parseRetryDelays raw =
     (case trimmed raw of
        None \<Rightarrow> Inr []
      | Some s \<Rightarrow>
          result_mapM (\<lambda>p. case js_floor p of
              Some n \<Rightarrow> if n < 0 then Inl (RetryDelayInvalid p) else Inr n
            | None \<Rightarrow> Inl (RetryDelayInvalid p))
            (filter (\<lambda>p. p \<noteq> []) (map js_trim (js_split (CHR '','') s))))"

definition lower_alnum :: "char \<Rightarrow> bool" where
  "lower_alnum c \<longleftrightarrow> is_digit c \<or> (97 \<le> (of_char c :: nat) \<and> (of_char c :: nat) \<le> 122)"

text \<open>\<open>/^[a-z0-9][a-z0-9_-]{0,63}$/\<close>.\<close>

definition AGENT_ID_RE :: "string \<Rightarrow> bool" where
  "AGENT_ID_RE s \<longleftrightarrow> s \<noteq> [] \<and> lower_alnum (hd s) \<and>
     list_all (\<lambda>c. lower_alnum c \<or> c = CHR ''_'' \<or> c = CHR ''-'') (tl s) \<and> length (tl s) \<le> 63"

section \<open>Adapters\<close>

definition strField :: "json \<Rightarrow> string \<Rightarrow> nat \<Rightarrow> (config_error, string) result" where
  "strField obj name i =
     (case jstring (jget name obj) of
        Some v \<Rightarrow> if v = [] then Inl (AdapterField i name) else Inr v
      | None \<Rightarrow> Inl (AdapterField i name))"

definition parse_adapter :: "string option \<Rightarrow> string option \<Rightarrow> nat \<Rightarrow> json \<Rightarrow> (config_error, AdapterRegistration) result" where
  "parse_adapter configuredAgentId agentRootDir i entry =
     (case entry of
        JObj _ \<Rightarrow>
          result_bind (strField entry ''adapterId'' i) (\<lambda>adapterId.
          result_bind (strField entry ''callbackUrl'' i) (\<lambda>callbackUrl.
          result_bind (strField entry ''sharedSecret'' i) (\<lambda>sharedSecret.
          result_bind (strField entry ''agentId'' i) (\<lambda>agentId.
            if \<not> AGENT_ID_RE agentId then Inl (AdapterAgentInvalid i)
            else if agentRootDir = None then Inl (AdapterNeedsRoot i)
            else if configuredAgentId = None then Inl (AdapterNeedsId i)
            else if Some agentId \<noteq> configuredAgentId then Inl (AdapterAgentMismatch i)
            else Inr \<lparr>ar_adapterId = adapterId, ar_callbackUrl = callbackUrl, ar_sharedSecret = sharedSecret,
                       ar_agentId = Some (JStr agentId)\<rparr>))))
      | _ \<Rightarrow> Inl (AdapterNotObject i))"

definition parseAdapters :: "string option \<Rightarrow> string option \<Rightarrow> string option \<Rightarrow> (config_error, AdapterRegistration list) result" where
  "parseAdapters raw configuredAgentId agentRootDir =
     (case trimmed raw of
        None \<Rightarrow> Inl AdaptersMissing
      | Some s \<Rightarrow>
          (case json_parse s of
             None \<Rightarrow> Inl AdaptersNotJson
           | Some (JArr entries) \<Rightarrow>
               if length entries \<noteq> 1 then Inl AdaptersNotOne
               else result_mapM (\<lambda>(i, entry). parse_adapter configuredAgentId agentRootDir i entry) (enumerate 0 entries)
           | Some _ \<Rightarrow> Inl AdaptersNotArray))"

section \<open>Loading\<close>

definition loadCoreConfig :: "env \<Rightarrow> (config_error, CoreConfig) result" where
  "loadCoreConfig env =
     result_bind (required env ''OMP_HOST'') (\<lambda>host.
     result_bind (requiredInt env ''OMP_PORT'') (\<lambda>port.
     result_bind (required env ''OMP_SESSION_DB_PATH'') (\<lambda>sessionDbPath.
     result_bind (required env ''OMP_IDEMPOTENCY_DB_PATH'') (\<lambda>idempotencyDbPath.
     result_bind (required env ''OMP_OUTBOX_DB_PATH'') (\<lambda>outboxDbPath.
     result_bind (required env ''OMP_CHILD_REGISTRY_PATH'') (\<lambda>childRegistryPath.
     result_bind (required env ''OMP_WORKSPACE_DIR'') (\<lambda>workspaceDir.
     result_bind (requiredInt env ''OMP_MAX_CHILDREN'') (\<lambda>maxChildren.
     result_bind (requiredInt env ''OMP_IDLE_TIMEOUT_MS'') (\<lambda>idleTimeoutMs.
     result_bind (requiredInt env ''OMP_ENGAGEMENT_WINDOW_MS'') (\<lambda>engagementWindowMs.
     result_bind (requiredInt env ''OMP_CALLBACK_TIMEOUT_MS'') (\<lambda>callbackTimeoutMs.
     result_bind (optionalInt env ''OMP_AMBIENT_QUIET_PERIOD_MS'' 30000) (\<lambda>ambientQuietPeriodMs.
     result_bind (optionalInt env ''OMP_PROGRESS_THRESHOLD_MS'' 500) (\<lambda>progressThresholdMs.
     result_bind (parseRetryDelays (env ''OMP_RETRY_DELAYS_MS'')) (\<lambda>retryDelaysMs.
       let agentId = trimmed (env ''OMP_AGENT_ID''); agentRootDir = trimmed (env ''OMP_AGENT_ROOT'') in
       if agentId \<noteq> None \<and> \<not> AGENT_ID_RE (the agentId) then Inl (AgentIdInvalid (the agentId))
       else result_bind (parseAdapters (env ''OMP_ADAPTERS'') agentId agentRootDir) (\<lambda>adapters.
         Inr \<lparr>cc_host = host, cc_port = port, cc_sessionDbPath = sessionDbPath, cc_idempotencyDbPath = idempotencyDbPath,
              cc_outboxDbPath = outboxDbPath, cc_childRegistryPath = childRegistryPath, cc_workspaceDir = workspaceDir,
              cc_ompBinary = (case trimmed (env ''OMP_BINARY'') of Some b \<Rightarrow> b | None \<Rightarrow> ''omp''),
              cc_ompModel = trimmed (env ''OMP_MODEL''), cc_ompProfile = trimmed (env ''OMP_PROFILE''),
              cc_ompArgs = parse_omp_args (env ''OMP_ARGS''), cc_maxChildren = maxChildren, cc_idleTimeoutMs = idleTimeoutMs,
              cc_engagementWindowMs = engagementWindowMs, cc_ambientQuietPeriodMs = ambientQuietPeriodMs,
              cc_callbackTimeoutMs = callbackTimeoutMs, cc_progressThresholdMs = progressThresholdMs,
              cc_retryDelaysMs = retryDelaysMs, cc_adapters = adapters, cc_agentId = agentId, cc_agentRootDir = agentRootDir\<rparr>)))))))))))))))"

section \<open>The snapshot for logs\<close>

definition opt_json :: "string option \<Rightarrow> json" where
  "opt_json v = (case v of None \<Rightarrow> JNull | Some s \<Rightarrow> JStr s)"

definition safeDescribe :: "CoreConfig \<Rightarrow> json" where
  "safeDescribe c = JObj
     [(''host'', JStr (cc_host c)), (''port'', JNum (cc_port c)), (''sessionDbPath'', JStr (cc_sessionDbPath c)),
      (''idempotencyDbPath'', JStr (cc_idempotencyDbPath c)), (''outboxDbPath'', JStr (cc_outboxDbPath c)),
      (''childRegistryPath'', JStr (cc_childRegistryPath c)), (''workspaceDir'', JStr (cc_workspaceDir c)),
      (''ompBinary'', JStr (cc_ompBinary c)), (''ompModel'', opt_json (cc_ompModel c)), (''ompProfile'', opt_json (cc_ompProfile c)),
      (''ompArgs'', JArr (map JStr (cc_ompArgs c))), (''maxChildren'', JNum (cc_maxChildren c)),
      (''idleTimeoutMs'', JNum (cc_idleTimeoutMs c)), (''engagementWindowMs'', JNum (cc_engagementWindowMs c)),
      (''callbackTimeoutMs'', JNum (cc_callbackTimeoutMs c)), (''progressThresholdMs'', JNum (cc_progressThresholdMs c)),
      (''retryDelaysMs'', JArr (map JNum (cc_retryDelaysMs c))),
      (''adapters'', JArr (map (\<lambda>a. JObj [(''adapterId'', JStr (ar_adapterId a)), (''callbackUrl'', JStr (ar_callbackUrl a)),
          (''agentId'', case ar_agentId a of None \<Rightarrow> JNull | Some j \<Rightarrow> j)]) (cc_adapters c))),
      (''agentId'', opt_json (cc_agentId c)), (''agentRootDir'', opt_json (cc_agentRootDir c))]"

section \<open>The agent binding\<close>

record ChildSpawnPlan =
  pl_cwd :: string
  pl_model :: "string option"
  pl_args :: "string list"

datatype spawn_error = NoRegistration | NotBound string | RootNotSet string | IdNotSet string | AgentMismatch string

definition resolveChildSpawnPlan :: "(string \<Rightarrow> string \<Rightarrow> string) \<Rightarrow> CoreConfig \<Rightarrow> AdapterRegistration option
    \<Rightarrow> (spawn_error, ChildSpawnPlan) result" where
  "resolveChildSpawnPlan join config registration =
     (case registration of
        None \<Rightarrow> Inl NoRegistration
      | Some r \<Rightarrow>
          if ar_agentId r = None then Inl (NotBound (ar_adapterId r))
          else (case cc_agentRootDir config of
             None \<Rightarrow> Inl (RootNotSet (ar_adapterId r))
           | Some root \<Rightarrow>
               if cc_agentId config = None then Inl (IdNotSet (ar_adapterId r))
               else if ar_agentId r \<noteq> map_option JStr (cc_agentId config) then Inl (AgentMismatch (ar_adapterId r))
               else Inr \<lparr>pl_cwd = join root ''workspace'', pl_model = cc_ompModel config, pl_args = cc_ompArgs config\<rparr>))"

datatype binding_error = BindingIdNotSet | BindingMismatch string | RootNotDirectory | NoUsableChild string

text \<open>What \<open>lstat\<close> says of a path: \<open>None\<close> when there is no entry, else directory and symbolic link.\<close>

definition plain_directory :: "(string \<Rightarrow> (bool \<times> bool) option) \<Rightarrow> string \<Rightarrow> bool" where
  "plain_directory lstat path = (case lstat path of None \<Rightarrow> False | Some (isDirectory, isSymbolicLink) \<Rightarrow> isDirectory \<and> \<not> isSymbolicLink)"

definition validateAgentBindings :: "(string \<Rightarrow> string \<Rightarrow> string) \<Rightarrow> (string \<Rightarrow> (bool \<times> bool) option) \<Rightarrow> CoreConfig
    \<Rightarrow> (binding_error, unit) result" where
  "validateAgentBindings join lstat config =
     (let bound = filter (\<lambda>a. ar_agentId a \<noteq> None) (cc_adapters config) in
      if bound = [] then Inr ()
      else if cc_agentId config = None then Inl BindingIdNotSet
      else (case find (\<lambda>a. ar_agentId a \<noteq> map_option JStr (cc_agentId config)) bound of
         Some a \<Rightarrow> Inl (BindingMismatch (ar_adapterId a))
       | None \<Rightarrow>
           (case cc_agentRootDir config of
              None \<Rightarrow> Inl RootNotDirectory
            | Some root \<Rightarrow>
                if \<not> plain_directory lstat root then Inl RootNotDirectory
                else (case find (\<lambda>child. \<not> plain_directory lstat (join root child)) [''.omp'', ''workspace''] of
                   Some child \<Rightarrow> Inl (NoUsableChild child)
                 | None \<Rightarrow> Inr ()))))"

text \<open>The options the supervisor passes to the ingest buffer and to an emitter.\<close>

definition buffer_options :: "CoreConfig \<Rightarrow> (num_option \<times> num_option \<times> bool) option" where
  "buffer_options c = Some (FiniteNumber (cc_engagementWindowMs c), FiniteNumber (cc_ambientQuietPeriodMs c), True)"

definition emitter_options :: "CoreConfig \<Rightarrow> (string \<Rightarrow> AdapterTarget option) \<Rightarrow> string \<Rightarrow> string \<Rightarrow> string \<Rightarrow> EmitterOptions" where
  "emitter_options c target adapterId conversationKey correlationId =
     \<lparr>eo_adapterId = adapterId, eo_conversationKey = conversationKey, eo_correlationId = correlationId,
      eo_resolveAdapterTarget = target, eo_dbPath = cc_outboxDbPath c, eo_progressThresholdMs = cc_progressThresholdMs c,
      eo_retryDelaysMs = cc_retryDelaysMs c, eo_requestTimeoutMs = cc_callbackTimeoutMs c\<rparr>"

section \<open>What a loaded configuration guarantees\<close>

lemma trimmed_nonempty: "trimmed v = Some s \<Longrightarrow> s \<noteq> []"
  by (auto simp: trimmed_def split: option.splits if_splits)

lemma required_nonempty: "required env key = Inr v \<Longrightarrow> v \<noteq> []"
  by (auto simp: required_def split: option.splits dest: trimmed_nonempty)

lemma requiredInt_range: "requiredInt env key = Inr n \<Longrightarrow> 0 < n \<and> n \<le> MAX_SAFE_INTEGER"
  by (auto simp: requiredInt_def safe_integer_def result_bind_Inr_iff split: option.splits if_splits)

lemma optionalInt_range:
  "optionalInt env key d = Inr n \<Longrightarrow> 0 \<le> d \<Longrightarrow> d \<le> MAX_SAFE_INTEGER \<Longrightarrow> 0 \<le> n \<and> n \<le> MAX_SAFE_INTEGER"
  by (auto simp: optionalInt_def safe_integer_def split: option.splits if_splits)

lemma parseRetryDelays_nonneg: "parseRetryDelays raw = Inr ds \<Longrightarrow> d \<in> set ds \<Longrightarrow> 0 \<le> d"
  by (auto simp: parseRetryDelays_def dest!: result_mapM_Inr_in split: option.splits if_splits)

lemma parse_adapter_bound:
  assumes "parse_adapter aid root i entry = Inr r"
  shows "\<exists>a. aid = Some a \<and> AGENT_ID_RE a \<and> root \<noteq> None \<and> ar_agentId r = Some (JStr a) \<and>
    ar_adapterId r \<noteq> [] \<and> ar_callbackUrl r \<noteq> [] \<and> ar_sharedSecret r \<noteq> []"
  using assms
  by (auto simp: parse_adapter_def strField_def result_bind_Inr_iff split: json.splits option.splits if_splits)

lemma parseAdapters_one:
  assumes "parseAdapters raw aid root = Inr rs"
  shows "\<exists>r a. rs = [r] \<and> aid = Some a \<and> AGENT_ID_RE a \<and> root \<noteq> None \<and> ar_agentId r = Some (JStr a) \<and>
    ar_adapterId r \<noteq> [] \<and> ar_callbackUrl r \<noteq> [] \<and> ar_sharedSecret r \<noteq> []"
proof -
  obtain entry where "result_mapM (\<lambda>(i, entry). parse_adapter aid root i entry) (enumerate 0 [entry]) = Inr rs"
    using assms by (auto simp: parseAdapters_def length_Suc_conv split: option.splits json.splits if_splits)
  then obtain r where "rs = [r]" "parse_adapter aid root 0 entry = Inr r" by (auto simp: result_bind_Inr_iff)
  then show ?thesis using parse_adapter_bound by fastforce
qed

lemma loaded_adapter:
  assumes "loadCoreConfig env = Inr c"
  shows "\<exists>r a. cc_adapters c = [r] \<and> cc_agentId c = Some a \<and> AGENT_ID_RE a \<and> cc_agentRootDir c \<noteq> None \<and>
    ar_agentId r = Some (JStr a) \<and> ar_adapterId r \<noteq> [] \<and> ar_callbackUrl r \<noteq> [] \<and> ar_sharedSecret r \<noteq> []"
proof -
  have "parseAdapters (env ''OMP_ADAPTERS'') (cc_agentId c) (cc_agentRootDir c) = Inr (cc_adapters c)"
    using assms by (auto simp: loadCoreConfig_def result_bind_Inr_iff Let_def split: if_splits)
  then show ?thesis by (rule parseAdapters_one)
qed

lemma loaded_numbers:
  assumes "loadCoreConfig env = Inr c"
  shows "0 < cc_maxChildren c" "cc_maxChildren c \<le> MAX_SAFE_INTEGER" "0 < cc_engagementWindowMs c"
    "0 \<le> cc_ambientQuietPeriodMs c" "0 < cc_callbackTimeoutMs c" "0 \<le> cc_progressThresholdMs c"
    "list_all (\<lambda>d. 0 \<le> d) (cc_retryDelaysMs c)" "cc_outboxDbPath c \<noteq> []" "0 < cc_idleTimeoutMs c" "cc_idleTimeoutMs c \<le> MAX_SAFE_INTEGER"
proof -
  obtain x where x: "requiredInt env ''OMP_MAX_CHILDREN'' = Inr (cc_maxChildren c)"
    "requiredInt env ''OMP_IDLE_TIMEOUT_MS'' = Inr (cc_idleTimeoutMs c)"
    "requiredInt env ''OMP_ENGAGEMENT_WINDOW_MS'' = Inr (cc_engagementWindowMs c)"
    "requiredInt env ''OMP_CALLBACK_TIMEOUT_MS'' = Inr (cc_callbackTimeoutMs c)"
    "optionalInt env ''OMP_AMBIENT_QUIET_PERIOD_MS'' 30000 = Inr (cc_ambientQuietPeriodMs c)"
    "optionalInt env ''OMP_PROGRESS_THRESHOLD_MS'' 500 = Inr (cc_progressThresholdMs c)"
    "parseRetryDelays (env ''OMP_RETRY_DELAYS_MS'') = Inr (cc_retryDelaysMs c)"
    "required env ''OMP_OUTBOX_DB_PATH'' = Inr (cc_outboxDbPath c)" "x = ()"
    using assms by (auto simp: loadCoreConfig_def result_bind_Inr_iff Let_def split: if_splits)
  have m: "(30000 :: int) \<le> MAX_SAFE_INTEGER" "(500 :: int) \<le> MAX_SAFE_INTEGER" by (simp_all add: MAX_SAFE_INTEGER_def)
  show "0 < cc_maxChildren c" "cc_maxChildren c \<le> MAX_SAFE_INTEGER" using requiredInt_range [OF x(1)] by auto
  show "0 < cc_idleTimeoutMs c" "cc_idleTimeoutMs c \<le> MAX_SAFE_INTEGER" using requiredInt_range [OF x(2)] by auto
  show "0 < cc_engagementWindowMs c" using requiredInt_range [OF x(3)] by auto
  show "0 < cc_callbackTimeoutMs c" using requiredInt_range [OF x(4)] by auto
  show "0 \<le> cc_ambientQuietPeriodMs c" using optionalInt_range [OF x(5) _ m(1)] by simp
  show "0 \<le> cc_progressThresholdMs c" using optionalInt_range [OF x(6) _ m(2)] by simp
  show "list_all (\<lambda>d. 0 \<le> d) (cc_retryDelaysMs c)" using parseRetryDelays_nonneg [OF x(7)] by (simp add: list_all_iff)
  show "cc_outboxDbPath c \<noteq> []" using required_nonempty [OF x(8)] .
qed


definition w_cenv :: env where
  "w_cenv = map_of [(''OMP_HOST'', ''0.0.0.0''), (''OMP_PORT'', '' 8080 ''), (''OMP_SESSION_DB_PATH'', ''/d/s''), (''OMP_IDEMPOTENCY_DB_PATH'', ''/d/i''),
     (''OMP_OUTBOX_DB_PATH'', ''/d/o''), (''OMP_CHILD_REGISTRY_PATH'', ''/d/c''), (''OMP_WORKSPACE_DIR'', ''/w''), (''OMP_MAX_CHILDREN'', ''4''),
     (''OMP_IDLE_TIMEOUT_MS'', ''1000''), (''OMP_ENGAGEMENT_WINDOW_MS'', ''2000''), (''OMP_CALLBACK_TIMEOUT_MS'', ''3e3''),
     (''OMP_RETRY_DELAYS_MS'', ''100, 200''), (''OMP_ARGS'', ''--a, --b''), (''OMP_AGENT_ID'', ''helper''), (''OMP_AGENT_ROOT'', ''/agent''),
     (''OMP_ADAPTERS'', json_stringify (JArr [JObj [(''adapterId'', JStr ''web''), (''callbackUrl'', JStr ''http://h/cb''),
        (''sharedSecret'', JStr ''s1''), (''agentId'', JStr ''helper'')]]))]"

definition w_config :: CoreConfig where
  "w_config = \<lparr>cc_host = ''0.0.0.0'', cc_port = 8080, cc_sessionDbPath = ''/d/s'', cc_idempotencyDbPath = ''/d/i'', cc_outboxDbPath = ''/d/o'',
     cc_childRegistryPath = ''/d/c'', cc_workspaceDir = ''/w'', cc_ompBinary = ''omp'', cc_ompModel = None, cc_ompProfile = None,
     cc_ompArgs = [''--a'', ''--b''], cc_maxChildren = 4, cc_idleTimeoutMs = 1000, cc_engagementWindowMs = 2000, cc_ambientQuietPeriodMs = 30000,
     cc_callbackTimeoutMs = 3000, cc_progressThresholdMs = 500, cc_retryDelaysMs = [100, 200],
     cc_adapters = [\<lparr>ar_adapterId = ''web'', ar_callbackUrl = ''http://h/cb'', ar_sharedSecret = ''s1'', ar_agentId = Some (JStr ''helper'')\<rparr>],
     cc_agentId = Some ''helper'', cc_agentRootDir = Some ''/agent''\<rparr>"

lemma w_config_loads: "loadCoreConfig w_cenv = Inr w_config"
  by code_simp


text \<open>
  The diagnostic snapshot of a configuration reveals nothing of the secrets: two
  configurations that differ only in the shared secrets of their adapters have the same
  snapshot.\<close>

theorem safeDescribe_hides_secrets:
  "safeDescribe (c\<lparr>cc_adapters := map (\<lambda>a. a\<lparr>ar_sharedSecret := f a\<rparr>) (cc_adapters c)\<rparr>) = safeDescribe c"
  by (simp add: safeDescribe_def comp_def)

end
