(* ===== verification/Core_Server.thy ===== *)
theory Core_Server
  imports Core_Config
begin

text \<open>
  \<open>packages/core/src/server.ts\<close>: the HTTP front of the core. Routing on the path, the guards of
  the two adapter routes in their order, the bounded body, the validation of an inbound message,
  and the status codes. The supervisor is the record \<open>core_api\<close> of the operations the handlers
  call, with \<open>'s\<close> the state they change; the locale \<open>core_service\<close> is the part of its contract
  the handlers need, interpreted on the adapter registry.

  \<open>new URL(..).pathname\<close> (\<open>None\<close>: it throws) and the decoding of the body's bytes are part of the
  request; \<open>errorId\<close> is the random id of an internal error. What is logged is left out.
\<close>

section \<open>Requests and the supervisor's interface\<close>

record request =
  rq_method :: "string option"
  rq_pathname :: "string option"
  rq_secret :: "string option"
  rq_contentType :: "string option"
  rq_chunks :: "nat list list"
  rq_utf8 :: "nat list \<Rightarrow> string"

type_synonym response = "nat \<times> json"

datatype InboundResult = Accepted string | Duplicate string

datatype inbound_throw = InboundConflict string | OtherThrow

record 's core_api =
  api_hasAdapter :: "string \<Rightarrow> bool"
  api_authenticateInbound :: "string \<Rightarrow> string \<Rightarrow> (registry_error, bool) result"
  api_processInbound :: "string \<Rightarrow> InboundMessage \<Rightarrow> 's \<Rightarrow> (inbound_throw, InboundResult) result \<times> 's"
  api_dismissEngagement :: "string \<Rightarrow> string \<Rightarrow> 's \<Rightarrow> bool \<times> 's"

definition MAX_BODY_BYTES :: nat where
  "MAX_BODY_BYTES = 1024 * 1024"

definition INBOUND_MESSAGE_MEDIA_TYPE :: string where
  "INBOUND_MESSAGE_MEDIA_TYPE = ''application/vnd.omp-bundler.inbound-message.v1+json''"

section \<open>Paths\<close>

text \<open>
  \<open>decodeURIComponent\<close>; \<open>None\<close> is the thrown \<open>URIError\<close>. Escapes that denote a code point from
  256 on are outside the model's strings and are \<open>None\<close> too.
\<close>

fun decodeURIComponent :: "string \<Rightarrow> string option" where
  "decodeURIComponent [] = Some []"
| "decodeURIComponent (c # s) =
     (if c \<noteq> CHR ''%'' then map_option ((#) c) (decodeURIComponent s)
      else case s of
        a # b # r \<Rightarrow>
          (case (hex_val a, hex_val b) of
             (Some x, Some y) \<Rightarrow>
               if 16 * x + y < 128 then map_option ((#) (char_of (16 * x + y))) (decodeURIComponent r)
               else if 16 * x + y = 194 \<or> 16 * x + y = 195 then
                 (case r of
                    p # a' # b' # r' \<Rightarrow>
                      (case (hex_val a', hex_val b') of
                         (Some x', Some y') \<Rightarrow>
                           if p = CHR ''%'' \<and> 128 \<le> 16 * x' + y' \<and> 16 * x' + y' < 192
                           then map_option ((#) (char_of ((16 * x + y - 192) * 64 + (16 * x' + y' - 128)))) (decodeURIComponent r')
                           else None
                       | _ \<Rightarrow> None)
                  | _ \<Rightarrow> None)
               else None
           | _ \<Rightarrow> None)
      | _ \<Rightarrow> None)"

definition path_parts :: "string \<Rightarrow> string list" where
  "path_parts path = filter (\<lambda>s. length s > 0) (js_split (CHR ''/'') path)"

text \<open>
  The loop over the template's segments. A segment that starts with a colon binds the decoded
  part; the result object is a map, \<open>None\<close> a mismatch and \<open>Inl ()\<close> a throw of the decoding.
\<close>

fun match_parts :: "string list \<Rightarrow> string list \<Rightarrow> (string, string) js_map \<Rightarrow> (unit, (string, string) js_map option) result" where
  "match_parts (t # tmpl) (p # parts) res =
     (if js_starts_with '':'' t
      then (case decodeURIComponent p of None \<Rightarrow> Inl () | Some v \<Rightarrow> match_parts tmpl parts (map_set res (tl t) v))
      else if t \<noteq> p then Inr None
      else match_parts tmpl parts res)"
| "match_parts _ _ res = Inr (Some res)"

definition matchRoute :: "string \<Rightarrow> string \<Rightarrow> (unit, string option) result" where
  "matchRoute path template =
     (let parts = path_parts path; tmpl = path_parts template
      in if length parts \<noteq> length tmpl then Inr None
         else result_bind (match_parts tmpl parts []) (\<lambda>res.
           case res of None \<Rightarrow> Inr None | Some m \<Rightarrow> Inr (map_get m ''adapterId'')))"

definition matchEngagementRoute :: "string \<Rightarrow> (unit, (string \<times> string) option) result" where
  "matchEngagementRoute path =
     (case path_parts path of
        [p0, p1, p2, p3, p4, p5] \<Rightarrow>
          if p0 \<noteq> ''v1'' \<or> p1 \<noteq> ''adapters'' \<or> p3 \<noteq> ''conversations'' \<or> p5 \<noteq> ''engagement'' then Inr None
          else (case decodeURIComponent p2 of
             None \<Rightarrow> Inl ()
           | Some a \<Rightarrow> (case decodeURIComponent p4 of None \<Rightarrow> Inl () | Some k \<Rightarrow> Inr (Some (a, k))))
      | _ \<Rightarrow> Inr None)"

section \<open>Body and validation\<close>

text \<open>The loop over the chunks: the running total, the chunks kept; \<open>None\<close> is \<open>null\<close>.\<close>

fun readBoundedBody :: "nat \<Rightarrow> nat list list \<Rightarrow> nat list list \<Rightarrow> nat list option" where
  "readBoundedBody sofar chunks [] = Some (concat chunks)"
| "readBoundedBody sofar chunks (chunk # rest) =
     (if sofar + length chunk > MAX_BODY_BYTES then None
      else readBoundedBody (sofar + length chunk) (chunks @ [chunk]) rest)"

definition hasOnlyProperties :: "(string \<times> json) list \<Rightarrow> string list \<Rightarrow> bool" where
  "hasOnlyProperties obj allowed \<longleftrightarrow> list_all (\<lambda>key. key \<in> set allowed) (map fst obj)"

text \<open>\<open>typeof v === "string" && v.length > 0\<close>, and a string or \<open>undefined\<close>.\<close>

definition nonempty_string :: "json option \<Rightarrow> string option" where
  "nonempty_string v = (case jstring v of Some s \<Rightarrow> if s = [] then None else Some s | None \<Rightarrow> None)"

fun optional_string :: "json option \<Rightarrow> string option option" where
  "optional_string None = Some None"
| "optional_string (Some (JStr s)) = Some (Some s)"
| "optional_string _ = None"

definition validate_speaker :: "json option \<Rightarrow> Speaker option" where
  "validate_speaker v =
     (case v of
        Some (JObj sp) \<Rightarrow>
          if \<not> hasOnlyProperties sp [''id'', ''displayName''] then None
          else (case (nonempty_string (map_of sp ''id''), nonempty_string (map_of sp ''displayName'')) of
             (Some i, Some d) \<Rightarrow> Some \<lparr>sp_id = i, sp_displayName = d\<rparr>
           | _ \<Rightarrow> None)
      | _ \<Rightarrow> None)"

definition validate_attachment :: "json \<Rightarrow> WorkspaceAttachment option" where
  "validate_attachment v =
     (case v of
        JObj att \<Rightarrow>
          if \<not> hasOnlyProperties att [''path'', ''name'', ''mediaType''] then None
          else (case (nonempty_string (map_of att ''path''), optional_string (map_of att ''name''), optional_string (map_of att ''mediaType'')) of
             (Some p, Some n, Some m) \<Rightarrow> Some \<lparr>wa_path = p, wa_name = n, wa_mediaType = m\<rparr>
           | _ \<Rightarrow> None)
      | _ \<Rightarrow> None)"

definition validate_parent :: "json option \<Rightarrow> string option option" where
  "validate_parent v = (case v of None \<Rightarrow> Some None | Some _ \<Rightarrow> map_option Some (nonempty_string v))"

definition validateInboundMessage :: "json \<Rightarrow> InboundMessage option" where
  "validateInboundMessage parsed =
     (case parsed of
        JObj obj \<Rightarrow>
          if \<not> hasOnlyProperties obj [''messageId'', ''conversationKey'', ''parentConversationKey'', ''speaker'', ''text'', ''attachments'', ''addressed'']
          then None
          else
            Option.bind (validate_parent (map_of obj ''parentConversationKey'')) (\<lambda>parent.
            Option.bind (nonempty_string (map_of obj ''messageId'')) (\<lambda>messageId.
            Option.bind (nonempty_string (map_of obj ''conversationKey'')) (\<lambda>conversationKey.
            Option.bind (validate_speaker (map_of obj ''speaker'')) (\<lambda>speaker.
            Option.bind (jstring (map_of obj ''text'')) (\<lambda>text.
              (case map_of obj ''attachments'' of
                 Some (JArr atts) \<Rightarrow>
                   if text = [] \<and> atts = [] then None
                   else Option.bind (those (map validate_attachment atts)) (\<lambda>attachments.
                     (case map_of obj ''addressed'' of
                        Some (JBool b) \<Rightarrow> Some \<lparr>im_messageId = messageId, im_conversationKey = conversationKey, im_parentConversationKey = parent,
                          im_speaker = speaker, im_text = text, im_attachments = attachments, im_addressed = b\<rparr>
                      | _ \<Rightarrow> None))
               | _ \<Rightarrow> None))))))
      | _ \<Rightarrow> None)"

section \<open>Handlers\<close>

definition error_body :: "string \<Rightarrow> json" where
  "error_body msg = JObj [(''error'', JStr msg)]"

definition handleInternalError :: "string \<Rightarrow> response" where
  "handleInternalError errorId = (500, JObj [(''error'', JStr ''internal error''), (''errorId'', JStr errorId)])"

definition handleInboundError :: "string \<Rightarrow> inbound_throw \<Rightarrow> response" where
  "handleInboundError errorId err =
     (case err of InboundConflict msg \<Rightarrow> (409, error_body msg) | OtherThrow \<Rightarrow> handleInternalError errorId)"

text \<open>
  The first guards of both handlers: \<open>Inl\<close> a response sent at once, \<open>Inr None\<close> a pass. A throw
  of the registry leaves the handler and is answered by the server as an internal error.
\<close>

definition authenticate :: "'s core_api \<Rightarrow> string \<Rightarrow> string \<Rightarrow> request \<Rightarrow> (response, unit) result" where
  "authenticate api errorId adapterId req =
     (if \<not> api_hasAdapter api adapterId then Inl (404, error_body ''unknown adapter'')
      else (case rq_secret req of
         None \<Rightarrow> Inl (401, error_body ''invalid shared secret'')
       | Some secret \<Rightarrow>
           if secret = [] then Inl (401, error_body ''invalid shared secret'')
           else (case api_authenticateInbound api adapterId secret of
              Inl e \<Rightarrow> Inl (handleInternalError errorId)
            | Inr ok \<Rightarrow> if ok then Inr () else Inl (401, error_body ''invalid shared secret''))))"

definition accept_body :: "request \<Rightarrow> (response, InboundMessage) result" where
  "accept_body req =
     (if rq_contentType req \<noteq> Some INBOUND_MESSAGE_MEDIA_TYPE
      then Inl (400, error_body (''unsupported content type; expected '' @ INBOUND_MESSAGE_MEDIA_TYPE))
      else (case readBoundedBody 0 [] (rq_chunks req) of
         None \<Rightarrow> Inl (400, error_body ''request body too large'')
       | Some rawBody \<Rightarrow>
           if rawBody = [] then Inl (400, error_body ''empty request body'')
           else (case json_parse (rq_utf8 req rawBody) of
              None \<Rightarrow> Inl (400, error_body ''invalid JSON'')
            | Some parsed \<Rightarrow>
                (case validateInboundMessage parsed of
                   None \<Rightarrow> Inl (400, error_body ''malformed inbound message'')
                 | Some message \<Rightarrow> Inr message))))"

definition inbound_response :: "string \<Rightarrow> (inbound_throw, InboundResult) result \<Rightarrow> response" where
  "inbound_response errorId out =
     (case out of
        Inl err \<Rightarrow> handleInboundError errorId err
      | Inr (Accepted c) \<Rightarrow> (202, JObj [(''status'', JStr ''accepted''), (''correlationId'', JStr c)])
      | Inr (Duplicate c) \<Rightarrow> (200, JObj [(''status'', JStr ''duplicate''), (''correlationId'', JStr c)]))"

definition handleInboundMessage :: "'s core_api \<Rightarrow> string \<Rightarrow> string \<Rightarrow> request \<Rightarrow> 's \<Rightarrow> response \<times> 's" where
  "handleInboundMessage api errorId adapterId req s =
     (case result_bind (authenticate api errorId adapterId req) (\<lambda>_. accept_body req) of
        Inl resp \<Rightarrow> (resp, s)
      | Inr message \<Rightarrow>
          (case api_processInbound api adapterId message s of (out, s') \<Rightarrow> (inbound_response errorId out, s')))"

definition handleDismissEngagement :: "'s core_api \<Rightarrow> string \<Rightarrow> string \<Rightarrow> string \<Rightarrow> request \<Rightarrow> 's \<Rightarrow> response \<times> 's" where
  "handleDismissEngagement api errorId adapterId conversationKey req s =
     (case authenticate api errorId adapterId req of
        Inl resp \<Rightarrow> (resp, s)
      | Inr _ \<Rightarrow>
          (case api_dismissEngagement api adapterId conversationKey s of
             (dismissed, s') \<Rightarrow> ((200, JObj [(''dismissed'', JBool dismissed)]), s')))"

definition messages_template :: string where
  "messages_template = ''/v1/adapters/:adapterId/messages''"

text \<open>The request listener: \<open>route\<close> with every throw answered by \<open>handleInternalError\<close>.\<close>

definition route :: "'s core_api \<Rightarrow> string \<Rightarrow> request \<Rightarrow> 's \<Rightarrow> response \<times> 's" where
  "route api errorId req s =
     (case rq_pathname req of
        None \<Rightarrow> (handleInternalError errorId, s)
      | Some path \<Rightarrow>
          let method = (case rq_method req of None \<Rightarrow> ''GET'' | Some m \<Rightarrow> m) in
          if method = ''GET'' \<and> path = ''/health'' then ((200, JObj [(''status'', JStr ''ok'')]), s)
          else if method = ''GET'' \<and> path = ''/ready'' then ((200, JObj [(''status'', JStr ''ready'')]), s)
          else (case matchRoute path messages_template of
             Inl _ \<Rightarrow> (handleInternalError errorId, s)
           | Inr messageMatch \<Rightarrow>
               if messageMatch \<noteq> None \<and> method = ''POST'' then handleInboundMessage api errorId (the messageMatch) req s
               else (case matchEngagementRoute path of
                  Inl _ \<Rightarrow> (handleInternalError errorId, s)
                | Inr dismissMatch \<Rightarrow>
                    if dismissMatch \<noteq> None \<and> method = ''DELETE''
                    then handleDismissEngagement api errorId (fst (the dismissMatch)) (snd (the dismissMatch)) req s
                    else ((404, error_body ''not found''), s))))"

section \<open>Validation accepts exactly the messages\<close>

definition valid_inbound :: "InboundMessage \<Rightarrow> bool" where
  "valid_inbound m \<longleftrightarrow> im_messageId m \<noteq> [] \<and> im_conversationKey m \<noteq> [] \<and> im_parentConversationKey m \<noteq> Some [] \<and>
     sp_id (im_speaker m) \<noteq> [] \<and> sp_displayName (im_speaker m) \<noteq> [] \<and> \<not> (im_text m = [] \<and> im_attachments m = []) \<and>
     list_all (\<lambda>a. wa_path a \<noteq> []) (im_attachments m)"

lemma nonempty_string_Some: "nonempty_string v = Some s \<longleftrightarrow> v = Some (JStr s) \<and> s \<noteq> []"
  by (cases v; cases "the v") (auto simp: nonempty_string_def)

lemma optional_string_Some: "optional_string v = Some s \<longleftrightarrow> v = map_option JStr s"
  by (cases v rule: optional_string.cases; cases s) auto

lemma jstring_Some: "jstring v = Some s \<longleftrightarrow> v = Some (JStr s)"
  by (cases v rule: jstring.cases) auto

lemma validate_parent_Some: "validate_parent v = Some p \<longleftrightarrow> v = map_option JStr p \<and> p \<noteq> Some []"
  by (cases v; cases p) (auto simp: validate_parent_def nonempty_string_Some)

lemma only_properties: "hasOnlyProperties kvs ks \<Longrightarrow> k \<notin> set ks \<Longrightarrow> map_of kvs k = None"
  by (auto simp: hasOnlyProperties_def list_all_iff map_of_eq_None_iff)

lemma only_properties_iff: "hasOnlyProperties kvs ks \<longleftrightarrow> (\<forall>k. k \<notin> set ks \<longrightarrow> map_of kvs k = None)"
  by (auto simp: hasOnlyProperties_def list_all_iff map_of_eq_None_iff)

text \<open>Canonical forms of objects agree when the allowed properties do and there is no other.\<close>

lemma canonical_iff_props:
  assumes ok: "json_ok (JObj kvs)" "json_ok (JObj kvs')" and ks: "fst ` set kvs' \<subseteq> set ks"
  shows "canonicalize (JObj kvs) = canonicalize (JObj kvs') \<longleftrightarrow>
    hasOnlyProperties kvs ks \<and> (\<forall>k \<in> set ks. map_option canonicalize (map_of kvs k) = map_option canonicalize (map_of kvs' k))"
proof
  assume eq: "canonicalize (JObj kvs) = canonicalize (JObj kvs')"
  have eq': "map_option canonicalize (map_of kvs k) = map_option canonicalize (map_of kvs' k)" for k
    using arg_cong [OF eq, of "jget k"] unfolding jget_canonicalize [OF ok(1)] jget_canonicalize [OF ok(2)] by simp
  moreover have "map_of kvs' k = None" if "k \<notin> set ks" for k using that ks by (auto simp: map_of_eq_None_iff)
  ultimately show "hasOnlyProperties kvs ks \<and> (\<forall>k \<in> set ks. map_option canonicalize (map_of kvs k) = map_option canonicalize (map_of kvs' k))"
    by (metis only_properties_iff option.map_disc_iff)
next
  assume r: "hasOnlyProperties kvs ks \<and> (\<forall>k \<in> set ks. map_option canonicalize (map_of kvs k) = map_option canonicalize (map_of kvs' k))"
  show "canonicalize (JObj kvs) = canonicalize (JObj kvs')"
  proof (rule canonicalize_obj_eqI)
    show "distinct (map fst kvs)" "distinct (map fst kvs')" using ok by simp_all
    fix k
    have "k \<notin> set ks \<Longrightarrow> map_of kvs' k = None" using ks by (auto simp: map_of_eq_None_iff)
    then show "map_option canonicalize (map_of kvs k) = map_option canonicalize (map_of kvs' k)"
      using r by (cases "k \<in> set ks") (auto simp: only_properties_iff)
  qed
qed

lemma canon_atoms:
  "canonicalize j = JStr s \<longleftrightarrow> j = JStr s" "canonicalize j = JBool b \<longleftrightarrow> j = JBool b"
  by (cases j; auto)+

lemma canon_opt: "map_option canonicalize v = map_option JStr p \<longleftrightarrow> v = map_option JStr p"
  by (cases v; cases p) (auto simp: canon_atoms)

lemma canon_speaker:
  assumes "json_ok (JObj kvs)"
  shows "canonicalize (JObj kvs) = canonicalize (speaker_json sp) \<longleftrightarrow> hasOnlyProperties kvs [''id'', ''displayName''] \<and>
    map_of kvs ''id'' = Some (JStr (sp_id sp)) \<and> map_of kvs ''displayName'' = Some (JStr (sp_displayName sp))"
  unfolding speaker_json_def
  by (subst canonical_iff_props [OF assms, where ks = "[''id'', ''displayName'']"]) (auto simp: canon_atoms)

lemma canon_attachment:
  assumes "json_ok (JObj kvs)"
  shows "canonicalize (JObj kvs) = canonicalize (attachment_json a) \<longleftrightarrow> hasOnlyProperties kvs [''path'', ''name'', ''mediaType''] \<and>
    map_of kvs ''path'' = Some (JStr (wa_path a)) \<and> map_of kvs ''name'' = map_option JStr (wa_name a) \<and>
    map_of kvs ''mediaType'' = map_option JStr (wa_mediaType a)"
  unfolding attachment_json_def
  by (subst canonical_iff_props [OF assms, where ks = "[''path'', ''name'', ''mediaType'']"])
    (auto simp: canon_atoms opt_prop_def split: option.splits)

lemma validate_speaker_Some:
  "validate_speaker (Some (JObj kvs)) = Some sp \<longleftrightarrow> hasOnlyProperties kvs [''id'', ''displayName''] \<and>
    nonempty_string (map_of kvs ''id'') = Some (sp_id sp) \<and> nonempty_string (map_of kvs ''displayName'') = Some (sp_displayName sp)"
  by (cases sp) (auto simp: validate_speaker_def split: option.splits)

lemma validate_attachment_Some:
  "validate_attachment (JObj kvs) = Some a \<longleftrightarrow> hasOnlyProperties kvs [''path'', ''name'', ''mediaType''] \<and>
    nonempty_string (map_of kvs ''path'') = Some (wa_path a) \<and> optional_string (map_of kvs ''name'') = Some (wa_name a) \<and>
    optional_string (map_of kvs ''mediaType'') = Some (wa_mediaType a)"
  by (cases a) (auto simp: validate_attachment_def split: option.splits)

lemma validate_speaker_iff:
  assumes "\<And>j. v = Some j \<Longrightarrow> json_ok j"
  shows "validate_speaker v = Some sp \<longleftrightarrow>
    map_option canonicalize v = Some (canonicalize (speaker_json sp)) \<and> sp_id sp \<noteq> [] \<and> sp_displayName sp \<noteq> []"
proof (cases "\<exists>kvs. v = Some (JObj kvs)")
  case True
  then obtain kvs where v: "v = Some (JObj kvs)" by blast
  then have "json_ok (JObj kvs)" using assms by blast
  then show ?thesis unfolding v validate_speaker_Some option.map option.inject nonempty_string_Some
    by (simp only: canon_speaker) blast
next
  case False
  then show ?thesis
    by (cases v; cases "the v") (auto simp: validate_speaker_def speaker_json_def)
qed

lemma validate_attachment_iff:
  assumes "json_ok j"
  shows "validate_attachment j = Some a \<longleftrightarrow> canonicalize j = canonicalize (attachment_json a) \<and> wa_path a \<noteq> []"
proof (cases j)
  case (JObj kvs)
  then have "json_ok (JObj kvs)" using assms by blast
  then show ?thesis unfolding JObj validate_attachment_Some nonempty_string_Some optional_string_Some
    by (simp only: canon_attachment) blast
qed (auto simp: validate_attachment_def attachment_json_def)

lemma those_Some: "those xs = Some ys \<longleftrightarrow> xs = map Some ys"
  by (induction xs arbitrary: ys) (auto split: option.splits simp: map_eq_Cons_conv Cons_eq_map_conv)

lemma validate_attachments_iff:
  assumes "\<forall>j \<in> set js. json_ok j"
  shows "those (map validate_attachment js) = Some as \<longleftrightarrow>
    map canonicalize js = map (canonicalize \<circ> attachment_json) as \<and> list_all (\<lambda>a. wa_path a \<noteq> []) as"
  using assms unfolding those_Some
  by (induction js arbitrary: as) (auto simp: validate_attachment_iff map_eq_Cons_conv Cons_eq_map_conv)


lemma canon_arr: "canonicalize j = JArr cs \<longleftrightarrow> (\<exists>js. j = JArr js \<and> map canonicalize js = cs)"
  by (cases j) auto

lemma validation_cases:
  "(if c then None else x) = Some m \<longleftrightarrow> \<not> c \<and> x = Some m"
  "(case v of Some (JArr js) \<Rightarrow> f js | _ \<Rightarrow> None) = Some m \<longleftrightarrow> (\<exists>js. v = Some (JArr js) \<and> f js = Some m)"
  "(case v of Some (JBool b) \<Rightarrow> g b | _ \<Rightarrow> None) = Some m \<longleftrightarrow> (\<exists>b. v = Some (JBool b) \<and> g b = Some m)"
  by (auto split: option.splits json.splits)

abbreviation inbound_props :: "string list" where
  "inbound_props \<equiv> [''messageId'', ''conversationKey'', ''parentConversationKey'', ''speaker'', ''text'', ''attachments'', ''addressed'']"

lemma canon_inbound:
  assumes "json_ok (JObj obj)"
  shows "canonicalize (JObj obj) = canonicalize (inbound_json m) \<longleftrightarrow> hasOnlyProperties obj inbound_props \<and>
    map_of obj ''messageId'' = Some (JStr (im_messageId m)) \<and> map_of obj ''conversationKey'' = Some (JStr (im_conversationKey m)) \<and>
    map_of obj ''parentConversationKey'' = map_option JStr (im_parentConversationKey m) \<and>
    map_option canonicalize (map_of obj ''speaker'') = Some (canonicalize (speaker_json (im_speaker m))) \<and>
    map_of obj ''text'' = Some (JStr (im_text m)) \<and>
    (\<exists>js. map_of obj ''attachments'' = Some (JArr js) \<and> map canonicalize js = map (canonicalize \<circ> attachment_json) (im_attachments m)) \<and>
    map_of obj ''addressed'' = Some (JBool (im_addressed m))"
proof -
  let ?kvs = "[(''messageId'', JStr (im_messageId m)), (''conversationKey'', JStr (im_conversationKey m))]
       @ opt_prop ''parentConversationKey'' (im_parentConversationKey m)
       @ [(''speaker'', speaker_json (im_speaker m)), (''text'', JStr (im_text m)),
          (''attachments'', JArr (map attachment_json (im_attachments m))), (''addressed'', JBool (im_addressed m))]"
  have ok: "json_ok (JObj ?kvs)" using json_ok_inbound [of m] by (simp add: inbound_json_def)
  have ks: "fst ` set ?kvs \<subseteq> set inbound_props" by (auto simp: opt_prop_def split: option.splits)
  have o: "map_of ?kvs ''messageId'' = Some (JStr (im_messageId m))" "map_of ?kvs ''conversationKey'' = Some (JStr (im_conversationKey m))"
    "map_of ?kvs ''parentConversationKey'' = map_option JStr (im_parentConversationKey m)"
    "map_of ?kvs ''speaker'' = Some (speaker_json (im_speaker m))" "map_of ?kvs ''text'' = Some (JStr (im_text m))"
    "map_of ?kvs ''attachments'' = Some (JArr (map attachment_json (im_attachments m)))" "map_of ?kvs ''addressed'' = Some (JBool (im_addressed m))"
    by (auto simp: opt_prop_def split: option.splits)
  have p: "map_option canonicalize (map_option JStr q) = map_option JStr q" for q by (cases q) simp_all
  show ?thesis
    unfolding inbound_json_def canonical_iff_props [OF assms ok ks] list.set ball_simps o option.map p
    by (simp add: canon_opt canon_opt [where p = "Some s" for s, simplified] canon_arr canon_atoms conj_assoc) blast
qed

lemma validateInboundMessage_Some:
  "validateInboundMessage (JObj obj) = Some m \<longleftrightarrow> hasOnlyProperties obj inbound_props \<and>
    validate_parent (map_of obj ''parentConversationKey'') = Some (im_parentConversationKey m) \<and>
    nonempty_string (map_of obj ''messageId'') = Some (im_messageId m) \<and>
    nonempty_string (map_of obj ''conversationKey'') = Some (im_conversationKey m) \<and>
    validate_speaker (map_of obj ''speaker'') = Some (im_speaker m) \<and> jstring (map_of obj ''text'') = Some (im_text m) \<and>
    (\<exists>js. map_of obj ''attachments'' = Some (JArr js) \<and> \<not> (im_text m = [] \<and> js = []) \<and> those (map validate_attachment js) = Some (im_attachments m)) \<and>
    map_of obj ''addressed'' = Some (JBool (im_addressed m))"
  unfolding validateInboundMessage_def json.case
  unfolding validation_cases Option.bind_eq_Some_conv option.inject
  by (cases m) (simp, blast)

lemma validate_iff:
  assumes "json_ok j"
  shows "validateInboundMessage j = Some m \<longleftrightarrow> canonicalize j = canonicalize (inbound_json m) \<and> valid_inbound m"
proof (cases j)
  case (JObj obj)
  have ok: "json_ok (JObj obj)" using assms JObj by simp
  have sub: "json_ok x" if "map_of obj k = Some x" for k x
    using ok map_of_SomeD [OF that] by auto
  have at: "those (map validate_attachment js) = Some as \<longleftrightarrow>
      map canonicalize js = map (canonicalize \<circ> attachment_json) as \<and> list_all (\<lambda>a. wa_path a \<noteq> []) as"
    if "map_of obj ''attachments'' = Some (JArr js)" for js as
    using validate_attachments_iff sub [OF that] by simp
  have len: "map canonicalize js = map (canonicalize \<circ> attachment_json) as \<Longrightarrow> js = [] \<longleftrightarrow> as = []" for js as
    by (cases js; cases as) simp_all
  have sp: "validate_speaker (map_of obj ''speaker'') = Some (im_speaker m) \<longleftrightarrow>
      map_option canonicalize (map_of obj ''speaker'') = Some (canonicalize (speaker_json (im_speaker m))) \<and>
      sp_id (im_speaker m) \<noteq> [] \<and> sp_displayName (im_speaker m) \<noteq> []"
    by (rule validate_speaker_iff) (rule sub)
  have att: "(\<exists>js. map_of obj ''attachments'' = Some (JArr js) \<and> \<not> (im_text m = [] \<and> js = []) \<and> those (map validate_attachment js) = Some (im_attachments m)) \<longleftrightarrow>
      (\<exists>js. map_of obj ''attachments'' = Some (JArr js) \<and> map canonicalize js = map (canonicalize \<circ> attachment_json) (im_attachments m)) \<and>
      \<not> (im_text m = [] \<and> im_attachments m = []) \<and> list_all (\<lambda>a. wa_path a \<noteq> []) (im_attachments m)"
    (is "?L \<longleftrightarrow> ?R")
  proof (cases "\<exists>js. map_of obj ''attachments'' = Some (JArr js)")
    case True
    then obtain js where js: "map_of obj ''attachments'' = Some (JArr js)" by blast
    have "?L \<longleftrightarrow> \<not> (im_text m = [] \<and> js = []) \<and> those (map validate_attachment js) = Some (im_attachments m)" using js by simp
    also have "\<dots> \<longleftrightarrow> ?R" unfolding at [OF js] using js len by auto
    finally show ?thesis .
  qed blast
  show ?thesis
    unfolding JObj validateInboundMessage_Some att canon_inbound [OF ok] validate_parent_Some nonempty_string_Some jstring_Some
      sp valid_inbound_def
    by blast
qed (auto simp: validateInboundMessage_def inbound_json_def)

section \<open>The contract of the supervisor's guards\<close>

text \<open>What the handlers rely on: authentication of a known adapter does not throw.\<close>

locale core_service =
  fixes has :: "string \<Rightarrow> bool" and auth :: "string \<Rightarrow> string \<Rightarrow> (registry_error, bool) result" and accepts :: "string \<Rightarrow> string \<Rightarrow> bool"
  assumes auth_known: "has a \<Longrightarrow> auth a secret = Inr (accepts a secret)"
begin

definition serves :: "'s core_api \<Rightarrow> bool" where
  "serves api \<longleftrightarrow> api_hasAdapter api = has \<and> api_authenticateInbound api = auth"

definition admitted :: "string \<Rightarrow> request \<Rightarrow> bool" where
  "admitted a req \<longleftrightarrow> has a \<and> (\<exists>secret. rq_secret req = Some secret \<and> secret \<noteq> [] \<and> accepts a secret)"

lemma authenticate_cases:
  "serves api \<Longrightarrow> authenticate api errorId a req =
     (if \<not> has a then Inl (404, error_body ''unknown adapter'')
      else if admitted a req then Inr () else Inl (401, error_body ''invalid shared secret''))"
  by (auto simp: authenticate_def serves_def admitted_def auth_known split: option.splits)

end

definition supervisor_auth :: "registry \<Rightarrow> string \<Rightarrow> string \<Rightarrow> (registry_error, bool) result" where
  "supervisor_auth reg adapterId presentedSecret =
     (if \<not> hasAdapter reg adapterId then Inr False else authenticateInbound reg adapterId presentedSecret)"

definition secret_matches :: "registry \<Rightarrow> string \<Rightarrow> string \<Rightarrow> bool" where
  "secret_matches reg a secret \<longleftrightarrow> (\<exists>r. map_get reg a = Some r \<and> secret = ar_sharedSecret r)"

interpretation service: core_service "hasAdapter reg" "supervisor_auth reg" "secret_matches reg" for reg
  by unfold_locales (auto simp: hasAdapter_def supervisor_auth_def authenticateInbound_def requireAdapter_def
      secret_matches_def secretEquals_def Let_def)

text \<open>The operations the supervisor offers on a registry.\<close>

definition supervisor_api :: "registry \<Rightarrow> (string \<Rightarrow> InboundMessage \<Rightarrow> 's \<Rightarrow> (inbound_throw, InboundResult) result \<times> 's)
    \<Rightarrow> (string \<Rightarrow> string \<Rightarrow> 's \<Rightarrow> bool \<times> 's) \<Rightarrow> 's core_api" where
  "supervisor_api reg process dismissal =
     \<lparr>api_hasAdapter = hasAdapter reg, api_authenticateInbound = supervisor_auth reg,
      api_processInbound = process, api_dismissEngagement = dismissal\<rparr>"

lemma serves_supervisor: "service.serves reg (supervisor_api reg process dismissal)"
  by (simp add: service.serves_def supervisor_api_def)

lemma supervisor_api_process [simp]:
  "api_processInbound (supervisor_api reg process dismissal) = process" "api_dismissEngagement (supervisor_api reg process dismissal) = dismissal"
  by (simp_all add: supervisor_api_def)

lemma readBoundedBody_spec:
  "readBoundedBody n cs rest = (if n + length (concat rest) \<le> MAX_BODY_BYTES \<or> rest = [] then Some (concat (cs @ rest)) else None)"
  by (induction rest arbitrary: n cs) auto

lemma accept_body_Inr:
  "accept_body req = Inr m \<longleftrightarrow> rq_contentType req = Some INBOUND_MESSAGE_MEDIA_TYPE \<and>
     0 < length (concat (rq_chunks req)) \<and> length (concat (rq_chunks req)) \<le> MAX_BODY_BYTES \<and>
     (\<exists>j. json_parse (rq_utf8 req (concat (rq_chunks req))) = Some j \<and> canonicalize j = canonicalize (inbound_json m) \<and> valid_inbound m)"
proof -
  have v: "json_parse t = Some j \<Longrightarrow> validateInboundMessage j = Some m \<longleftrightarrow> canonicalize j = canonicalize (inbound_json m) \<and> valid_inbound m" for t j
    using validate_iff json_parse_ok by blast
  have b: "accept_body req = Inr m \<longleftrightarrow> rq_contentType req = Some INBOUND_MESSAGE_MEDIA_TYPE \<and>
     0 < length (concat (rq_chunks req)) \<and> length (concat (rq_chunks req)) \<le> MAX_BODY_BYTES \<and>
     (\<exists>j. json_parse (rq_utf8 req (concat (rq_chunks req))) = Some j \<and> validateInboundMessage j = Some m)"
    by (auto simp: accept_body_def readBoundedBody_spec split: option.splits)
  show ?thesis unfolding b using v by blast
qed

lemma accept_body_Inl: "accept_body req = Inl resp \<Longrightarrow> fst resp = 400"
  by (auto simp: accept_body_def split: option.splits if_splits)

lemmas authenticate_supervisor = service.authenticate_cases [OF serves_supervisor]

lemma handleInboundMessage_cases:
  "handleInboundMessage (supervisor_api reg process dismissal) errorId a req s =
    (if \<not> hasAdapter reg a then ((404, error_body ''unknown adapter''), s)
     else if \<not> service.admitted reg a req then ((401, error_body ''invalid shared secret''), s)
     else (case accept_body req of
        Inl resp \<Rightarrow> (resp, s)
      | Inr m \<Rightarrow> (case process a m s of (out, s') \<Rightarrow> (inbound_response errorId out, s'))))"
  by (cases "accept_body req") (simp_all add: handleInboundMessage_def authenticate_supervisor)

lemma handleDismissEngagement_cases:
  "handleDismissEngagement (supervisor_api reg process dismissal) errorId a k req s =
    (if \<not> hasAdapter reg a then ((404, error_body ''unknown adapter''), s)
     else if \<not> service.admitted reg a req then ((401, error_body ''invalid shared secret''), s)
     else (case dismissal a k s of (d, s') \<Rightarrow> ((200, JObj [(''dismissed'', JBool d)]), s')))"
  by (simp add: handleDismissEngagement_def authenticate_supervisor)

lemma admitted_secret:
  "service.admitted reg a req \<longleftrightarrow> (\<exists>r. map_get reg a = Some r \<and> rq_secret req = Some (ar_sharedSecret r) \<and> ar_sharedSecret r \<noteq> [])"
  by (auto simp: service.admitted_def secret_matches_def hasAdapter_def)

text \<open>
  C37. Only an authenticated, well-formed request reaches the supervisor. When a request changes
  the state, is accepted (202) or answered with a conflict (409), then it names a registered
  adapter and carries that adapter's secret, and it is either a POST to the adapter's message
  route with the v1 media type and a non-empty body of at most 1 MiB that is the JSON of a valid
  message, whose processing gives the answer, or a DELETE of one of the adapter's engagements.\<close>

theorem inbound_route_guarded:
  assumes "route (supervisor_api reg process dismissal) errorId req s = ((code, body), s')"
    and "s' \<noteq> s \<or> code = 202 \<or> code = 409"
  shows "\<exists>path a r. rq_pathname req = Some path \<and> map_get reg a = Some r \<and> rq_secret req = Some (ar_sharedSecret r) \<and>
    ((rq_method req = Some ''POST'' \<and> matchRoute path messages_template = Inr (Some a) \<and>
      rq_contentType req = Some INBOUND_MESSAGE_MEDIA_TYPE \<and>
      0 < length (concat (rq_chunks req)) \<and> length (concat (rq_chunks req)) \<le> MAX_BODY_BYTES \<and>
      (\<exists>j m out. json_parse (rq_utf8 req (concat (rq_chunks req))) = Some j \<and> canonicalize j = canonicalize (inbound_json m) \<and>
         valid_inbound m \<and> process a m s = (out, s') \<and> (code, body) = inbound_response errorId out)) \<or>
     (rq_method req = Some ''DELETE'' \<and>
      (\<exists>k d. matchEngagementRoute path = Inr (Some (a, k)) \<and> dismissal a k s = (d, s') \<and>
         (code, body) = (200, JObj [(''dismissed'', JBool d)]))))"
proof -
  let ?api = "supervisor_api reg process dismissal"
  obtain path where path: "rq_pathname req = Some path" using assms by (cases "rq_pathname req") (auto simp: route_def handleInternalError_def)
  consider (post) a where "matchRoute path messages_template = Inr (Some a)" "rq_method req = Some ''POST''"
      "handleInboundMessage ?api errorId a req s = ((code, body), s')"
    | (delete) a k where "matchEngagementRoute path = Inr (Some (a, k))" "rq_method req = Some ''DELETE''"
      "handleDismissEngagement ?api errorId a k req s = ((code, body), s')"
    using assms path by (auto simp: route_def Let_def handleInternalError_def split: option.splits sum.splits if_splits)
  then show ?thesis
  proof cases
    case post
    then obtain m where m: "service.admitted reg a req" "accept_body req = Inr m"
        "(case process a m s of (out, s') \<Rightarrow> (inbound_response errorId out, s')) = ((code, body), s')"
      using assms(2) by (auto simp: handleInboundMessage_cases dest: accept_body_Inl split: if_splits sum.splits)
    then show ?thesis using post path m(2) [unfolded accept_body_Inr] m(1) [unfolded admitted_secret]
      by (auto split: prod.splits)
  next
    case delete
    then have d: "service.admitted reg a req"
        "(case dismissal a k s of (d, s') \<Rightarrow> ((200, JObj [(''dismissed'', JBool d)]), s')) = ((code, body), s')"
      using assms(2) by (auto simp: handleDismissEngagement_cases split: if_splits)
    then show ?thesis using delete path d(1) [unfolded admitted_secret] by (auto split: prod.splits)
  qed
qed

definition w_reg :: registry where
  "w_reg = [(''web'', \<lparr>ar_adapterId = ''web'', ar_callbackUrl = ''http://h/cb'', ar_sharedSecret = ''s1'', ar_agentId = Some (JStr ''helper'')\<rparr>)]"

definition w_inbound :: InboundMessage where
  "w_inbound = \<lparr>im_messageId = ''m'', im_conversationKey = ''k'', im_parentConversationKey = None, im_speaker = \<lparr>sp_id = ''u'', sp_displayName = ''U''\<rparr>,
     im_text = ''x'', im_attachments = [], im_addressed = True\<rparr>"

definition w_req :: request where
  "w_req = \<lparr>rq_method = Some ''POST'', rq_pathname = Some ''/v1/adapters/web/messages'', rq_secret = Some ''s1'',
     rq_contentType = Some INBOUND_MESSAGE_MEDIA_TYPE, rq_chunks = [map of_char (json_stringify (inbound_json w_inbound))], rq_utf8 = map char_of\<rparr>"

lemma w_req_body: "accept_body w_req = Inr w_inbound"
proof -
  have "length (json_stringify (inbound_json w_inbound)) = 123" by code_simp
  moreover have "map char_of (map of_char t :: nat list) = t" for t :: string by (simp add: comp_def)
  moreover have "valid_inbound w_inbound" by code_simp
  ultimately show ?thesis unfolding accept_body_Inr
    by (simp add: w_req_def MAX_BODY_BYTES_def json_parse_stringify)
qed

lemma w_req_path: "matchRoute ''/v1/adapters/web/messages'' messages_template = Inr (Some ''web'')"
  by code_simp

lemma w_req_accepted:
  "route (supervisor_api w_reg (\<lambda>a m n. (Inr (Accepted ''c1''), Suc n)) (\<lambda>a k n. (False, n))) ''e'' w_req 0 =
     ((202, JObj [(''status'', JStr ''accepted''), (''correlationId'', JStr ''c1'')]), Suc 0)"
proof -
  have p: "rq_pathname w_req = Some ''/v1/adapters/web/messages''" "rq_method w_req = Some ''POST''" "rq_secret w_req = Some ''s1''"
    by (simp_all add: w_req_def)
  have "service.admitted w_reg ''web'' w_req" "hasAdapter w_reg ''web''"
    unfolding admitted_secret by (simp_all add: p w_reg_def map_get_def hasAdapter_def)
  then show ?thesis
    by (simp add: route_def p w_req_path handleInboundMessage_cases w_req_body inbound_response_def)
qed

theorem inbound_route_guarded_witness:
  "\<exists>r. map_get w_reg ''web'' = Some r \<and> rq_secret w_req = Some (ar_sharedSecret r) \<and> length (concat (rq_chunks w_req)) \<le> MAX_BODY_BYTES"
proof -
  show ?thesis using inbound_route_guarded [OF w_req_accepted] w_req_path by (auto simp: w_req_def)
qed

section \<open>The path of an adapter\<close>

text \<open>
  \<open>encodeURIComponent\<close>, and the path under which the HTTP adapter
  (\<open>packages/http-adapter/src/server.ts\<close>) posts to the core.
\<close>

definition uri_unreserved :: "char \<Rightarrow> bool" where
  "uri_unreserved c \<longleftrightarrow> is_digit c \<or> (65 \<le> (of_char c :: nat) \<and> (of_char c :: nat) \<le> 90) \<or> (97 \<le> (of_char c :: nat) \<and> (of_char c :: nat) \<le> 122) \<or>
     c \<in> set ''-_.!~*()'' \<or> (of_char c :: nat) = 39"

definition hex_upper :: "nat \<Rightarrow> char" where
  "hex_upper d = (if d < 10 then char_of (48 + d) else char_of (55 + d))"

definition percent_byte :: "nat \<Rightarrow> string" where
  "percent_byte b = [CHR ''%'', hex_upper (b div 16), hex_upper (b mod 16)]"

definition encodeURIComponent :: "string \<Rightarrow> string" where
  "encodeURIComponent s = concat (map (\<lambda>c. if uri_unreserved c then [c] else concat (map percent_byte (utf8_char c))) s)"

definition messages_path :: "string \<Rightarrow> string" where
  "messages_path adapterId = ''/v1/adapters/'' @ encodeURIComponent adapterId @ ''/messages''"

lemma hex_val_upper [simp]: "d < 16 \<Longrightarrow> hex_val (hex_upper d) = Some d"
  by (auto simp: hex_val_def hex_upper_def Let_def)

lemma decode_two:
  assumes "hex_val a = Some x" "hex_val b = Some y" "hex_val a' = Some x'" "hex_val b' = Some y'"
  shows "16 * x + y = 194 \<or> 16 * x + y = 195 \<Longrightarrow> 128 \<le> 16 * x' + y' \<Longrightarrow> 16 * x' + y' < 192 \<Longrightarrow>
    decodeURIComponent (CHR ''%'' # a # b # CHR ''%'' # a' # b' # t) =
      map_option ((#) (char_of ((16 * x + y - 192) * 64 + (16 * x' + y' - 128)))) (decodeURIComponent t)"
  using assms by auto

lemma decode_encoded_char:
  "decodeURIComponent ((if uri_unreserved c then [c] else concat (map percent_byte (utf8_char c))) @ t) =
     map_option ((#) c) (decodeURIComponent t)"
proof -
  define n where "n = (of_char c :: nat)"
  have c: "c = char_of n" by (simp add: n_def)
  have n256: "n < 256" unfolding n_def by (rule nat_of_char_less_256)
  consider "uri_unreserved c" | "\<not> uri_unreserved c" "n < 128" | "\<not> uri_unreserved c" "128 \<le> n" by linarith
  then show ?thesis
  proof cases
    case 1
    then have "c \<noteq> CHR ''%''" by (auto simp: uri_unreserved_def is_digit_def)
    then show ?thesis using 1 by simp
  next
    case 2
    then have "n div 16 < 16" "n mod 16 < 16" "16 * (n div 16) + n mod 16 = n" by auto
    then show ?thesis using 2 by (simp add: utf8_char_def percent_byte_def Let_def flip: n_def) (simp add: c)
  next
    case 3
    let ?b = "192 + n div 64" and ?b' = "128 + n mod 64"
    have d: "?b div 16 < 16" "?b mod 16 < 16" "16 * (?b div 16) + ?b mod 16 = ?b" "?b' div 16 < 16" "?b' mod 16 < 16"
        "16 * (?b' div 16) + ?b' mod 16 = ?b'" "128 \<le> ?b'" "?b' < 192" "\<not> ?b < 128"
      using n256 by auto
    have "2 \<le> n div 64" "n div 64 < 4" using 3(2) n256 by (simp_all add: less_eq_div_iff_mult_less_eq less_mult_imp_div_less)
    then have b: "?b = 194 \<or> ?b = 195" by linarith
    have v: "(?b - 192) * 64 + (?b' - 128) = n" by simp
    have e: "concat (map percent_byte (utf8_char c)) = percent_byte ?b @ percent_byte ?b'"
      using 3 by (simp add: utf8_char_def Let_def flip: n_def)
    have "decodeURIComponent (percent_byte ?b @ percent_byte ?b' @ t) = map_option ((#) (char_of n)) (decodeURIComponent t)"
      unfolding percent_byte_def append.simps
      using decode_two [OF hex_val_upper [OF d(1)] hex_val_upper [OF d(2)] hex_val_upper [OF d(4)] hex_val_upper [OF d(5)], of t]
      unfolding d(3,6) v using b d(7,8) by simp
    then show ?thesis using 3(1) unfolding e by (simp only: if_False append_assoc flip: c)
  qed
qed

lemma decode_encode [simp]: "decodeURIComponent (encodeURIComponent s) = Some s"
proof (induction s)
  case (Cons c s)
  then show ?case using decode_encoded_char [of c "encodeURIComponent s"] by (simp add: encodeURIComponent_def del: decodeURIComponent.simps)
qed (simp add: encodeURIComponent_def)


lemma encode_no_slash: "CHR ''/'' \<notin> set (encodeURIComponent s)"
proof -
  have h: "hex_upper d \<noteq> CHR ''/''" if "d < 16" for d
    using hex_val_upper [OF that] by (auto simp: hex_val_def)
  have b: "CHR ''/'' \<notin> set (percent_byte n)" if "n < 256" for n
  proof -
    have "n div 16 < 16" "n mod 16 < 16" using that by auto
    then show ?thesis using h [of "n div 16"] h [of "n mod 16"] by (simp add: percent_byte_def)
  qed
  have "n < 256" if "n \<in> set (utf8_char c)" for n c
    using that less_mult_imp_div_less [of "of_char c" 64 64] nat_of_char_less_256 [of c]
    by (auto simp: utf8_char_def Let_def split: if_splits)
  then show ?thesis using b by (auto simp: encodeURIComponent_def uri_unreserved_def is_digit_def split: if_splits)
qed

lemma encode_nonempty: "s \<noteq> [] \<Longrightarrow> encodeURIComponent s \<noteq> []"
  using decode_encode [of s] by (metis decodeURIComponent.simps(1) option.inject)

lemma js_split_at: "c \<notin> set a \<Longrightarrow> js_split c (a @ c # b) = a # js_split c b"
  by (induction a) auto

lemma js_split_last: "c \<notin> set a \<Longrightarrow> js_split c a = [a]"
  by (induction a) auto

lemma messages_path_parts:
  "a \<noteq> [] \<Longrightarrow> path_parts (messages_path a) = [''v1'', ''adapters'', encodeURIComponent a, ''messages'']"
  using js_split_at [OF encode_no_slash, of a "''messages''"] encode_nonempty [of a]
  by (simp add: path_parts_def messages_path_def)





end
