(* ===== verification/Supervisor_Hooks.thy ===== *)
theory Supervisor_Hooks
  imports Idempotency_Store Emitter_Delivery
begin

text \<open>
  The durable lifecycle hooks that \<open>packages/core/src/supervisor.ts\<close> gives to every emitter
  (\<open>createEmitterWithMessages\<close>): they save, confirm or fail the terminal event on all rows of
  the correlation in the idempotency store. The contract the emitter's delivery relies on is
  a locale; its interpretation on the store shows that an acknowledged terminal event is
  never posted again.

  \<open>msg\<close> is the message text of an error of the store, \<open>ts\<close> the clock. The set of message ids
  that the hooks also fill is written but never read, and is left out.
\<close>

section \<open>The hooks\<close>

definition hook_event :: "json \<Rightarrow> bool" where
  "hook_event event \<longleftrightarrow> jget ''type'' event = Some (JStr ''turn.reply'') \<or> jget ''type'' event = Some (JStr ''turn.error'')"

text \<open>A throw of the store as a throw of the hook.\<close>

definition hook_throw :: "(idem_error \<Rightarrow> string) \<Rightarrow> (idem_error, unit) result \<times> idem_row list \<Rightarrow> (string, unit) result \<times> idem_row list" where
  "hook_throw msg out = (case out of (Inl e, rows) \<Rightarrow> (Inl (msg e), rows) | (Inr u, rows) \<Rightarrow> (Inr u, rows))"

definition resolveEntries :: "(idem_error \<Rightarrow> string) \<Rightarrow> string \<Rightarrow> string \<Rightarrow> (idem_row list \<Rightarrow> (string, unit) result \<times> idem_row list) \<Rightarrow> idem_row list
    \<Rightarrow> (string, unit) result \<times> idem_row list" where
  "resolveEntries msg a c k rows =
     (case getEntriesByCorrelation rows a c of Inl e \<Rightarrow> (Inl (msg e), rows) | Inr entries \<Rightarrow> k rows)"

definition event_id_arg :: "json \<Rightarrow> string" where
  "event_id_arg event = (case event_id event of Some i \<Rightarrow> i | None \<Rightarrow> [])"

definition onDurablePrepared :: "(idem_error \<Rightarrow> string) \<Rightarrow> string \<Rightarrow> string \<Rightarrow> string \<Rightarrow> json \<Rightarrow> idem_row list \<Rightarrow> (string, unit) result \<times> idem_row list" where
  "onDurablePrepared msg ts a c event rows =
     (if \<not> hook_event event then (Inr (), rows)
      else resolveEntries msg a c (\<lambda>rows. hook_throw msg (saveResponseForCorrelation ts rows a c event)) rows)"

definition onDurableDelivered :: "(idem_error \<Rightarrow> string) \<Rightarrow> string \<Rightarrow> string \<Rightarrow> string \<Rightarrow> json \<Rightarrow> idem_row list \<Rightarrow> (string, unit) result \<times> idem_row list" where
  "onDurableDelivered msg ts a c event rows =
     (if \<not> hook_event event then (Inr (), rows)
      else resolveEntries msg a c (\<lambda>rows. hook_throw msg (markCorrelationSent ts rows a c (event_id_arg event))) rows)"

definition onDurableFailed :: "(idem_error \<Rightarrow> string) \<Rightarrow> string \<Rightarrow> string \<Rightarrow> string \<Rightarrow> json \<Rightarrow> string \<Rightarrow> idem_row list \<Rightarrow> (string, unit) result \<times> idem_row list" where
  "onDurableFailed msg ts a c event err rows =
     (if \<not> hook_event event then (Inr (), rows)
      else resolveEntries msg a c (\<lambda>rows. hook_throw msg (markCorrelationFailed ts rows a c (event_id_arg event) (Some err))) rows)"

section \<open>The contract of the hooks\<close>

text \<open>
  \<open>ok\<close>: the state of the provider is sound; \<open>holds e h\<close>: the event has been recorded;
  \<open>other\<close>: what others may do to the state meanwhile.
\<close>

locale durable_hooks =
  fixes ok :: "'h \<Rightarrow> bool" and records :: "json \<Rightarrow> bool" and holds :: "json \<Rightarrow> 'h \<Rightarrow> bool" and confirmed :: "'h \<Rightarrow> bool" and other :: "'h \<Rightarrow> 'h \<Rightarrow> bool"
    and prepared :: "json \<Rightarrow> 'h \<Rightarrow> (string, unit) result \<times> 'h" and delivered :: "json \<Rightarrow> 'h \<Rightarrow> (string, unit) result \<times> 'h"
    and failed :: "json \<Rightarrow> string \<Rightarrow> 'h \<Rightarrow> (string, unit) result \<times> 'h"
  assumes prepared_holds: "ok h \<Longrightarrow> records e \<Longrightarrow> prepared e h = (Inr (), h') \<Longrightarrow> ok h' \<and> holds e h'"
    and delivered_works: "ok h \<Longrightarrow> records e \<Longrightarrow> holds e h \<Longrightarrow> \<exists>h'. delivered e h = (Inr (), h') \<and> ok h' \<and> holds e h' \<and> confirmed h'"
    and failed_works: "ok h \<Longrightarrow> records e \<Longrightarrow> holds e h \<Longrightarrow> \<exists>h'. failed e err h = (Inr (), h') \<and> ok h' \<and> holds e h'"
    and other_holds: "ok h \<Longrightarrow> records e \<Longrightarrow> holds e h \<Longrightarrow> other h h' \<Longrightarrow> ok h' \<and> holds e h'"
begin

lemma others_hold: "other\<^sup>*\<^sup>* h h' \<Longrightarrow> ok h \<Longrightarrow> records e \<Longrightarrow> holds e h \<Longrightarrow> ok h' \<and> holds e h'"
  by (induction rule: rtranclp_induct) (auto dest: other_holds)

text \<open>Confirmation works after preparation, whatever others did in between.\<close>

lemma confirm_after_prepare:
  assumes "ok h" "records e" "prepared e h = (Inr (), h1)" "other\<^sup>*\<^sup>* h1 h2"
  shows "\<exists>h3. delivered e h2 = (Inr (), h3) \<and> ok h3 \<and> holds e h3 \<and> confirmed h3"
  using delivered_works others_hold [OF assms(4)] prepared_holds [OF assms(1-3)] assms(2) by blast

text \<open>An acknowledged attempt ends the delivery.\<close>

lemma acknowledged_ends:
  assumes "em_deliveryChain s = (w, Attempting event payload target n err) # rest" "\<not> em_closed s" "n < total_posts opts"
    "at_sign target payload = Inr sig" "acked f" "ok (em_hooks s)" "records event" "holds event (em_hooks s)"
    "ee_delivered env = delivered" "s' = chain_step opts env f s"
  shows "em_deliveryChain s' = rest \<and> status_is ODelivered (event_row event s') \<and> confirmed (em_hooks s')"
proof -
  obtain h' where h': "delivered event (em_hooks s) = (Inr (), h')" "confirmed h'" using delivered_works assms(6-8) by blast
  then show ?thesis using ack_step [OF assms(1-5) _ assms(10)] assms(9) by (simp add: status_is_map)
qed

end

section \<open>The store provides the contract\<close>

definition hook_records :: "json \<Rightarrow> bool" where
  "hook_records event \<longleftrightarrow> json_ok event \<and> hook_event event \<and> event_id event \<noteq> None"

definition row_holds :: "json \<Rightarrow> idem_row \<Rightarrow> bool" where
  "row_holds event r \<longleftrightarrow> ie_deliveryState r \<noteq> DPending \<and> response_event_id (entry_of r) = jget ''eventId'' event"

definition corr_holds :: "string \<Rightarrow> string \<Rightarrow> json \<Rightarrow> idem_row list \<Rightarrow> bool" where
  "corr_holds a c event rows \<longleftrightarrow> (\<forall>r \<in> set rows. of_corr a c r \<longrightarrow> row_holds event r)"

definition corr_sent :: "string \<Rightarrow> string \<Rightarrow> idem_row list \<Rightarrow> bool" where
  "corr_sent a c rows \<longleftrightarrow> (\<forall>r \<in> set rows. of_corr a c r \<longrightarrow> ie_deliveryState r = DSent)"

text \<open>Any call of the store that does not let a further message join the correlation.\<close>

definition other_step :: "string \<Rightarrow> string \<Rightarrow> idem_row list \<Rightarrow> idem_row list \<Rightarrow> bool" where
  "other_step a c rows rows' \<longleftrightarrow> idem_step rows rows' \<and> (\<forall>r \<in> set rows'. of_corr a c r \<longrightarrow> idem_row rows a (ie_messageId r) \<noteq> None)"

lemma event_id_arg: "event_id event \<noteq> None \<Longrightarrow> jget ''eventId'' event = Some (JStr (event_id_arg event))"
  by (cases "jget ''eventId'' event"; cases "the (jget ''eventId'' event)") (auto simp: event_id_def event_id_arg_def)

lemma row_holds_keep:
  "row_holds event r \<Longrightarrow> ie_response r' = ie_response r \<Longrightarrow> ie_deliveryState r' \<noteq> DPending \<Longrightarrow> row_holds event r'"
  by (simp add: row_holds_def response_event_id_def entry_of_def)

lemma corr_holds_update:
  assumes "corr_holds a c event rows" "\<And>r. row_holds event r \<Longrightarrow> row_holds event (f r)"
    "\<And>r. of_corr a c (f r) \<longleftrightarrow> of_corr a c r"
  shows "corr_holds a c event (fst (sql_update P f rows))"
  using assms by (auto simp: corr_holds_def sql_update_def)

lemma hook_event_terminal: "hook_event event \<Longrightarrow> isTerminalEventType (jget ''type'' event)"
  by (auto simp: hook_event_def isTerminalEventType_def TERMINAL_EVENT_TYPES_def)

lemma prepared_saves:
  assumes ok: "idem_ok rows" and e: "hook_records event" and p: "onDurablePrepared msg ts a c event rows = (Inr (), rows')"
  shows "idem_ok rows' \<and> corr_holds a c event rows'"
proof -
  have ev: "json_ok event" "hook_event event" using e by (auto simp: hook_records_def)
  obtain n where n: "count_pending a event (map entry_of (corr_rows rows a c)) 0 = Inr n"
    and corr: "jget ''correlationId'' event = Some (JStr c)"
    and rows': "rows' = fst (sql_update (\<lambda>r. of_corr a c r \<and> ie_deliveryState r = DPending \<and> event_for event r) (save_row ts event) rows)"
    using p ev by (auto simp: onDurablePrepared_def resolveEntries_def getEntriesByCorrelation_ok [OF ok] hook_throw_def
        saveResponseForCorrelation_cases [OF ok ev(1)] hook_event_terminal split: sum.splits if_splits)
  have row: "event_for event r \<or> row_holds event r" "ie_deliveryState r = DPending \<longrightarrow> event_for event r"
    if "r \<in> set rows" "of_corr a c r" for r
    using n that ev corr hook_event_terminal by (auto simp: count_pending_Inr_iff event_for_def row_holds_def)
  have saved: "row_holds event (save_row ts event r)" for r
    using json_parse_stringify [OF ev(1)] by (simp add: row_holds_def save_row_def response_event_id_def entry_of_def)
  have "corr_holds a c event rows'"
    using row saved n by (fastforce simp: rows' corr_holds_def sql_update_def count_pending_Inr_iff row_holds_def)
  then show ?thesis using csav.tbl_ok_update [OF ok] by (simp add: rows')
qed

lemma delivered_confirms:
  assumes ok: "idem_ok rows" and e: "hook_records event" and h: "corr_holds a c event rows"
  shows "\<exists>rows'. onDurableDelivered msg ts a c event rows = (Inr (), rows') \<and> idem_ok rows' \<and> corr_holds a c event rows' \<and> corr_sent a c rows'"
proof -
  have id: "jget ''eventId'' event = Some (JStr (event_id_arg event))" using e by (simp add: hook_records_def event_id_arg)
  obtain n where "count_state (CannotConfirmDelivery a) (\<lambda>d. d \<noteq> DSent) (event_id_arg event) (map entry_of (corr_rows rows a c)) 0 = Inr n"
    using h id by (auto simp: count_state_Inr_iff corr_holds_def row_holds_def)
  then have "onDurableDelivered msg ts a c event rows = (Inr (), fst (sql_update (\<lambda>r. of_corr a c r \<and> unsent r) (sent_row ts) rows))"
    using e by (simp add: onDurableDelivered_def hook_records_def resolveEntries_def getEntriesByCorrelation_ok [OF ok] hook_throw_def markCorrelationSent_cases [OF ok])
  moreover have "corr_holds a c event (fst (sql_update (\<lambda>r. of_corr a c r \<and> unsent r) (sent_row ts) rows))"
    by (rule corr_holds_update [OF h]) (auto simp: sent_row_def elim: row_holds_keep)
  moreover have sent: "ie_deliveryState r = DSent" if "r \<in> set rows" "of_corr a c r" "\<not> unsent r" for r
  proof -
    have "ie_deliveryState r \<noteq> DPending" using h that(1,2) by (simp add: corr_holds_def row_holds_def)
    then show ?thesis using that(3) unsent_iff by blast
  qed
  have "corr_sent a c (fst (sql_update (\<lambda>r. of_corr a c r \<and> unsent r) (sent_row ts) rows))"
    unfolding corr_sent_def sql_update_def fst_conv set_map
  proof (intro ballI impI, elim imageE)
    fix r' r assume "r' = (if of_corr a c r \<and> unsent r then sent_row ts r else r)" "r \<in> set rows" "of_corr a c r'"
    then show "ie_deliveryState r' = DSent" using sent [of r] by (auto simp: sent_row_def split: if_splits)
  qed
  ultimately show ?thesis using csnt.tbl_ok_update [OF ok] by blast
qed

lemma failed_records:
  assumes ok: "idem_ok rows" and e: "hook_records event" and h: "corr_holds a c event rows"
  shows "\<exists>rows'. onDurableFailed msg ts a c event err rows = (Inr (), rows') \<and> idem_ok rows' \<and> corr_holds a c event rows'"
proof -
  have id: "jget ''eventId'' event = Some (JStr (event_id_arg event))" using e by (simp add: hook_records_def event_id_arg)
  obtain n where "count_state (CannotRecordFailure a) (\<lambda>d. d = DSaved) (event_id_arg event) (map entry_of (corr_rows rows a c)) 0 = Inr n"
    using h id by (auto simp: count_state_Inr_iff corr_holds_def row_holds_def)
  then have "onDurableFailed msg ts a c event err rows = (Inr (), fst (sql_update (\<lambda>r. of_corr a c r \<and> ie_deliveryState r = DSaved) (failed_row ts (Some err)) rows))"
    using e by (simp add: onDurableFailed_def hook_records_def resolveEntries_def getEntriesByCorrelation_ok [OF ok] hook_throw_def markCorrelationFailed_cases [OF ok])
  moreover have "corr_holds a c event (fst (sql_update (\<lambda>r. of_corr a c r \<and> ie_deliveryState r = DSaved) (failed_row ts (Some err)) rows))"
    by (rule corr_holds_update [OF h]) (auto simp: failed_row_def elim: row_holds_keep)
  ultimately show ?thesis using cfld.tbl_ok_update [OF ok] by simp
qed

lemma row_phase_moves:
  assumes "row_phase r = row_phase r0 \<or> phase_step (row_phase r0) (row_phase r)" "row_ok r" "row_ok r0"
  shows "ident_of r = ident_of r0 \<and> (ie_deliveryState r0 \<noteq> DPending \<longrightarrow> ie_deliveryState r \<noteq> DPending \<and> ie_response r = ie_response r0)"
proof -
  have ident: "phase_ident (row_phase r) = phase_ident (row_phase r0)"
    using assms(1) row_phase_rank(2) [of r] row_phase_rank(2) [of r0] by (auto elim!: phase_step.cases)
  have "phase_rank (row_phase r) \<ge> 2 \<and> phase_response (row_phase r) = phase_response (row_phase r0)" if "phase_rank (row_phase r0) \<ge> 2"
    using assms(1) that phase_step_keeps [of "row_phase r0" "row_phase r"] by auto
  then show ?thesis using ident row_phase_rank assms(2,3) by (metis option.inject)
qed

lemma other_step_holds:
  assumes ok: "idem_ok rows" and h: "corr_holds a c event rows" and o: "other_step a c rows rows'"
  shows "idem_ok rows' \<and> corr_holds a c event rows'"
proof -
  have st: "idem_step rows rows'" using o by (simp add: other_step_def)
  note pm = phase_moves_step [OF ok st]
  have "row_holds event r" if r: "r \<in> set rows'" "of_corr a c r" for r
  proof -
    obtain r0 where r0: "idem_row rows a (ie_messageId r) = Some r0" using o r by (auto simp: other_step_def)
    have ok': "idem_ok rows'" using pm by blast
    have r1: "idem_row rows' a (ie_messageId r) = Some r" using row_at_in [OF ok' r(1)] r(2) by (simp add: idem_key_def)
    have "row_phase r = row_phase r0 \<or> phase_step (row_phase r0) (row_phase r)"
      using pm phase_of_Some [OF r0] phase_of_Some [OF r1] by metis
    moreover have "row_ok r" "row_ok r0" using idem_row_ok [OF ok' r1] idem_row_ok [OF ok r0] by auto
    ultimately have m: "ident_of r = ident_of r0" "ie_deliveryState r0 \<noteq> DPending \<longrightarrow> ie_deliveryState r \<noteq> DPending \<and> ie_response r = ie_response r0"
      using row_phase_moves by auto
    have "r0 \<in> set rows" "of_corr a c r0" using r0 m(1) r(2) idem_row_ok [OF ok r0] by (auto dest: row_at_SomeD simp: ident_of_def)
    then have "row_holds event r0" using h by (auto simp: corr_holds_def)
    moreover from this have "ie_deliveryState r0 \<noteq> DPending" by (simp add: row_holds_def)
    ultimately show ?thesis using m(2) row_holds_keep [of event r0 r] by simp
  qed
  then show ?thesis using pm by (simp add: corr_holds_def)
qed

interpretation hooks: durable_hooks idem_ok hook_records "corr_holds a c" "corr_sent a c" "other_step a c"
    "onDurablePrepared msg ts a c" "onDurableDelivered msg ts' a c" "onDurableFailed msg ts'' a c" for msg ts ts' ts'' a c
proof (unfold_locales, goal_cases)
  case 1 then show ?case by (rule prepared_saves)
next
  case 2 then show ?case by (rule delivered_confirms)
next
  case 3 then show ?case by (rule failed_records)
next
  case 4 then show ?case by (intro other_step_holds [OF 4(1,3,4)])
qed

section \<open>Property\<close>


definition w_event :: OutboundEvent where
  "w_event = \<lparr>ev_body = TurnReply ''hello'' [] no_usage, ev_eventId = ''e9'', ev_conversationKey = ''room'', ev_correlationId = ''c1'',
     ev_sequence = 2, ev_occurredAt = ''t''\<rparr>"

definition w_henv :: "idem_row list EmitterEnv" where
  "w_henv = \<lparr>ee_uuid = (\<lambda>n. ''e''), ee_now = (\<lambda>n. int n), ee_utc = (\<lambda>n. ''u''), ee_iso = (\<lambda>t. ''t''),
     ee_prepared = onDurablePrepared (\<lambda>e. ''error'') ''t1'' ''web'' ''c1'', ee_delivered = onDurableDelivered (\<lambda>e. ''error'') ''t2'' ''web'' ''c1'',
     ee_failed = onDurableFailed (\<lambda>e. ''error'') ''t3'' ''web'' ''c1''\<rparr>"

definition w_hstate :: "idem_row list emitter" where
  "w_hstate = (case newEmitter w_opts [outbox_row w_opts w_event] (snd (onDurablePrepared (\<lambda>e. ''error'') ''t1'' ''web'' ''c1'' (event_json w_event) w_accepted)) of
     Inr s \<Rightarrow> s\<lparr>em_deliveryChain := [(Live, Attempting (event_json w_event) (json_stringify (event_json w_event)) w_target 0 [])]\<rparr>)"


end
