(* ===== verification/Supervisor.thy ===== *)
theory Supervisor
  imports Supervisor_Hooks Session_Registry Core_Server
begin

text \<open>
  \<open>packages/core/src/supervisor.ts\<close>: the state of \<open>CoreSupervisor\<close> and its operations on an
  inbound message, a child frame, a session reset, a settled backlog and a redelivery, composed
  from the models of the components they call.

  An operation runs to its next \<open>await\<close> without interference. What an awaited call answers,
  and what the other handlers did to the supervisor until then, is a field of \<open>world\<close>: a
  function from the state at the call to the answer and the state at the resumption. A
  theorem for every \<open>world\<close> thus covers every interleaving. Correlations are objects with
  identity, kept in a list that only grows; \<open>sv_active\<close> maps a conversation to the index of its
  active one. The emitters share the outbox and the rows of the store, so an operation on an
  emitter runs on the shared tables. \<open>sv_calls\<close> is the trace of the calls to the pool and
  the children. The serialization of one conversation's messages by promise chains
  (\<open>processInbound\<close>), the message-id sets, which are never read, and logging are left out.
\<close>

section \<open>State\<close>

record ActiveCorrelation =
  ac_correlationId :: string
  ac_adapterId :: string
  ac_conversationKey :: string
  ac_emitter :: "idem_row list emitter"
  ac_lease :: "nat option"
  ac_pendingFollowUps :: nat
  ac_terminalEmitted :: bool
  ac_draining :: bool

text \<open>Calls to the pool and to a child; a child is a number.\<close>

datatype sv_call =
    CallAcquire string string
  | CallRelease nat
  | CallPrompt nat string bool "(string \<times> string) list"
  | CallAbort nat
  | CallRetireChild string string nat
  | CallRetireConversation string string
  | CallForgetExited string string nat

record supervisor =
  sv_closed :: bool
  sv_rows :: "idem_row list"
  sv_outbox :: "OutboxRow list"
  sv_buffer :: buffer_states
  sv_sessions :: SessionRegistry
  sv_corrs :: "ActiveCorrelation list"
  sv_active :: "(string, nat) js_map"
  sv_calls :: "sv_call list"
  sv_reads :: nat

datatype sv_throw =
    InboundConflictError string string
  | StoreThrew idem_error
  | EmitterThrew emitter_error
  | PoolThrew string
  | Rejected_by_agent string
  | No_lease
  | Not_an_event

type_synonym 'a sv = "supervisor \<Rightarrow> (sv_throw, 'a) result \<times> supervisor"

text \<open>What is fixed for the life of the process; \<open>su_ids i\<close> is the clock and id source of the i-th emitter.\<close>

record core_setup =
  su_config :: CoreConfig
  su_adapters :: registry
  su_sha256 :: "nat list \<Rightarrow> string"
  su_hmac :: "string \<Rightarrow> nat list \<Rightarrow> string"
  su_message :: "idem_error \<Rightarrow> string"
  su_ids :: "nat \<Rightarrow> unit EmitterEnv"
  su_stamp :: "nat \<Rightarrow> string"
  su_now :: "nat \<Rightarrow> epoch_ms"
  su_uuid :: "nat \<Rightarrow> string"
  su_join :: "string \<Rightarrow> string \<Rightarrow> string"
  su_isAbsolute :: "string \<Rightarrow> bool"

text \<open>The awaited calls.\<close>

record world =
  wd_acquire :: "string \<Rightarrow> string \<Rightarrow> string option \<Rightarrow> nat sv"
  wd_prompt :: "nat \<Rightarrow> string \<Rightarrow> bool \<Rightarrow> (string \<times> string) list \<Rightarrow> bool sv"
  wd_abort :: "nat \<Rightarrow> unit sv"
  wd_retireConversation :: "string \<Rightarrow> string \<Rightarrow> unit sv"
  wd_readFile :: "string \<Rightarrow> string sv"
  wd_delivered :: "nat \<Rightarrow> unit sv"
  wd_recovered :: "string \<Rightarrow> string \<Rightarrow> unit sv"

section \<open>Control flow\<close>

definition sv_return :: "'a \<Rightarrow> 'a sv" where
  "sv_return x s = (Inr x, s)"

definition sv_raise :: "sv_throw \<Rightarrow> 'a sv" where
  "sv_raise e s = (Inl e, s)"

definition sv_bind :: "'a sv \<Rightarrow> ('a \<Rightarrow> 'b sv) \<Rightarrow> 'b sv" where
  "sv_bind m f s = (case m s of (Inl e, s') \<Rightarrow> (Inl e, s') | (Inr x, s') \<Rightarrow> f x s')"

definition sv_catch :: "'a sv \<Rightarrow> (sv_throw \<Rightarrow> 'a sv) \<Rightarrow> 'a sv" where
  "sv_catch m h s = (case m s of (Inl e, s') \<Rightarrow> h e s' | (Inr x, s') \<Rightarrow> (Inr x, s'))"

definition sv_get :: "(supervisor \<Rightarrow> 'a) \<Rightarrow> 'a sv" where
  "sv_get f s = (Inr (f s), s)"

definition sv_modify :: "(supervisor \<Rightarrow> supervisor) \<Rightarrow> unit sv" where
  "sv_modify f s = (Inr (), f s)"

text \<open>One call of the clock or the id source.\<close>

definition sv_read :: "(nat \<Rightarrow> 'a) \<Rightarrow> 'a sv" where
  "sv_read f s = (Inr (f (sv_reads s)), s\<lparr>sv_reads := Suc (sv_reads s)\<rparr>)"

definition sv_trace :: "sv_call \<Rightarrow> unit sv" where
  "sv_trace c = sv_modify (\<lambda>s. s\<lparr>sv_calls := sv_calls s @ [c]\<rparr>)"

text \<open>A call of the store, which may throw.\<close>

definition sv_store :: "(idem_row list \<Rightarrow> (idem_error, 'a) result \<times> idem_row list) \<Rightarrow> 'a sv" where
  "sv_store f s = (case f (sv_rows s) of (r, rows) \<Rightarrow> (map_sum StoreThrew id r, s\<lparr>sv_rows := rows\<rparr>))"

section \<open>Correlations and emitters\<close>

definition compositeKey :: "string \<Rightarrow> string \<Rightarrow> string" where
  "compositeKey adapterId conversationKey = show_nat (length adapterId) @ '':'' @ adapterId @ conversationKey"

definition corr_at :: "supervisor \<Rightarrow> nat \<Rightarrow> ActiveCorrelation" where
  "corr_at s i = sv_corrs s ! i"

definition upd_corr :: "nat \<Rightarrow> (ActiveCorrelation \<Rightarrow> ActiveCorrelation) \<Rightarrow> supervisor \<Rightarrow> supervisor" where
  "upd_corr i f s = s\<lparr>sv_corrs := (sv_corrs s)[i := f (sv_corrs s ! i)]\<rparr>"

definition active_of :: "string \<Rightarrow> string \<Rightarrow> supervisor \<Rightarrow> nat option" where
  "active_of a k s = map_get (sv_active s) (compositeKey a k)"

definition isStreaming :: "string \<Rightarrow> string \<Rightarrow> supervisor \<Rightarrow> bool" where
  "isStreaming a k s = (case active_of a k s of None \<Rightarrow> False | Some i \<Rightarrow> ac_lease (corr_at s i) \<noteq> None)"

definition resolveAdapterTarget :: "core_setup \<Rightarrow> string \<Rightarrow> AdapterTarget option" where
  "resolveAdapterTarget st adapterId =
     (if \<not> hasAdapter (su_adapters st) adapterId then None
      else (case getCallbackUrl (su_adapters st) adapterId of
         Inl e \<Rightarrow> None
       | Inr url \<Rightarrow> Some \<lparr>at_callbackUrl = url,
           at_sign = (\<lambda>body. case signOutbound (su_hmac st) (su_adapters st) adapterId body of
             Inl e \<Rightarrow> Inl ''unknown adapter'' | Inr sig \<Rightarrow> Inr sig)\<rparr>))"

definition corr_options :: "core_setup \<Rightarrow> ActiveCorrelation \<Rightarrow> EmitterOptions" where
  "corr_options st c = emitter_options (su_config st) (resolveAdapterTarget st) (ac_adapterId c) (ac_conversationKey c) (ac_correlationId c)"

text \<open>The clock and ids of the i-th emitter with the durable hooks of its correlation.\<close>

definition corr_env :: "core_setup \<Rightarrow> nat \<Rightarrow> ActiveCorrelation \<Rightarrow> idem_row list EmitterEnv" where
  "corr_env st i c =
     \<lparr>ee_uuid = ee_uuid (su_ids st i), ee_now = ee_now (su_ids st i), ee_utc = ee_utc (su_ids st i), ee_iso = ee_iso (su_ids st i),
      ee_prepared = onDurablePrepared (su_message st) (su_stamp st i) (ac_adapterId c) (ac_correlationId c),
      ee_delivered = onDurableDelivered (su_message st) (su_stamp st i) (ac_adapterId c) (ac_correlationId c),
      ee_failed = onDurableFailed (su_message st) (su_stamp st i) (ac_adapterId c) (ac_correlationId c)\<rparr>"

text \<open>An operation of the i-th emitter on the shared tables.\<close>

definition loaded_emitter :: "supervisor \<Rightarrow> nat \<Rightarrow> idem_row list emitter" where
  "loaded_emitter s i = (ac_emitter (corr_at s i))\<lparr>em_outbox := sv_outbox s, em_hooks := sv_rows s\<rparr>"

definition store_emitter :: "nat \<Rightarrow> idem_row list emitter \<Rightarrow> supervisor \<Rightarrow> supervisor" where
  "store_emitter i em s = (upd_corr i (ac_emitter_update (\<lambda>_. em)) s)\<lparr>sv_outbox := em_outbox em, sv_rows := em_hooks em\<rparr>"

definition emitter_do :: "core_setup \<Rightarrow> nat \<Rightarrow> (EmitterOptions \<Rightarrow> idem_row list EmitterEnv \<Rightarrow> idem_row list emit_op) \<Rightarrow> unit sv" where
  "emitter_do st i f s =
     (case f (corr_options st (corr_at s i)) (corr_env st i (corr_at s i)) (loaded_emitter s i) of
        (r, em) \<Rightarrow> (map_sum EmitterThrew id r, store_emitter i em s))"

text \<open>\<open>createEmitter\<close>, the object literal and \<open>active.set\<close>, which always go together.\<close>

definition register_correlation :: "core_setup \<Rightarrow> string \<Rightarrow> string \<Rightarrow> string \<Rightarrow> nat option \<Rightarrow> bool \<Rightarrow> nat sv" where
  "register_correlation st a k c lease terminal s =
     (case newEmitter (emitter_options (su_config st) (resolveAdapterTarget st) a k c) (sv_outbox s) (sv_rows s) of
        Inl e \<Rightarrow> (Inl (EmitterThrew e), s)
      | Inr em \<Rightarrow>
          (Inr (length (sv_corrs s)),
           s\<lparr>sv_corrs := sv_corrs s @ [\<lparr>ac_correlationId = c, ac_adapterId = a, ac_conversationKey = k, ac_emitter = em,
                ac_lease = lease, ac_pendingFollowUps = 0, ac_terminalEmitted = terminal, ac_draining = False\<rparr>],
             sv_active := map_set (sv_active s) (compositeKey a k) (length (sv_corrs s))\<rparr>))"

definition remove_active :: "string \<Rightarrow> nat \<Rightarrow> supervisor \<Rightarrow> supervisor" where
  "remove_active convKey i s =
     (if map_get (sv_active s) convKey = Some i then s\<lparr>sv_active := map_delete (sv_active s) convKey\<rparr> else s)"

text \<open>\<open>ac_draining\<close>: the emitter is closed once its delivery chain has settled.\<close>

definition cleanupCorrelation :: "string \<Rightarrow> nat \<Rightarrow> unit sv" where
  "cleanupCorrelation convKey i =
     sv_bind (sv_modify (remove_active convKey i)) (\<lambda>_.
     sv_bind (sv_get (\<lambda>s. ac_lease (corr_at s i))) (\<lambda>lease.
     sv_bind (case lease of None \<Rightarrow> sv_return () | Some child \<Rightarrow> sv_trace (CallRelease child)) (\<lambda>_.
       sv_modify (upd_corr i (\<lambda>c. c\<lparr>ac_lease := None, ac_draining := True\<rparr>)))))"

definition close_drained :: "nat \<Rightarrow> supervisor \<Rightarrow> supervisor" where
  "close_drained i s =
     (if ac_draining (corr_at s i) \<and> em_deliveryChain (ac_emitter (corr_at s i)) = []
      then upd_corr i (\<lambda>c. c\<lparr>ac_emitter := close_emitter (ac_emitter c)\<rparr>) s else s)"

section \<open>Interrupting, failing, child frames\<close>

definition set_terminal :: "nat \<Rightarrow> supervisor \<Rightarrow> supervisor" where
  "set_terminal i = upd_corr i (\<lambda>c. c\<lparr>ac_terminalEmitted := True\<rparr>)"

definition interruptTurn :: "core_setup \<Rightarrow> world \<Rightarrow> nat \<Rightarrow> unit sv" where
  "interruptTurn st w i =
     sv_bind (sv_get (\<lambda>s. compositeKey (ac_adapterId (corr_at s i)) (ac_conversationKey (corr_at s i)))) (\<lambda>convKey.
     sv_bind (emitter_do st i emitCancelled) (\<lambda>_.
     sv_bind (sv_modify (set_terminal i)) (\<lambda>_.
     sv_bind (sv_get (\<lambda>s. ac_lease (corr_at s i))) (\<lambda>lease.
     sv_bind (case lease of
                None \<Rightarrow> sv_return ()
              | Some child \<Rightarrow> sv_bind (sv_trace (CallAbort child)) (\<lambda>_. sv_catch (wd_abort w child) (\<lambda>_. sv_return ())))
       (\<lambda>_. cleanupCorrelation convKey i)))))"

definition failCorrelation :: "core_setup \<Rightarrow> string \<Rightarrow> unit sv" where
  "failCorrelation st convKey =
     sv_bind (sv_get (\<lambda>s. map_get (sv_active s) convKey)) (\<lambda>found.
       case found of
         None \<Rightarrow> sv_return ()
       | Some i \<Rightarrow>
           sv_bind (sv_get (\<lambda>s. ac_terminalEmitted (corr_at s i))) (\<lambda>terminal.
             if terminal then sv_return ()
             else sv_bind (sv_modify (set_terminal i)) (\<lambda>_.
               sv_bind (emitter_do st i (\<lambda>opts env. emitPresence opts env Offline)) (\<lambda>_.
               sv_bind (emitter_do st i (\<lambda>opts env. emitProviderError opts env ''agent_unavailable''
                   ''Agent process stopped before completing the turn'' True)) (\<lambda>_.
                 cleanupCorrelation convKey i)))))"

text \<open>The two events of a wired child that end its correlation.\<close>

definition on_child_error :: "core_setup \<Rightarrow> string \<Rightarrow> string \<Rightarrow> nat \<Rightarrow> unit sv" where
  "on_child_error st a k child =
     sv_bind (sv_trace (CallRetireChild a k child)) (\<lambda>_. failCorrelation st (compositeKey a k))"

definition on_child_exit :: "core_setup \<Rightarrow> string \<Rightarrow> string \<Rightarrow> nat \<Rightarrow> unit sv" where
  "on_child_exit st a k child =
     sv_bind (sv_get sv_closed) (\<lambda>closed.
     sv_bind (if closed then sv_return () else sv_trace (CallForgetExited a k child)) (\<lambda>_.
       failCorrelation st (compositeKey a k)))"

definition record_interaction :: "core_setup \<Rightarrow> string \<Rightarrow> string \<Rightarrow> unit sv" where
  "record_interaction st a k =
     sv_bind (sv_read (su_now st)) (\<lambda>now. sv_modify (\<lambda>s. s\<lparr>sv_buffer :=
       snd (recordInteraction \<lparr>ib_engagementWindowMs = cc_engagementWindowMs (su_config st), ib_quietPeriodMs = cc_ambientQuietPeriodMs (su_config st)\<rparr>
         (sv_buffer s) now a k)\<rparr>))"

definition sv_handleAgentEnd :: "string \<Rightarrow> nat \<Rightarrow> unit sv" where
  "sv_handleAgentEnd convKey i =
     sv_bind (sv_get (\<lambda>s. ac_terminalEmitted (corr_at s i))) (\<lambda>terminal.
       if terminal then sv_return ()
       else sv_bind (sv_modify (set_terminal i)) (\<lambda>_. cleanupCorrelation convKey i))"

definition child_frame_is :: "string \<Rightarrow> json \<Rightarrow> bool" where
  "child_frame_is ty frame \<longleftrightarrow> jget ''type'' frame = Some (JStr ty)"

definition handleChildEvent :: "core_setup \<Rightarrow> string \<Rightarrow> json \<Rightarrow> unit sv" where
  "handleChildEvent st convKey frame =
     sv_bind (sv_get (\<lambda>s. map_get (sv_active s) convKey)) (\<lambda>found.
       case found of
         None \<Rightarrow> sv_return ()
       | Some i \<Rightarrow>
           sv_bind (sv_get (\<lambda>s. corr_at s i)) (\<lambda>corr.
             if child_frame_is ''agent_end'' frame \<and> ac_pendingFollowUps corr > 0
             then sv_modify (upd_corr i (\<lambda>c. c\<lparr>ac_pendingFollowUps := ac_pendingFollowUps c - 1\<rparr>))
             else if child_frame_is ''turn_start'' frame
             then sv_bind (emitter_do st i (\<lambda>opts env. ingest_frame opts env frame)) (\<lambda>_.
                  sv_bind (emitter_do st i (\<lambda>opts env. emitPresence opts env Active)) (\<lambda>_.
                    record_interaction st (ac_adapterId corr) (ac_conversationKey corr)))
             else sv_bind (if child_frame_is ''agent_end'' frame then emitter_do st i (\<lambda>opts env. emitPresence opts env Idle) else sv_return ()) (\<lambda>_.
                  sv_bind (emitter_do st i (\<lambda>opts env. ingest_frame opts env frame)) (\<lambda>_.
                  sv_bind (if child_frame_is ''agent_end'' frame then sv_handleAgentEnd convKey i else sv_return ()) (\<lambda>_.
                    if child_frame_is ''message_update'' frame then record_interaction st (ac_adapterId corr) (ac_conversationKey corr)
                    else sv_return ())))))"

section \<open>Rules for control flow\<close>

lemma sv_bind_simps [simp]:
  "sv_bind (sv_return x) g1 s = g1 x s"
  "sv_bind (sv_raise e) g2 s = (Inl e, s)"
  "sv_bind (sv_get f) g3 s = g3 (f s) s"
  "sv_bind (sv_modify h) g4 s = g4 () (h s)"
  "sv_bind (sv_read r) g5 s = g5 (r (sv_reads s)) (s\<lparr>sv_reads := Suc (sv_reads s)\<rparr>)"
  "sv_bind (sv_trace c) g6 s = g6 () (s\<lparr>sv_calls := sv_calls s @ [c]\<rparr>)"
  "sv_bind (sv_bind m k) g7 s = sv_bind m (\<lambda>x. sv_bind (k x) g7) s"
  by (auto simp: sv_bind_def sv_return_def sv_raise_def sv_get_def sv_modify_def sv_read_def sv_trace_def split: sum.splits prod.splits)

lemma sv_run_simps [simp]:
  "sv_return x s = (Inr x, s)" "sv_raise e s = (Inl e, s)" "sv_modify h s = (Inr (), h s)"
  "sv_trace c s = (Inr (), s\<lparr>sv_calls := sv_calls s @ [c]\<rparr>)" "sv_get f s = (Inr (f s), s)"
  by (simp_all add: sv_return_def sv_raise_def sv_modify_def sv_trace_def sv_get_def)

lemma sv_bind_step: "m s = (Inr x, s') \<Longrightarrow> sv_bind m f s = f x s'"
  by (simp add: sv_bind_def)

lemma sv_bind_throw: "m s = (Inl e, s') \<Longrightarrow> sv_bind m f s = (Inl e, s')"
  by (simp add: sv_bind_def)

lemma sv_catch_step: "m s = (Inr x, s') \<Longrightarrow> sv_catch m h s = (Inr x, s')"
  by (simp add: sv_catch_def)

lemma sv_catch_throw: "m s = (Inl e, s') \<Longrightarrow> sv_catch m h s = h e s'"
  by (simp add: sv_catch_def)

lemma compositeKey_storage: "compositeKey = conversationStorageKey"
  by (simp add: compositeKey_def conversationStorageKey_def fun_eq_iff)

lemma compositeKey_eq [simp]: "compositeKey a k = compositeKey a' k' \<longleftrightarrow> a = a' \<and> k = k'"
  by (simp add: compositeKey_storage)

lemma upd_corr_sel [simp]:
  "sv_closed (upd_corr i f s) = sv_closed s" "sv_rows (upd_corr i f s) = sv_rows s" "sv_outbox (upd_corr i f s) = sv_outbox s"
  "sv_buffer (upd_corr i f s) = sv_buffer s" "sv_active (upd_corr i f s) = sv_active s" "sv_calls (upd_corr i f s) = sv_calls s"
  "sv_sessions (upd_corr i f s) = sv_sessions s" "sv_reads (upd_corr i f s) = sv_reads s" "length (sv_corrs (upd_corr i f s)) = length (sv_corrs s)"
  by (simp_all add: upd_corr_def)

lemma corr_at_upd: "i < length (sv_corrs s) \<Longrightarrow> corr_at (upd_corr i f s) j = (if j = i then f (corr_at s i) else corr_at s j)"
  by (simp add: corr_at_def upd_corr_def nth_list_update)

lemma corr_at_fields [simp]:
  "corr_at (s\<lparr>sv_calls := x1\<rparr>) i = corr_at s i" "corr_at (s\<lparr>sv_reads := x2\<rparr>) i = corr_at s i" "corr_at (s\<lparr>sv_active := x3\<rparr>) i = corr_at s i"
  "corr_at (s\<lparr>sv_rows := x4\<rparr>) i = corr_at s i" "corr_at (s\<lparr>sv_outbox := x5\<rparr>) i = corr_at s i" "corr_at (s\<lparr>sv_buffer := x6\<rparr>) i = corr_at s i"
  "corr_at (s\<lparr>sv_sessions := x7\<rparr>) i = corr_at s i"
  by (simp_all add: corr_at_def)

lemma remove_active_sel [simp]:
  "sv_closed (remove_active key i s) = sv_closed s" "sv_rows (remove_active key i s) = sv_rows s" "sv_outbox (remove_active key i s) = sv_outbox s"
  "sv_buffer (remove_active key i s) = sv_buffer s" "sv_corrs (remove_active key i s) = sv_corrs s" "sv_calls (remove_active key i s) = sv_calls s"
  "sv_sessions (remove_active key i s) = sv_sessions s" "sv_reads (remove_active key i s) = sv_reads s" "corr_at (remove_active key i s) j = corr_at s j"
  by (simp_all add: remove_active_def corr_at_def)

lemma active_remove: "map_get (sv_active (remove_active key i s)) key' =
    (if key' = key \<and> map_get (sv_active s) key = Some i then None else map_get (sv_active s) key')"
  by (simp add: remove_active_def jm.get_del)

lemma store_emitter_sel [simp]:
  "sv_closed (store_emitter i em s) = sv_closed s" "sv_rows (store_emitter i em s) = em_hooks em" "sv_outbox (store_emitter i em s) = em_outbox em"
  "sv_buffer (store_emitter i em s) = sv_buffer s" "sv_active (store_emitter i em s) = sv_active s" "sv_calls (store_emitter i em s) = sv_calls s"
  "sv_sessions (store_emitter i em s) = sv_sessions s" "sv_reads (store_emitter i em s) = sv_reads s"
  "length (sv_corrs (store_emitter i em s)) = length (sv_corrs s)"
  by (simp_all add: store_emitter_def)

lemma corr_at_store: "i < length (sv_corrs s) \<Longrightarrow>
    corr_at (store_emitter i em s) j = (if j = i then (corr_at s i)\<lparr>ac_emitter := em\<rparr> else corr_at s j)"
  by (simp add: store_emitter_def corr_at_upd)

text \<open>What every clean-up does, in one state.\<close>

lemma cleanup_result:
  "cleanupCorrelation key i s =
     (Inr (), upd_corr i (\<lambda>c. c\<lparr>ac_lease := None, ac_draining := True\<rparr>)
        ((remove_active key i s)\<lparr>sv_calls := sv_calls s @ (case ac_lease (corr_at s i) of None \<Rightarrow> [] | Some child \<Rightarrow> [CallRelease child])\<rparr>))"
proof -
  have r: "(remove_active key i s)\<lparr>sv_calls := sv_calls s\<rparr> = remove_active key i s" by (simp add: remove_active_def)
  show ?thesis by (cases "ac_lease (corr_at s i)") (simp_all add: cleanupCorrelation_def r)
qed

end
