(* ===== verification/Supervisor_Inbound.thy ===== *)
theory Supervisor_Inbound
  imports Supervisor
begin

text \<open>
  The inbound side of \<open>packages/core/src/supervisor.ts\<close>: prompts and passive messages to a
  child, activation of a turn, session reset, redelivery of a saved response, the terminal
  event of a message that could not be processed, \<open>processInboundSerial\<close> and the flush of
  settled backlogs. \<open>ambient-ingest-extension.ts\<close> receives a
  passive message inside the child.
\<close>

section \<open>Passive messages\<close>

definition AMBIENT_INGEST_COMMAND :: string where
  "AMBIENT_INGEST_COMMAND = ''omp-bundler-ambient''"

text \<open>\<open>Buffer.from(..).toString("base64url")\<close> on bytes: three bytes are four characters, no padding.\<close>

definition b64_char :: "nat \<Rightarrow> char" where
  "b64_char n = (if n < 26 then char_of (65 + n) else if n < 52 then char_of (71 + n)
     else if n < 62 then char_of (n - 4) else if n = 62 then CHR ''-'' else CHR ''_'')"

fun base64url :: "nat list \<Rightarrow> string" where
  "base64url [] = []"
| "base64url [a] = [b64_char (a div 4), b64_char (a mod 4 * 16)]"
| "base64url [a, b] = [b64_char (a div 4), b64_char (a mod 4 * 16 + b div 16), b64_char (b mod 16 * 4)]"
| "base64url (a # b # c # r) =
     b64_char (a div 4) # b64_char (a mod 4 * 16 + b div 16) # b64_char (b mod 16 * 4 + c div 64) # b64_char (c mod 64) # base64url r"

definition ambient_payload :: "string \<Rightarrow> bool \<Rightarrow> json" where
  "ambient_payload content triggerTurn = JObj [(''content'', JStr content), (''triggerTurn'', JBool triggerTurn)]"

definition ambient_text :: "string \<Rightarrow> bool \<Rightarrow> string" where
  "ambient_text content triggerTurn =
     ''/'' @ AMBIENT_INGEST_COMMAND @ '' '' @ base64url (utf8 (json_stringify (ambient_payload content triggerTurn)))"

section \<open>Prompts\<close>

text \<open>\<open>child.prompt\<close> with the check of its answer; \<open>op\<close> is the operation named in the error.\<close>

definition prompt_child :: "world \<Rightarrow> nat \<Rightarrow> string \<Rightarrow> bool \<Rightarrow> (string \<times> string) list \<Rightarrow> string \<Rightarrow> unit sv" where
  "prompt_child w child text steer images op =
     sv_bind (sv_trace (CallPrompt child text steer images)) (\<lambda>_.
     sv_bind (wd_prompt w child text steer images) (\<lambda>success.
       if \<not> success then sv_raise (Rejected_by_agent op) else sv_return ()))"

definition rendered :: "core_setup \<Rightarrow> string \<Rightarrow> InboundMessage \<Rightarrow> string sv" where
  "rendered st a m = sv_bind (sv_read (su_now st)) (\<lambda>now. sv_return (renderRecord (toRecord a m now)))"

definition runAmbientCommand :: "core_setup \<Rightarrow> world \<Rightarrow> nat \<Rightarrow> string \<Rightarrow> InboundMessage \<Rightarrow> bool \<Rightarrow> unit sv" where
  "runAmbientCommand st w child a m triggerTurn =
     sv_bind (rendered st a m) (\<lambda>content. prompt_child w child (ambient_text content triggerTurn) False [] ''ambient ingest'')"

definition appendPassiveMessage :: "core_setup \<Rightarrow> world \<Rightarrow> string \<Rightarrow> InboundMessage \<Rightarrow> bool \<Rightarrow> unit sv" where
  "appendPassiveMessage st w a m triggerTurn =
     sv_bind (sv_get (\<lambda>s. case active_of a (im_conversationKey m) s of None \<Rightarrow> None | Some i \<Rightarrow> ac_lease (corr_at s i))) (\<lambda>lease.
       case lease of
         Some child \<Rightarrow> runAmbientCommand st w child a m triggerTurn
       | None \<Rightarrow>
           sv_bind (sv_trace (CallAcquire a (im_conversationKey m))) (\<lambda>_.
           sv_bind (wd_acquire w a (im_conversationKey m) (im_parentConversationKey m)) (\<lambda>child.
           sv_bind (sv_catch (runAmbientCommand st w child a m triggerTurn)
               (\<lambda>e. sv_bind (sv_trace (CallRetireChild a (im_conversationKey m) child)) (\<lambda>_.
                    sv_bind (sv_trace (CallRelease child)) (\<lambda>_. sv_raise e)))) (\<lambda>_.
             sv_trace (CallRelease child)))))"

text \<open>Images are read one after the other; a file that cannot be read is skipped.\<close>

fun loadImages :: "core_setup \<Rightarrow> world \<Rightarrow> WorkspaceAttachment list \<Rightarrow> (string \<times> string) list sv" where
  "loadImages st w [] = sv_return []"
| "loadImages st w (att # atts) =
     (case wa_mediaType att of
        None \<Rightarrow> loadImages st w atts
      | Some mimeType \<Rightarrow>
          if \<not> js_starts_with ''image/'' mimeType then loadImages st w atts
          else (let absolute = (if su_isAbsolute st (wa_path att) \<or> cc_agentRootDir (su_config st) = None then wa_path att
                                else su_join st (su_join st (the (cc_agentRootDir (su_config st))) ''workspace'') (wa_path att)) in
            sv_bind (sv_catch (sv_bind (wd_readFile w absolute) (\<lambda>data. sv_return [(data, mimeType)])) (\<lambda>_. sv_return [])) (\<lambda>image.
            sv_bind (loadImages st w atts) (\<lambda>images. sv_return (image @ images)))))"

section \<open>Activation\<close>

definition is_reset_command :: "string \<Rightarrow> bool" where
  "is_reset_command text \<longleftrightarrow> (let t = js_lower (js_trim text) in t = ''/new'' \<or> t = ''/reset'')"

definition handleSessionReset :: "core_setup \<Rightarrow> world \<Rightarrow> string \<Rightarrow> InboundMessage \<Rightarrow> string \<Rightarrow> unit sv" where
  "handleSessionReset st w a m c =
     (let k = im_conversationKey m in
      sv_bind (sv_get (active_of a k)) (\<lambda>active.
      sv_bind (case active of None \<Rightarrow> sv_return () | Some i \<Rightarrow> interruptTurn st w i) (\<lambda>_.
      sv_bind (sv_trace (CallRetireConversation a k)) (\<lambda>_.
      sv_bind (wd_retireConversation w a k) (\<lambda>_.
      sv_bind (sv_get (\<lambda>s. fst (forget (sv_sessions s) a k))) (\<lambda>existed.
      sv_bind (sv_modify (\<lambda>s. s\<lparr>sv_sessions := snd (forget (sv_sessions s) a k)\<rparr>)) (\<lambda>_.
      sv_bind (record_interaction st a k) (\<lambda>_.
      sv_bind (register_correlation st a k c None False) (\<lambda>i.
      sv_bind (emitter_do st i (\<lambda>opts env. emitDirectReply opts env
          (if existed then ''Started a new session. Earlier messages are no longer in context.'' else ''Already on a new session.''))) (\<lambda>_.
      sv_bind (sv_modify (set_terminal i)) (\<lambda>_. cleanupCorrelation (compositeKey a k) i)))))))))))"

text \<open>The active correlation, or a new one on a lease of the pool.\<close>

definition ensure_correlation :: "core_setup \<Rightarrow> world \<Rightarrow> string \<Rightarrow> InboundMessage \<Rightarrow> string \<Rightarrow> nat sv" where
  "ensure_correlation st w a m c =
     sv_bind (sv_get (active_of a (im_conversationKey m))) (\<lambda>active.
       case active of
         Some i \<Rightarrow> sv_return i
       | None \<Rightarrow>
           sv_bind (sv_trace (CallAcquire a (im_conversationKey m))) (\<lambda>_.
           sv_bind (wd_acquire w a (im_conversationKey m) (im_parentConversationKey m)) (\<lambda>child.
             register_correlation st a (im_conversationKey m) c (Some child) False)))"

definition dispatch :: "core_setup \<Rightarrow> world \<Rightarrow> nat \<Rightarrow> nat \<Rightarrow> string \<Rightarrow> InboundMessage \<Rightarrow> ActivationMode \<Rightarrow> unit sv" where
  "dispatch st w i child a m mode =
     (case mode of
        Prompt \<Rightarrow>
          sv_bind (rendered st a m) (\<lambda>text. sv_bind (loadImages st w (im_attachments m)) (\<lambda>images.
            prompt_child w child text False images ''prompt''))
      | Steer \<Rightarrow>
          sv_bind (rendered st a m) (\<lambda>text. sv_bind (loadImages st w (im_attachments m)) (\<lambda>images.
            prompt_child w child text True images ''steer''))
      | FollowUp \<Rightarrow>
          sv_bind (sv_modify (upd_corr i (\<lambda>c. c\<lparr>ac_pendingFollowUps := Suc (ac_pendingFollowUps c)\<rparr>))) (\<lambda>_.
            runAmbientCommand st w child a m True))"

definition complete_ingest :: "core_setup \<Rightarrow> string \<Rightarrow> string \<Rightarrow> unit sv" where
  "complete_ingest st a mid =
     sv_bind (sv_store (\<lambda>rows. (getEntry rows a mid, rows))) (\<lambda>entry.
       if map_option ie_ingestState entry = Some IngestPending
       then sv_bind (sv_read (su_stamp st)) (\<lambda>ts. sv_store (\<lambda>rows. markIngestComplete ts rows a mid))
       else sv_return ())"

definition activate :: "core_setup \<Rightarrow> world \<Rightarrow> string \<Rightarrow> InboundMessage \<Rightarrow> string \<Rightarrow> ActivationMode \<Rightarrow> unit sv" where
  "activate st w a m c mode =
     (if is_reset_command (im_text m) then handleSessionReset st w a m c
      else
        sv_bind (ensure_correlation st w a m c) (\<lambda>i.
        sv_bind (record_interaction st a (im_conversationKey m)) (\<lambda>_.
        sv_bind (sv_get (\<lambda>s. ac_lease (corr_at s i))) (\<lambda>lease.
          case lease of
            None \<Rightarrow> sv_raise No_lease
          | Some child \<Rightarrow>
              sv_bind (sv_catch (dispatch st w i child a m mode)
                (\<lambda>e. sv_bind (sv_modify (upd_corr i (\<lambda>c.
                        if mode = FollowUp \<and> ac_pendingFollowUps c > 0 then c\<lparr>ac_pendingFollowUps := ac_pendingFollowUps c - 1\<rparr> else c))) (\<lambda>_.
                     sv_bind (sv_trace (CallRetireChild a (im_conversationKey m) child)) (\<lambda>_. sv_raise e)))) (\<lambda>_.
                complete_ingest st a (im_messageId m))))))"

section \<open>Terminal events without a turn\<close>

definition terminalizeAcceptedInbound :: "core_setup \<Rightarrow> string \<Rightarrow> InboundMessage \<Rightarrow> string \<Rightarrow> unit sv" where
  "terminalizeAcceptedInbound st a m c =
     (let k = im_conversationKey m in
      sv_bind (sv_store (\<lambda>rows. (getEntry rows a (im_messageId m), rows))) (\<lambda>entry.
        if Option.bind entry ie_response \<noteq> None then sv_return ()
        else
          sv_bind (sv_get (active_of a k)) (\<lambda>active.
          sv_bind (case active of
              Some i \<Rightarrow> sv_return i
            | None \<Rightarrow> sv_bind (sv_store (\<lambda>rows. (getEntriesByCorrelation rows a c, rows))) (\<lambda>_. register_correlation st a k c None False)) (\<lambda>i.
          sv_bind (sv_get (\<lambda>s. ac_terminalEmitted (corr_at s i))) (\<lambda>terminal.
            if terminal then sv_return ()
            else
              sv_bind (sv_modify (set_terminal i)) (\<lambda>_.
              sv_bind (emitter_do st i (\<lambda>opts env. emitProviderError opts env ''agent_unavailable''
                  ''Agent process could not accept the message'' True)) (\<lambda>_.
                cleanupCorrelation (compositeKey a k) i)))))))"

text \<open>
  A saved response read back from the store as an event: the terminal events, the only ones
  that are saved.
\<close>

definition jnum :: "json option \<Rightarrow> int option" where
  "jnum v = (case v of Some (JNum n) \<Rightarrow> Some n | _ \<Rightarrow> None)"

definition read_usage :: "json \<Rightarrow> TurnUsage option" where
  "read_usage j =
     (case (jnum (jget ''input'' j), jnum (jget ''output'' j), jnum (jget ''cacheRead'' j), jnum (jget ''cacheWrite'' j), jnum (jget ''costUsd'' j)) of
        (Some a, Some b, Some c, Some d, Some u) \<Rightarrow>
          Some \<lparr>tu_input = a, tu_output = b, tu_cacheRead = c, tu_cacheWrite = d, tu_costUsd = u\<rparr>
      | _ \<Rightarrow> None)"

definition read_attachment :: "json \<Rightarrow> WorkspaceAttachment option" where
  "read_attachment j =
     (case (jstring (jget ''path'' j), optional_string (jget ''name'' j), optional_string (jget ''mediaType'' j)) of
        (Some p, Some n, Some m) \<Rightarrow> Some \<lparr>wa_path = p, wa_name = n, wa_mediaType = m\<rparr>
      | _ \<Rightarrow> None)"

definition read_body :: "json \<Rightarrow> event_body option" where
  "read_body j =
     (if jget ''type'' j = Some (JStr ''turn.cancelled'') then Some TurnCancelled
      else if jget ''type'' j = Some (JStr ''turn.error'')
      then (case (jstring (jget ''code'' j), jstring (jget ''message'' j), jget ''retryable'' j) of
              (Some c, Some m, Some (JBool r)) \<Rightarrow> Some (TurnError c m r)
            | _ \<Rightarrow> None)
      else if jget ''type'' j = Some (JStr ''turn.reply'')
      then (case (jstring (jget ''text'' j), jget ''attachments'' j, Option.bind (jget ''usage'' j) read_usage) of
              (Some t, Some (JArr as), Some u) \<Rightarrow> map_option (\<lambda>as. TurnReply t as u) (those (map read_attachment as))
            | _ \<Rightarrow> None)
      else None)"

definition read_event :: "json \<Rightarrow> OutboundEvent option" where
  "read_event j =
     (case (read_body j, jstring (jget ''eventId'' j), jstring (jget ''conversationKey'' j), jstring (jget ''correlationId'' j),
            jnum (jget ''sequence'' j), jstring (jget ''occurredAt'' j)) of
        (Some b, Some e, Some k, Some c, Some n, Some t) \<Rightarrow>
          (let ev = \<lparr>ev_body = b, ev_eventId = e, ev_conversationKey = k, ev_correlationId = c, ev_sequence = nat n, ev_occurredAt = t\<rparr>
           in if event_json ev = j then Some ev else None)
      | _ \<Rightarrow> None)"

lemma read_usage_json: "read_usage (usage_json u) = Some u"
  by (cases u) (simp add: read_usage_def usage_json_def jnum_def)

lemma read_attachment_json: "read_attachment (attachment_json a) = Some a"
  by (cases a) (auto simp: read_attachment_def attachment_json_def opt_prop_def split: option.splits)

lemma read_event_json:
  assumes "isTerminalEventType (jget ''type'' (event_json e))"
  shows "read_event (event_json e) = Some e"
proof -
  have at: "those (map read_attachment (map attachment_json as)) = Some as" for as
    by (simp add: comp_def read_attachment_json those_Some)
  have "read_body (event_json e) = Some (ev_body e)"
    using assms at read_usage_json
    by (cases "ev_body e") (auto simp: isTerminalEventType_def TERMINAL_EVENT_TYPES_def read_body_def event_json_def jnum_def comp_def)
  moreover have "jget ''sequence'' (event_json e) = Some (JNum (int (ev_sequence e)))" "jget ''occurredAt'' (event_json e) = Some (JStr (ev_occurredAt e))"
    by (simp_all add: event_json_def)
  ultimately show ?thesis by (cases e) (simp add: read_event_def jnum_def Let_def)
qed

definition redeliverSaved :: "core_setup \<Rightarrow> world \<Rightarrow> string \<Rightarrow> InboundMessage \<Rightarrow> string \<Rightarrow> json \<Rightarrow> unit sv" where
  "redeliverSaved st w a m c response =
     (let k = im_conversationKey m in
      sv_bind (sv_get (active_of a k)) (\<lambda>active.
      sv_bind (case active of
          Some i \<Rightarrow> sv_return i
        | None \<Rightarrow> sv_bind (sv_store (\<lambda>rows. (getEntriesByCorrelation rows a c, rows))) (\<lambda>_. register_correlation st a k c None True)) (\<lambda>i.
      sv_bind (sv_store (\<lambda>rows. (getEntriesByCorrelation rows a c, rows))) (\<lambda>_.
      sv_bind (case read_event response of
          None \<Rightarrow> sv_raise Not_an_event
        | Some event \<Rightarrow> emitter_do st i (\<lambda>opts env. redeliverDurable opts env event)) (\<lambda>_.
      sv_bind (wd_delivered w i) (\<lambda>_.
      sv_bind (sv_get (\<lambda>s. ac_lease (corr_at s i))) (\<lambda>lease.
        if lease = None
        then sv_modify (\<lambda>s. remove_active (compositeKey a k) i (upd_corr i (\<lambda>c. c\<lparr>ac_emitter := close_emitter (ac_emitter c)\<rparr>) s))
        else sv_return ())))))))"

section \<open>One inbound message\<close>

definition buffer_cfg :: "core_setup \<Rightarrow> IngestBufferOptions" where
  "buffer_cfg st = \<lparr>ib_engagementWindowMs = cc_engagementWindowMs (su_config st), ib_quietPeriodMs = cc_ambientQuietPeriodMs (su_config st)\<rparr>"

definition begin_inbound :: "core_setup \<Rightarrow> string \<Rightarrow> InboundMessage \<Rightarrow> string option \<Rightarrow> BeginInboundResult sv" where
  "begin_inbound st a m c =
     sv_bind (sv_read (su_uuid st)) (\<lambda>uuid. sv_bind (sv_read (su_stamp st)) (\<lambda>ts.
       sv_store (\<lambda>rows. beginInbound (su_sha256 st) uuid ts rows a m c)))"

definition begin_or_conflict :: "core_setup \<Rightarrow> string \<Rightarrow> InboundMessage \<Rightarrow> string option \<Rightarrow> BeginInboundResult sv" where
  "begin_or_conflict st a m c =
     sv_catch (begin_inbound st a m c)
       (\<lambda>e. case e of StoreThrew (IdempotencyConflict x1 x2 x3 x4) \<Rightarrow> sv_raise (InboundConflictError a (im_messageId m)) | _ \<Rightarrow> sv_raise e)"

definition ingest_message :: "core_setup \<Rightarrow> string \<Rightarrow> InboundMessage \<Rightarrow> IngestResult sv" where
  "ingest_message st a m =
     sv_bind (sv_read (su_now st)) (\<lambda>now s.
       case ingest (buffer_cfg st) (sv_buffer s) now a m (isStreaming a (im_conversationKey m) s) of
         (r, states) \<Rightarrow> (Inr r, s\<lparr>sv_buffer := states\<rparr>))"

definition process_created :: "core_setup \<Rightarrow> world \<Rightarrow> string \<Rightarrow> InboundMessage \<Rightarrow> string \<Rightarrow> InboundResult sv" where
  "process_created st w a m c =
     sv_bind (ingest_message st a m) (\<lambda>r.
       case r of
         Buffered _ _ \<Rightarrow>
           sv_bind (sv_catch (sv_bind (appendPassiveMessage st w a m False) (\<lambda>_. sv_return True))
               (\<lambda>_. sv_bind (terminalizeAcceptedInbound st a m c) (\<lambda>_. sv_return False))) (\<lambda>appended.
           sv_bind (if appended then sv_bind (sv_read (su_stamp st)) (\<lambda>ts. sv_store (\<lambda>rows. markIngestComplete ts rows a (im_messageId m)))
                    else sv_return ()) (\<lambda>_. sv_return (Accepted c)))
       | Activate mode _ _ \<Rightarrow>
           sv_bind (sv_catch (activate st w a m c mode) (\<lambda>_. terminalizeAcceptedInbound st a m c)) (\<lambda>_. sv_return (Accepted c)))"

definition processInboundSerial :: "core_setup \<Rightarrow> world \<Rightarrow> string \<Rightarrow> InboundMessage \<Rightarrow> InboundResult sv" where
  "processInboundSerial st w a m =
     (let k = im_conversationKey m in
      sv_bind (sv_catch (wd_recovered w a k) (\<lambda>_. sv_return ())) (\<lambda>_.
      sv_bind (sv_get (\<lambda>s. case active_of a k s of
          Some i \<Rightarrow> if im_addressed m \<and> \<not> ac_terminalEmitted (corr_at s i) then Some i else None | None \<Rightarrow> None)) (\<lambda>superseded.
      sv_bind (case superseded of None \<Rightarrow> sv_return () | Some i \<Rightarrow> interruptTurn st w i) (\<lambda>_.
      sv_bind (sv_get (\<lambda>s. map_option (\<lambda>i. ac_correlationId (corr_at s i)) (active_of a k s))) (\<lambda>activeCorrelation.
      sv_bind (begin_or_conflict st a m activeCorrelation) (\<lambda>begun.
        case begun of
          AlreadySent c \<Rightarrow> sv_return (Duplicate c)
        | ResponseSaved c response \<Rightarrow> sv_bind (redeliverSaved st w a m c response) (\<lambda>_. sv_return (Duplicate c))
        | DeliveryFailed c response _ \<Rightarrow> sv_bind (redeliverSaved st w a m c response) (\<lambda>_. sv_return (Duplicate c))
        | BPending c \<Rightarrow>
            sv_bind (if activeCorrelation \<noteq> None then sv_return ()
                     else sv_bind (sv_store (\<lambda>rows. (getEntry rows a (im_messageId m), rows))) (\<lambda>entry.
                       if map_option ie_ingestState entry = Some IngestPending
                       then terminalizeAcceptedInbound st a m c else sv_return ())) (\<lambda>_. sv_return (Duplicate c))
        | Created c \<Rightarrow> process_created st w a m c))))))"

section \<open>Settled backlogs\<close>

definition settled_message :: "SettledActivation \<Rightarrow> InboundMessage" where
  "settled_message settled =
     (let l = last (sa_records settled) in
      \<lparr>im_messageId = br_messageId l, im_conversationKey = sa_conversationKey settled, im_parentConversationKey = None,
       im_speaker = br_speaker l, im_text = sa_prompt settled, im_attachments = [], im_addressed = False\<rparr>)"

definition correlation_of :: "BeginInboundResult \<Rightarrow> string" where
  "correlation_of r = (case r of Created c \<Rightarrow> c | BPending c \<Rightarrow> c | ResponseSaved c _ \<Rightarrow> c | AlreadySent c \<Rightarrow> c | DeliveryFailed c _ _ \<Rightarrow> c)"

definition flush_one :: "core_setup \<Rightarrow> world \<Rightarrow> SettledActivation \<Rightarrow> unit sv" where
  "flush_one st w settled =
     sv_catch
       (sv_bind (begin_inbound st (sa_adapterId settled) (settled_message settled) None) (\<lambda>begun.
          activate st w (sa_adapterId settled) (settled_message settled) (correlation_of begun) Prompt))
       (\<lambda>_. sv_return ())"

fun flush_all :: "core_setup \<Rightarrow> world \<Rightarrow> SettledActivation list \<Rightarrow> unit sv" where
  "flush_all st w [] = sv_return ()"
| "flush_all st w (x # xs) = sv_bind (flush_one st w x) (\<lambda>_. flush_all st w xs)"

definition sweep_buffer :: "core_setup \<Rightarrow> SettledActivation list sv" where
  "sweep_buffer st =
     sv_bind (sv_read (su_now st)) (\<lambda>now s.
       case sweepSettled (buffer_cfg st) (sv_buffer s) now of (due, states) \<Rightarrow> (Inr due, s\<lparr>sv_buffer := states\<rparr>))"

definition flushSettled :: "core_setup \<Rightarrow> world \<Rightarrow> unit sv" where
  "flushSettled st w =
     sv_bind (sv_get sv_closed) (\<lambda>closed.
       if closed then sv_return () else sv_bind (sweep_buffer st) (\<lambda>due. flush_all st w due))"

text \<open>\<open>dismissEngagement\<close>.\<close>

definition dismissEngagement :: "core_setup \<Rightarrow> string \<Rightarrow> string \<Rightarrow> bool sv" where
  "dismissEngagement st a k =
     sv_bind (sv_read (su_now st)) (\<lambda>now s.
       case dismiss (sv_buffer s) now a k of (r, states) \<Rightarrow> (Inr r, s\<lparr>sv_buffer := states\<rparr>))"

end
