(* ===== verification/Emitter_Hooks.thy ===== *)
theory Emitter_Hooks
  imports Outbound_Emitter
begin

text \<open>
  What an operation of the emitter (\<open>packages/core/src/outbound-emitter.ts\<close>) can do to the
  state of whoever registered its durable lifecycle hooks: nothing but what the hooks do. The
  locale takes a reflexive and transitive relation that every hook respects on well-formed
  events, and shows that every operation respects it.
\<close>

lemma op_then_cases: "op_then f g s = (case f s of (Inl e, s') \<Rightarrow> (Inl e, s') | (Inr _, s') \<Rightarrow> g s')"
  by (simp add: op_then_def)

locale hook_frame =
  fixes env :: "'h EmitterEnv" and R :: "'h \<Rightarrow> 'h \<Rightarrow> bool"
  assumes R_refl: "R h h" and R_trans: "R h h' \<Longrightarrow> R h' h'' \<Longrightarrow> R h h''"
    and R_prepared: "json_ok e \<Longrightarrow> R h (snd (ee_prepared env e h))"
    and R_delivered: "json_ok e \<Longrightarrow> R h (snd (ee_delivered env e h))"
    and R_failed: "json_ok e \<Longrightarrow> R h (snd (ee_failed env e err h))"
begin

definition keeps_op :: "'h emit_op \<Rightarrow> bool" where
  "keeps_op f \<longleftrightarrow> (\<forall>s. R (em_hooks s) (em_hooks (snd (f s))))"

lemma keeps_opD: "keeps_op f \<Longrightarrow> f s = (r, s') \<Longrightarrow> R (em_hooks s) (em_hooks s')"
  by (metis keeps_op_def snd_conv)

lemma keeps_opI: "(\<And>s. R (em_hooks s) (em_hooks (snd (f s)))) \<Longrightarrow> keeps_op f"
  by (simp add: keeps_op_def)

lemma keeps_then: "keeps_op f \<Longrightarrow> keeps_op g \<Longrightarrow> keeps_op (op_then f g)"
proof (rule keeps_opI)
  fix s assume f: "keeps_op f" and g: "keeps_op g"
  obtain r s1 where s1: "f s = (r, s1)" by force
  have "R (em_hooks s) (em_hooks s1)" using keeps_opD [OF f s1] .
  moreover have "R (em_hooks s1) (em_hooks (snd (g s1)))" using g by (simp add: keeps_op_def)
  ultimately show "R (em_hooks s) (em_hooks (snd (op_then f g s)))"
    using R_trans by (cases r) (auto simp: op_then_def s1)
qed

lemma enqueue_hooks [simp]: "em_hooks (enqueue w p s) = em_hooks s"
  by (simp add: enqueue_def)

lemma persist_hooks: "em_hooks (snd (persistEvent opts e s)) = em_hooks s"
  by (simp add: persistEvent_def split: option.splits)

lemma deliver_hooks: "R (em_hooks s) (em_hooks (snd (deliverDurable opts env e s)))"
proof -
  obtain r h where p: "ee_prepared env (event_json e) (em_hooks s) = (r, h)" by force
  have "R (em_hooks s) h" using R_prepared [of "event_json e" "em_hooks s"] p by simp
  moreover have "em_hooks (snd (deliverDurable opts env e s)) = h"
    using persist_hooks [of opts e "s\<lparr>em_hooks := h\<rparr>"]
    by (auto simp: deliverDurable_def p split: sum.splits prod.splits bool.splits)
  ultimately show ?thesis by simp
qed

lemma make_event_hooks: "em_hooks (snd (make_event opts env body at s)) = em_hooks s"
  by (simp add: make_event_def take_uuid_def take_now_def nextSequence_def Let_def split: option.splits)

lemma emit_durable_hooks: "R (em_hooks s) (em_hooks (snd (emit_durable opts env body at s)))"
  using deliver_hooks [of "snd (make_event opts env body at s)" opts "fst (make_event opts env body at s)"] make_event_hooks [of opts body at s]
  by (simp add: emit_durable_def Let_def case_prod_beta)

lemma emit_best_effort_hooks: "em_hooks (emit_best_effort opts env body s) = em_hooks s"
  using make_event_hooks [of opts body None s] by (simp add: emit_best_effort_def deliverBestEffort_def Let_def case_prod_beta)

lemma ensureStarted_keeps: "keeps_op (ensureStarted opts env)"
proof (rule keeps_opI)
  fix s :: "'h emitter"
  show "R (em_hooks s) (em_hooks (snd (ensureStarted opts env s)))"
    using emit_durable_hooks [of "s\<lparr>em_startedEmitted := True, em_reads := Suc (em_reads s), em_lastProgressAt := ee_now env (em_reads s)\<rparr>" opts
        TurnStarted "Some (ee_now env (em_reads s))"]
    by (simp add: ensureStarted_def take_now_def Let_def R_refl)
qed

lemma emit_terminal_keeps: "keeps_op (\<lambda>s. emit_durable opts env (body s) None (s\<lparr>em_terminalEmitted := True\<rparr>))"
proof (rule keeps_opI)
  fix s :: "'h emitter"
  show "R (em_hooks s) (em_hooks (snd (emit_durable opts env (body s) None (s\<lparr>em_terminalEmitted := True\<rparr>))))"
    using emit_durable_hooks [of "s\<lparr>em_terminalEmitted := True\<rparr>" opts "body s" None] by simp
qed

lemma keeps_if: "keeps_op f \<Longrightarrow> keeps_op g \<Longrightarrow> keeps_op (\<lambda>s. if b s then f s else g s)"
  by (simp add: keeps_op_def)

lemma keeps_skip: "keeps_op (\<lambda>s. (r s, s))"
  by (simp add: keeps_op_def R_refl)

lemma emitProviderError_keeps: "keeps_op (emitProviderError opts env code msg retryable)"
  unfolding emitProviderError_def [abs_def]
  by (intro keeps_if keeps_skip keeps_then ensureStarted_keeps emit_terminal_keeps)

lemma emitCancelled_keeps: "keeps_op (emitCancelled opts env)"
  unfolding emitCancelled_def [abs_def] by (intro keeps_if keeps_skip emit_terminal_keeps)

lemma emitDirectReply_keeps: "keeps_op (emitDirectReply opts env text)"
  unfolding emitDirectReply_def [abs_def] by (intro keeps_if keeps_skip emit_terminal_keeps)

lemma emitPresence_keeps: "keeps_op (emitPresence opts env p)"
proof (rule keeps_opI)
  fix s :: "'h emitter"
  show "R (em_hooks s) (em_hooks (snd (emitPresence opts env p s)))"
    using emit_durable_hooks [of "s\<lparr>em_presence := Some p\<rparr>" opts "PresenceChanged p" None] by (simp add: emitPresence_def R_refl)
qed

lemma handleAgentEnd_keeps: "keeps_op (handleAgentEnd opts env frame)"
  unfolding handleAgentEnd_def [abs_def]
  by (intro keeps_if keeps_skip keeps_then ensureStarted_keeps emit_terminal_keeps emitProviderError_keeps)

lemma progress_hooks: "em_hooks (handleProgressCandidate opts env m s) = em_hooks s"
  by (simp add: handleProgressCandidate_def flushProgress_def emitProgress_def emit_best_effort_hooks take_now_def Let_def)

lemma message_update_hooks: "em_hooks (handleMessageUpdate opts env frame s) = em_hooks s"
  by (simp add: handleMessageUpdate_def emitDelta_def emit_best_effort_hooks progress_hooks Let_def split: option.splits)

lemma frame_hooks: "em_hooks (handleToolExecutionEnd frame s) = em_hooks s" "em_hooks (handleTurnEnd frame s) = em_hooks s"
  by (simp_all add: handleToolExecutionEnd_def handleTurnEnd_def Let_def split: option.splits)

lemma ingest_frame_keeps: "keeps_op (ingest_frame opts env frame)"
  using ensureStarted_keeps handleAgentEnd_keeps
  by (simp add: keeps_op_def ingest_frame_def handleTurnStart_def message_update_hooks frame_hooks progress_hooks R_refl Let_def)

lemma resume_hooks: "em_hooks (snd (resume_rows g rows s)) = em_hooks s"
  by (induction g rows s rule: resume_rows.induct) (auto split: option.splits)

lemma retry_keeps: "keeps_op (retryPermanentFailure opts env eventId)"
proof (rule keeps_opI)
  fix s :: "'h emitter"
  have "R (em_hooks s) (em_hooks (snd (retryPermanentFailureOnce opts env eventId s)))"
  proof (cases "em_closed s \<or> (\<forall>row event. sql_get (\<lambda>r. ob_eventId r = eventId \<and> of_emitter opts r \<and> ob_status r = OPermanentFailure) (em_outbox s) = Some row
      \<longrightarrow> json_parse (ob_payload row) \<noteq> Some event)")
    case True
    then show ?thesis by (auto simp: retryPermanentFailureOnce_def R_refl split: option.splits)
  next
    case False
    then obtain row event where row: "sql_get (\<lambda>r. ob_eventId r = eventId \<and> of_emitter opts r \<and> ob_status r = OPermanentFailure) (em_outbox s) = Some row"
      "json_parse (ob_payload row) = Some event" "\<not> em_closed s" by blast
    obtain r h where p: "ee_prepared env event (em_hooks s) = (r, h)" by force
    have "R (em_hooks s) h" using R_prepared [OF json_parse_ok [OF row(2)], of "em_hooks s"] p by simp
    moreover have "em_hooks (snd (retryPermanentFailureOnce opts env eventId s)) = h"
      by (cases r) (simp_all add: retryPermanentFailureOnce_def row p take_utc_def sql_update_def Let_def)
    ultimately show ?thesis by simp
  qed
  then show "R (em_hooks s) (em_hooks (snd (retryPermanentFailure opts env eventId s)))" by (simp add: retryPermanentFailure_def R_refl)
qed

lemma redeliver_keeps: "keeps_op (redeliverDurable opts env e)"
proof (rule keeps_opI)
  fix s :: "'h emitter"
  have "em_hooks (snd (resumePending opts s)) = em_hooks s" by (simp add: resumePending_def resume_hooks Let_def)
  moreover have "R (em_hooks s) (em_hooks (snd (retryPermanentFailure opts env i s)))" for i using retry_keeps by (simp add: keeps_op_def)
  moreover have "R (em_hooks s) (snd (ee_delivered env (event_json e) (em_hooks s)))" by (rule R_delivered) simp
  ultimately show "R (em_hooks s) (em_hooks (snd (redeliverDurable opts env e s)))"
    using deliver_hooks [of s opts e]
    by (simp add: redeliverDurable_def R_refl Let_def case_prod_beta split: option.splits OutboxStatus.splits)
qed

lemmas operations_keep = emitProviderError_keeps emitCancelled_keeps emitDirectReply_keeps emitPresence_keeps ingest_frame_keeps redeliver_keeps

end

end
