(* ===== verification/Supervisor_Inv.thy ===== *)
theory Supervisor_Inv
  imports Supervisor_Inbound Emitter_Hooks
begin

text \<open>
  The invariant of the supervisor and its preservation by every operation of
  \<open>Supervisor\<close> and \<open>Supervisor_Inbound\<close>, in every world whose awaited calls preserve it
  themselves: the active map points to correlations of the right conversation, a lease is held
  only by the active correlation of its conversation, and every held record of the ingest
  buffer belongs to a message that was accepted with that payload.
\<close>

section \<open>The hooks keep the accepted payloads\<close>

text \<open>Soundness of the table and the payload hash of every key are kept; nothing is inserted or deleted.\<close>

definition rows_keep :: "idem_row list \<Rightarrow> idem_row list \<Rightarrow> bool" where
  "rows_keep rows rows' \<longleftrightarrow> (idem_ok rows \<longrightarrow>
     idem_ok rows' \<and> (\<forall>a m. map_option ie_payloadHash (idem_row rows' a m) = map_option ie_payloadHash (idem_row rows a m)))"

lemma rows_keep_refl: "rows_keep rows rows"
  by (simp add: rows_keep_def)

lemma rows_keep_trans: "rows_keep r1 r2 \<Longrightarrow> rows_keep r2 r3 \<Longrightarrow> rows_keep r1 r3"
  by (simp add: rows_keep_def)

lemma rows_keep_update:
  assumes "row_update idem_key row_ok guard change" "\<And>r. ie_payloadHash (change r) = ie_payloadHash r"
  shows "rows_keep rows (fst (sql_update guard change rows))"
proof -
  show ?thesis
    using row_update.tbl_ok_update [OF assms(1)] row_update.row_at_update [OF assms(1)] assms(2)
    by (auto simp: rows_keep_def option.map_comp comp_def if_distrib [of ie_payloadHash] cong: if_cong)
qed

lemma not_ok_keeps: "\<not> idem_ok rows \<Longrightarrow> rows_keep rows rows'"
  by (simp add: rows_keep_def)

lemmas hook_defs = resolveEntries_def hook_throw_def getEntriesByCorrelation_ok

lemma prepared_keeps:
  assumes "json_ok e"
  shows "rows_keep rows (snd (onDurablePrepared msg ts a c e rows))"
proof (cases "idem_ok rows")
  case True
  have "rows_keep rows (fst (sql_update (\<lambda>r. of_corr a c r \<and> ie_deliveryState r = DPending \<and> event_for e r) (save_row ts e) rows))"
    by (rule rows_keep_update [OF csav.row_update_axioms]) (simp add: save_row_def)
  then show ?thesis using True
    by (auto simp: onDurablePrepared_def hook_defs saveResponseForCorrelation_cases [OF True assms] rows_keep_refl split: sum.splits)
qed (rule not_ok_keeps)

lemma delivered_keeps: "rows_keep rows (snd (onDurableDelivered msg ts a c e rows))"
proof (cases "idem_ok rows")
  case True
  have "rows_keep rows (fst (sql_update (\<lambda>r. of_corr a c r \<and> unsent r) (sent_row ts) rows))"
    by (rule rows_keep_update [OF csnt.row_update_axioms]) (simp add: sent_row_def)
  then show ?thesis using True
    by (auto simp: onDurableDelivered_def hook_defs markCorrelationSent_cases [OF True] rows_keep_refl split: sum.splits)
qed (rule not_ok_keeps)

lemma failed_keeps: "rows_keep rows (snd (onDurableFailed msg ts a c e err rows))"
proof (cases "idem_ok rows")
  case True
  have "rows_keep rows (fst (sql_update (\<lambda>r. of_corr a c r \<and> ie_deliveryState r = DSaved) (failed_row ts (Some err)) rows))"
    by (rule rows_keep_update [OF cfld.row_update_axioms]) (simp add: failed_row_def)
  then show ?thesis using True
    by (auto simp: onDurableFailed_def hook_defs markCorrelationFailed_cases [OF True] rows_keep_refl split: sum.splits)
qed (rule not_ok_keeps)

interpretation corr_hooks: hook_frame "corr_env st i c" rows_keep for st i c
  by unfold_locales (auto simp: corr_env_def rows_keep_refl prepared_keeps delivered_keeps failed_keeps intro: rows_keep_trans)

section \<open>The invariant\<close>

definition corr_key :: "ActiveCorrelation \<Rightarrow> string" where
  "corr_key c = compositeKey (ac_adapterId c) (ac_conversationKey c)"

text \<open>A record of the buffer stems from an accepted message.\<close>

definition record_begun :: "(nat list \<Rightarrow> string) \<Rightarrow> idem_row list \<Rightarrow> BufferedRecord \<Rightarrow> bool" where
  "record_begun sha rows rec \<longleftrightarrow> (\<exists>m t. rec = toRecord (br_adapterId rec) m t \<and> br_adapterId rec \<noteq> [] \<and> im_messageId m \<noteq> [] \<and>
     map_option ie_payloadHash (idem_row rows (br_adapterId rec) (im_messageId m)) = Some (canonicalPayloadHash sha m))"

definition held_begun :: "(nat list \<Rightarrow> string) \<Rightarrow> idem_row list \<Rightarrow> buffer_states \<Rightarrow> bool" where
  "held_begun sha rows states \<longleftrightarrow> (\<forall>a k. \<forall>rec \<in> set (backlog_of states a k). record_begun sha rows rec)"

definition sv_inv :: "core_setup \<Rightarrow> supervisor \<Rightarrow> bool" where
  "sv_inv st s \<longleftrightarrow> idem_ok (sv_rows s) \<and> states_ok (sv_buffer s) \<and> held_begun (su_sha256 st) (sv_rows s) (sv_buffer s) \<and>
     (\<forall>key i. map_get (sv_active s) key = Some i \<longrightarrow> i < length (sv_corrs s) \<and> key = corr_key (corr_at s i)) \<and>
     (\<forall>i < length (sv_corrs s). ac_lease (corr_at s i) \<noteq> None \<longrightarrow> map_get (sv_active s) (corr_key (corr_at s i)) = Some i)"

lemma held_begun_keep: "rows_keep rows rows' \<Longrightarrow> idem_ok rows \<Longrightarrow> held_begun sha rows states \<Longrightarrow> held_begun sha rows' states"
  by (simp add: held_begun_def record_begun_def rows_keep_def)

text \<open>The parts of the invariant and how a change of other fields leaves them.\<close>

lemma sv_inv_fields:
  assumes "sv_inv st s" "sv_rows s' = sv_rows s" "sv_buffer s' = sv_buffer s" "sv_active s' = sv_active s" "sv_corrs s' = sv_corrs s"
  shows "sv_inv st s'"
  using assms by (simp add: sv_inv_def corr_at_def)

lemma sv_inv_rows:
  assumes "sv_inv st s" "rows_keep (sv_rows s) (sv_rows s')" "sv_buffer s' = sv_buffer s" "sv_active s' = sv_active s" "sv_corrs s' = sv_corrs s"
  shows "sv_inv st s'"
  using assms held_begun_keep [OF assms(2)] by (simp add: sv_inv_def corr_at_def rows_keep_def)

lemma upd_corr_out: "\<not> i < length (sv_corrs s) \<Longrightarrow> upd_corr i f s = s"
  by (simp add: upd_corr_def list_update_beyond)

text \<open>A change of one correlation that keeps its conversation and gives it no lease.\<close>

lemma sv_inv_upd:
  assumes inv: "sv_inv st s" and key: "corr_key (f (corr_at s i)) = corr_key (corr_at s i)"
    and lease: "ac_lease (f (corr_at s i)) \<noteq> None \<longrightarrow> ac_lease (corr_at s i) \<noteq> None"
  shows "sv_inv st (upd_corr i f s)"
proof (cases "i < length (sv_corrs s)")
  case True
  then show ?thesis using inv key lease by (auto simp: sv_inv_def corr_at_upd)
next
  case False
  then show ?thesis using inv by (simp add: upd_corr_out)
qed

lemma sv_inv_store:
  assumes inv: "sv_inv st s" and rows: "rows_keep (sv_rows s) (em_hooks em)"
  shows "sv_inv st (store_emitter i em s)"
proof -
  have "sv_inv st (upd_corr i (ac_emitter_update (\<lambda>_. em)) s)"
    by (rule sv_inv_upd [OF inv]) (simp_all add: corr_key_def)
  then show ?thesis by (rule sv_inv_rows) (simp_all add: store_emitter_def rows)
qed

lemma sv_inv_emitter:
  assumes inv: "sv_inv st s" and f: "\<And>opts c. corr_hooks.keeps_op (f opts (corr_env st i c))"
  shows "sv_inv st (snd (emitter_do st i f s))"
proof -
  obtain r em where e: "f (corr_options st (corr_at s i)) (corr_env st i (corr_at s i)) (loaded_emitter s i) = (r, em)" by force
  have "rows_keep (sv_rows s) (em_hooks em)"
    using corr_hooks.keeps_opD [OF f e] by (simp add: loaded_emitter_def)
  then show ?thesis using sv_inv_store [OF inv] by (simp add: emitter_do_def e)
qed

lemma corr_store_out: "\<not> i < length (sv_corrs s) \<Longrightarrow> corr_at (store_emitter i em s) j = corr_at s j"
  unfolding store_emitter_def by (simp add: upd_corr_out)

lemma emitter_frame:
  assumes "emitter_do st i f s = (r, s')"
  shows "sv_active s' = sv_active s" "sv_calls s' = sv_calls s" "sv_buffer s' = sv_buffer s" "length (sv_corrs s') = length (sv_corrs s)"
    "sv_closed s' = sv_closed s" "corr_key (corr_at s' j) = corr_key (corr_at s j)" "ac_lease (corr_at s' j) = ac_lease (corr_at s j)"
proof -
  obtain em where s': "s' = store_emitter i em s" using assms by (auto simp: emitter_do_def split: prod.splits)
  show "sv_active s' = sv_active s" "sv_calls s' = sv_calls s" "sv_buffer s' = sv_buffer s" "length (sv_corrs s') = length (sv_corrs s)" "sv_closed s' = sv_closed s"
    by (simp_all add: s')
  show "corr_key (corr_at s' j) = corr_key (corr_at s j)" "ac_lease (corr_at s' j) = ac_lease (corr_at s j)"
    using corr_at_store [of i s em j] corr_store_out [of i s em j] by (cases "i < length (sv_corrs s)"; simp add: s' corr_key_def)+
qed

lemma sv_inv_remove:
  assumes inv: "sv_inv st s" and i: "ac_lease (corr_at s i) = None \<or> length (sv_corrs s) \<le> i"
  shows "sv_inv st (remove_active key i s)"
proof (cases "map_get (sv_active s) key = Some i")
  case True
  have a: "map_get (sv_active (remove_active key i s)) key' = (if key' = key then None else map_get (sv_active s) key')" for key'
    using True by (simp add: active_remove)
  have lease: "corr_key (corr_at s j) \<noteq> key" if "j < length (sv_corrs s)" "ac_lease (corr_at s j) \<noteq> None" for j
  proof
    assume k: "corr_key (corr_at s j) = key"
    have "map_get (sv_active s) (corr_key (corr_at s j)) = Some j" using inv that by (simp add: sv_inv_def)
    then have "j = i" using True k by simp
    then show False using i that by simp
  qed
  show ?thesis using inv lease by (simp add: sv_inv_def a)
next
  case False
  then show ?thesis using inv by (simp add: remove_active_def)
qed

lemma sv_inv_register:
  assumes inv: "sv_inv st s" and free: "map_get (sv_active s) (compositeKey a k) = None"
    and r: "register_correlation st a k c lease terminal s = (out, s')"
  shows "sv_inv st s'"
proof (cases out)
  case (Inl e)
  then show ?thesis using r inv by (auto simp: register_correlation_def split: sum.splits)
next
  case (Inr i)
  then obtain em where s': "s' = s\<lparr>sv_corrs := sv_corrs s @ [\<lparr>ac_correlationId = c, ac_adapterId = a, ac_conversationKey = k, ac_emitter = em,
                ac_lease = lease, ac_pendingFollowUps = 0, ac_terminalEmitted = terminal, ac_draining = False\<rparr>],
             sv_active := map_set (sv_active s) (compositeKey a k) (length (sv_corrs s))\<rparr>"
    using r by (auto simp: register_correlation_def split: sum.splits)
  have old: "corr_at s' j = corr_at s j" if "j < length (sv_corrs s)" for j using that by (simp add: s' corr_at_def nth_append)
  have new: "corr_key (corr_at s' (length (sv_corrs s))) = compositeKey a k" by (simp add: s' corr_at_def corr_key_def)
  have act: "map_get (sv_active s') key = (if key = compositeKey a k then Some (length (sv_corrs s)) else map_get (sv_active s) key)" for key
    by (simp add: s' jm.get_put)
  have len: "length (sv_corrs s') = Suc (length (sv_corrs s))" by (simp add: s')
  have "i < length (sv_corrs s') \<and> key = corr_key (corr_at s' i)" if "map_get (sv_active s') key = Some i" for key i
  proof (cases "key = compositeKey a k")
    case True
    then show ?thesis using that new by (simp add: act len)
  next
    case False
    then have "i < length (sv_corrs s)" "key = corr_key (corr_at s i)" using that inv by (simp_all add: act sv_inv_def)
    then show ?thesis by (simp add: old len)
  qed
  moreover have "map_get (sv_active s') (corr_key (corr_at s' i)) = Some i"
    if i: "i < length (sv_corrs s')" and l: "ac_lease (corr_at s' i) \<noteq> None" for i
  proof (cases "i < length (sv_corrs s)")
    case True
    have "map_get (sv_active s) (corr_key (corr_at s i)) = Some i" using True l inv by (simp add: sv_inv_def old)
    moreover from this have "corr_key (corr_at s i) \<noteq> compositeKey a k" using free by auto
    ultimately show ?thesis using True by (simp add: old act)
  next
    case False
    then have "i = length (sv_corrs s)" using i len by simp
    then show ?thesis using new by (simp add: act)
  qed
  ultimately show ?thesis using inv by (simp add: sv_inv_def) (simp add: s')
qed

section \<open>Specifications of operations\<close>

text \<open>
  From a state that satisfies the invariant and \<open>P\<close>, the operation keeps the invariant, and \<open>Q\<close>
  holds when it does not throw.
\<close>

definition sv_spec :: "core_setup \<Rightarrow> (supervisor \<Rightarrow> bool) \<Rightarrow> 'a sv \<Rightarrow> ('a \<Rightarrow> supervisor \<Rightarrow> bool) \<Rightarrow> bool" where
  "sv_spec st P m Q \<longleftrightarrow> (\<forall>s. P s \<and> sv_inv st s \<longrightarrow> sv_inv st (snd (m s)) \<and> (\<forall>x. fst (m s) = Inr x \<longrightarrow> Q x (snd (m s))))"

abbreviation sv_keeps :: "core_setup \<Rightarrow> 'a sv \<Rightarrow> bool" where
  "sv_keeps st m \<equiv> sv_spec st (\<lambda>_. True) m (\<lambda>_ _. True)"

lemma sv_specI: "(\<And>s. P s \<Longrightarrow> sv_inv st s \<Longrightarrow> sv_inv st (snd (m s)) \<and> (\<forall>x. fst (m s) = Inr x \<longrightarrow> Q x (snd (m s)))) \<Longrightarrow> sv_spec st P m Q"
  by (simp add: sv_spec_def)

lemma spec_bind: "sv_spec st P m Q \<Longrightarrow> (\<And>x. sv_spec st (Q x) (f x) R) \<Longrightarrow> sv_spec st P (sv_bind m f) R"
  unfolding sv_spec_def sv_bind_def by (fastforce split: prod.split sum.split)

lemma spec_weaken: "sv_spec st P' m Q' \<Longrightarrow> (\<And>s. P s \<Longrightarrow> P' s) \<Longrightarrow> (\<And>x s. Q' x s \<Longrightarrow> Q x s) \<Longrightarrow> sv_spec st P m Q"
  unfolding sv_spec_def by blast

lemma spec_keeps: "sv_spec st (\<lambda>_. True) m Q' \<Longrightarrow> sv_spec st P m (\<lambda>_ _. True)"
  by (erule spec_weaken) simp_all

lemma spec_catch: "sv_spec st P m Q \<Longrightarrow> (\<And>e. sv_spec st (\<lambda>_. True) (h e) Q) \<Longrightarrow> sv_spec st P (sv_catch m h) Q"
  unfolding sv_spec_def sv_catch_def by (fastforce split: prod.split sum.split)

lemma spec_return: "(\<And>s. P s \<Longrightarrow> Q x s) \<Longrightarrow> sv_spec st P (sv_return x) Q"
  by (simp add: sv_spec_def)

lemma spec_raise: "sv_spec st P (sv_raise e) Q"
  by (simp add: sv_spec_def)

lemma spec_get: "sv_spec st P (sv_get f) (\<lambda>x s. P s \<and> x = f s)"
  by (simp add: sv_spec_def)

lemma spec_modify: "(\<And>s. P s \<Longrightarrow> sv_inv st s \<Longrightarrow> sv_inv st (f s) \<and> Q () (f s)) \<Longrightarrow> sv_spec st P (sv_modify f) Q"
  by (simp add: sv_spec_def)

lemma sv_inv_counters:
  "sv_inv st s \<Longrightarrow> sv_inv st (s\<lparr>sv_reads := n\<rparr>)" "sv_inv st s \<Longrightarrow> sv_inv st (s\<lparr>sv_calls := l\<rparr>)"
  "sv_inv st s \<Longrightarrow> sv_inv st (s\<lparr>sv_sessions := ss\<rparr>)"
  by (erule sv_inv_fields; simp)+

lemma spec_read: "(\<And>s n. P s \<Longrightarrow> P (s\<lparr>sv_reads := n\<rparr>)) \<Longrightarrow> sv_spec st P (sv_read f) (\<lambda>_. P)"
  by (simp add: sv_spec_def sv_read_def sv_inv_counters)

lemma spec_trace: "(\<And>s l. P s \<Longrightarrow> P (s\<lparr>sv_calls := l\<rparr>)) \<Longrightarrow> sv_spec st P (sv_trace c) (\<lambda>_. P)"
  by (simp add: sv_spec_def sv_inv_counters)

lemma spec_if: "(b \<Longrightarrow> sv_spec st P m Q) \<Longrightarrow> (\<not> b \<Longrightarrow> sv_spec st P n Q) \<Longrightarrow> sv_spec st P (if b then m else n) Q"
  by simp

lemma spec_option: "(v = None \<Longrightarrow> sv_spec st P m Q) \<Longrightarrow> (\<And>x. v = Some x \<Longrightarrow> sv_spec st P (n x) Q) \<Longrightarrow>
    sv_spec st P (case v of None \<Rightarrow> m | Some x \<Rightarrow> n x) Q"
  by (simp split: option.split)

text \<open>Nothing of the conversation becomes active.\<close>

definition idle_at :: "string \<Rightarrow> string \<Rightarrow> supervisor \<Rightarrow> bool" where
  "idle_at a k s \<longleftrightarrow> active_of a k s = None"

lemma idle_fields [simp]:
  "idle_at a k (s\<lparr>sv_reads := n\<rparr>) = idle_at a k s" "idle_at a k (s\<lparr>sv_calls := l\<rparr>) = idle_at a k s"
  "idle_at a k (s\<lparr>sv_rows := r\<rparr>) = idle_at a k s" "idle_at a k (s\<lparr>sv_buffer := b\<rparr>) = idle_at a k s" "idle_at a k (upd_corr i f s) = idle_at a k s"
  "idle_at a k (s\<lparr>sv_sessions := ss\<rparr>) = idle_at a k s"
  by (simp_all add: idle_at_def active_of_def)

lemma spec_emitter:
  assumes "\<And>opts c. corr_hooks.keeps_op (f opts (corr_env st i c))" "\<And>s s'. P s \<Longrightarrow> sv_active s' = sv_active s \<Longrightarrow> P s'"
  shows "sv_spec st P (emitter_do st i f) (\<lambda>_. P)"
proof (rule sv_specI)
  fix s assume p: "P s" "sv_inv st s"
  obtain r s' where e: "emitter_do st i f s = (r, s')" by force
  show "sv_inv st (snd (emitter_do st i f s)) \<and> (\<forall>x. fst (emitter_do st i f s) = Inr x \<longrightarrow> P (snd (emitter_do st i f s)))"
    using sv_inv_emitter [where f = f, OF p(2) assms(1)] assms(2) [OF p(1), of s'] emitter_frame(1) [OF e] e by simp
qed

text \<open>A call of the store that keeps soundness and the accepted payloads.\<close>

lemma spec_store:
  assumes "\<And>rows. idem_ok rows \<Longrightarrow> rows_keep rows (snd (f rows))" "\<And>s r. P s \<Longrightarrow> P (s\<lparr>sv_rows := r\<rparr>)"
  shows "sv_spec st P (sv_store f) (\<lambda>_. P)"
proof (rule sv_specI)
  fix s assume p: "P s" "sv_inv st s"
  have "rows_keep (sv_rows s) (snd (f (sv_rows s)))" using assms(1) p(2) by (simp add: sv_inv_def)
  then have "sv_inv st (s\<lparr>sv_rows := snd (f (sv_rows s))\<rparr>)" using sv_inv_rows [OF p(2)] by simp
  then show "sv_inv st (snd (sv_store f s)) \<and> (\<forall>x. fst (sv_store f s) = Inr x \<longrightarrow> P (snd (sv_store f s)))"
    using assms(2) [OF p(1)] by (simp add: sv_store_def case_prod_beta)
qed

lemma spec_store_read: "(\<And>s r. P s \<Longrightarrow> P (s\<lparr>sv_rows := r\<rparr>)) \<Longrightarrow> sv_spec st P (sv_store (\<lambda>rows. (g rows, rows))) (\<lambda>_. P)"
  by (rule spec_store) (simp_all add: rows_keep_refl)

lemma spec_mark_ingest: "(\<And>s r. P s \<Longrightarrow> P (s\<lparr>sv_rows := r\<rparr>)) \<Longrightarrow> sv_spec st P (sv_store (\<lambda>rows. markIngestComplete ts rows a m)) (\<lambda>_. P)"
proof (rule spec_store)
  fix rows assume ok: "idem_ok rows"
  have "rows_keep rows (fst (sql_update (\<lambda>r. idem_key r = (a, m) \<and> ie_ingestState r = IngestPending)
      (\<lambda>r. r\<lparr>ie_ingestState := IngestCompleted, ie_updatedAt := ts\<rparr>) rows))"
    by (rule rows_keep_update [OF ing.row_update_axioms]) simp
  then show "rows_keep rows (snd (markIngestComplete ts rows a m))"
    by (simp add: markIngestComplete_cases [OF ok] rows_keep_refl split: option.splits)
qed

text \<open>Every change of the buffer by one of its operations.\<close>

lemma held_buffer:
  assumes "states_ok states" "held_begun sha rows states" "\<forall>rec \<in> set (arrival op). record_begun sha rows rec"
    and "buffer_do cfg op states = (batches, states')"
  shows "states_ok states' \<and> held_begun sha rows states'"
proof -
  have c: "conserves states (arrival op) batches states'" using conserves_do [OF assms(1), of cfg op] assms(4) by simp
  have sub: "set (backlog_of states' a k) \<subseteq> set (backlog_of states a k) \<union> set (arrival op)" for a k
  proof -
    have "filter (of_conv a k) (concat batches) @ backlog_of states' a k = backlog_of states a k @ filter (of_conv a k) (arrival op)"
      using c by simp
    then have "set (backlog_of states' a k) \<subseteq> set (backlog_of states a k @ filter (of_conv a k) (arrival op))" by (metis set_append sup_ge2)
    then show ?thesis by auto
  qed
  have "record_begun sha rows rec" if "rec \<in> set (backlog_of states' a k)" for rec a k
    using that sub [of a k] assms(2,3) by (auto simp: held_begun_def)
  then show ?thesis using c by (simp add: held_begun_def)
qed

section \<open>Operations without an await\<close>

lemma remove_upd: "remove_active key i (upd_corr j f s) = upd_corr j f (remove_active key i s)"
  by (simp add: remove_active_def upd_corr_def)

lemma sv_inv_cleanup:
  assumes "sv_inv st s"
  shows "sv_inv st (snd (cleanupCorrelation key i s))"
proof -
  let ?f = "\<lambda>c. c\<lparr>ac_lease := None, ac_draining := True\<rparr>"
  have u: "sv_inv st (upd_corr i ?f s)" by (rule sv_inv_upd [OF assms]) (simp_all add: corr_key_def)
  have "ac_lease (corr_at (upd_corr i ?f s) i) = None \<or> length (sv_corrs (upd_corr i ?f s)) \<le> i"
    using corr_at_upd [of i s ?f i] by auto
  then have "sv_inv st (upd_corr i ?f (remove_active key i s))" using sv_inv_remove [OF u] by (simp add: remove_upd)
  then show ?thesis by (rule sv_inv_fields) (simp_all add: cleanup_result upd_corr_def)
qed

lemma cleanup_active: "sv_active (snd (cleanupCorrelation key i s)) = sv_active (remove_active key i s)"
  by (simp add: cleanup_result)

lemma spec_cleanup: "sv_keeps st (cleanupCorrelation key i)"
  by (rule sv_specI) (simp add: sv_inv_cleanup)

lemma spec_set_terminal: "(\<And>s. P s \<Longrightarrow> P (upd_corr i (\<lambda>c. c\<lparr>ac_terminalEmitted := True\<rparr>) s)) \<Longrightarrow> sv_spec st P (sv_modify (set_terminal i)) (\<lambda>_. P)"
  unfolding set_terminal_def
  by (rule spec_modify) (auto intro!: sv_inv_upd simp: corr_key_def)

lemmas keeps_emitter = spec_emitter [where P = "\<lambda>_. True", simplified]

text \<open>The rules that close the steps of an operation without an assertion.\<close>

lemma keeps_bind: "sv_keeps st m \<Longrightarrow> (\<And>x. sv_keeps st (f x)) \<Longrightarrow> sv_keeps st (sv_bind m f)"
  by (rule spec_bind) (auto intro: spec_keeps)

lemma keeps_get: "sv_keeps st (sv_get f)"
  by (simp add: sv_spec_def)

lemma keeps_simple:
  "sv_keeps st (sv_return x)" "sv_keeps st (sv_raise e)" "sv_keeps st (sv_trace c)" "sv_keeps st (sv_read r)" "sv_keeps st (sv_modify (set_terminal i))"
  "sv_keeps st (sv_store (\<lambda>rows. (g rows, rows)))" "sv_keeps st (sv_store (\<lambda>rows. markIngestComplete ts rows a m))"
  by (simp_all add: spec_return spec_raise spec_trace spec_read spec_set_terminal spec_store_read spec_mark_ingest)

lemma keeps_ops:
  "sv_keeps st (emitter_do st i (\<lambda>opts env. emitPresence opts env p))" "sv_keeps st (emitter_do st i (\<lambda>opts env. ingest_frame opts env frame))"
  "sv_keeps st (emitter_do st i (\<lambda>opts env. emitProviderError opts env code msg r))" "sv_keeps st (emitter_do st i (\<lambda>opts env. redeliverDurable opts env e))"
  "sv_keeps st (emitter_do st i (\<lambda>opts env. emitDirectReply opts env text))" "sv_keeps st (emitter_do st i emitCancelled)"
  by (rule keeps_emitter; rule corr_hooks.operations_keep)+

lemma keeps_catch: "sv_keeps st m \<Longrightarrow> (\<And>e. sv_keeps st (h e)) \<Longrightarrow> sv_keeps st (sv_catch m h)"
  by (rule spec_catch)

lemma keeps_interaction: "sv_spec st P (record_interaction st a k) (\<lambda>_ _. True)"
proof -
  have "sv_spec st (\<lambda>_. True) (sv_modify (\<lambda>s. s\<lparr>sv_buffer := snd (recordInteraction cfg (sv_buffer s) now a k)\<rparr>)) (\<lambda>_ _. True)" for cfg now
  proof (rule spec_modify, rule conjI)
    fix s assume inv: "sv_inv st s"
    have "states_ok (snd (recordInteraction cfg (sv_buffer s) now a k)) \<and>
        held_begun (su_sha256 st) (sv_rows s) (snd (recordInteraction cfg (sv_buffer s) now a k))"
      by (rule held_buffer [where op = "(now, OInteraction a k)" and cfg = cfg and states = "sv_buffer s" and batches = "[]"])
        (use inv in \<open>simp_all add: sv_inv_def\<close>)
    then show "sv_inv st (s\<lparr>sv_buffer := snd (recordInteraction cfg (sv_buffer s) now a k)\<rparr>)"
      using inv by (simp add: sv_inv_def)
  qed simp
  then have "sv_keeps st (record_interaction st a k)"
    unfolding record_interaction_def by (intro keeps_bind keeps_simple)
  then show ?thesis by (rule spec_keeps)
qed

lemmas keeps_rules = keeps_bind keeps_get keeps_simple keeps_ops keeps_interaction spec_cleanup keeps_catch spec_if spec_option

lemma keeps_failCorrelation: "sv_keeps st (failCorrelation st key)"
  unfolding failCorrelation_def by (intro keeps_rules)

lemma keeps_child_failure: "sv_keeps st (on_child_error st a k child)" "sv_keeps st (on_child_exit st a k child)"
  unfolding on_child_error_def on_child_exit_def by (intro keeps_rules keeps_failCorrelation)+

lemma keeps_count_down: "sv_keeps st (sv_modify (upd_corr i (\<lambda>c. c\<lparr>ac_pendingFollowUps := f c\<rparr>)))"
  by (rule spec_modify) (auto intro!: sv_inv_upd simp: corr_key_def)

lemma keeps_handleChildEvent: "sv_keeps st (handleChildEvent st key frame)"
  unfolding handleChildEvent_def sv_handleAgentEnd_def by (intro keeps_rules keeps_count_down)

lemma keeps_dismiss: "sv_keeps st (dismissEngagement st a k)"
proof (rule sv_specI)
  fix s assume inv: "sv_inv st s"
  let ?d = "dismiss (sv_buffer s) (su_now st (sv_reads s)) a k"
  have "states_ok (snd ?d) \<and> held_begun (su_sha256 st) (sv_rows s) (snd ?d)"
    by (rule held_buffer [where op = "(su_now st (sv_reads s), ODismiss a k)" and states = "sv_buffer s" and batches = "[]"])
      (use inv in \<open>simp_all add: sv_inv_def\<close>)
  then show "sv_inv st (snd (dismissEngagement st a k s)) \<and> (\<forall>x. fst (dismissEngagement st a k s) = Inr x \<longrightarrow> True)"
    using inv by (simp add: dismissEngagement_def sv_inv_def case_prod_beta)
qed

section \<open>Operations that wait\<close>

text \<open>
  What an awaited call may do: keep the invariant, and make no correlation active for the
  conversation whose message is being processed (its inbound work is serialized).
\<close>

definition awaits_ok :: "core_setup \<Rightarrow> string \<Rightarrow> string \<Rightarrow> 'a sv \<Rightarrow> bool" where
  "awaits_ok st a k m \<longleftrightarrow> (\<forall>s. sv_inv st s \<longrightarrow> sv_inv st (snd (m s)) \<and>
     (active_of a k (snd (m s)) = active_of a k s \<or> active_of a k (snd (m s)) = None))"

definition world_ok :: "core_setup \<Rightarrow> string \<Rightarrow> string \<Rightarrow> world \<Rightarrow> bool" where
  "world_ok st a k w \<longleftrightarrow> (\<forall>x1 x2 p. awaits_ok st a k (wd_acquire w x1 x2 p)) \<and> (\<forall>c t b im. awaits_ok st a k (wd_prompt w c t b im)) \<and>
     (\<forall>c. awaits_ok st a k (wd_abort w c)) \<and> (\<forall>x1 x2. awaits_ok st a k (wd_retireConversation w x1 x2)) \<and>
     (\<forall>p. awaits_ok st a k (wd_readFile w p)) \<and> (\<forall>i. awaits_ok st a k (wd_delivered w i)) \<and> (\<forall>x1 x2. awaits_ok st a k (wd_recovered w x1 x2))"

text \<open>The active correlation of the conversation is the given one, or there is none.\<close>

definition at_most :: "string \<Rightarrow> string \<Rightarrow> nat \<Rightarrow> supervisor \<Rightarrow> bool" where
  "at_most a k i s \<longleftrightarrow> active_of a k s = Some i \<or> active_of a k s = None"

lemma at_most_fields [simp]:
  "at_most a k i (s\<lparr>sv_calls := l\<rparr>) = at_most a k i s" "at_most a k i (upd_corr j f s) = at_most a k i s"
  by (simp_all add: at_most_def active_of_def)

lemma await_keeps: "awaits_ok st a k m \<Longrightarrow> sv_keeps st m"
  by (simp add: awaits_ok_def sv_spec_def)

lemma await_idle: "awaits_ok st a k m \<Longrightarrow> sv_spec st (idle_at a k) m (\<lambda>_. idle_at a k)"
  by (auto simp: awaits_ok_def sv_spec_def idle_at_def)

lemma await_at_most: "awaits_ok st a k m \<Longrightarrow> sv_spec st (at_most a k i) (sv_catch m (\<lambda>_. sv_return x)) (\<lambda>_. at_most a k i)"
  by (fastforce simp: awaits_ok_def sv_spec_def at_most_def sv_catch_def split: prod.split sum.split)

lemma spec_cleanup_idle: "sv_spec st (at_most a k i) (cleanupCorrelation (compositeKey a k) i) (\<lambda>_. idle_at a k)"
  by (rule sv_specI) (auto simp: sv_inv_cleanup idle_at_def active_of_def cleanup_active active_remove at_most_def)

lemma spec_interrupt:
  assumes "world_ok st a k w"
  shows "sv_spec st (\<lambda>s. active_of a k s = Some i) (interruptTurn st w i) (\<lambda>_. idle_at a k)"
proof -
  let ?A = "at_most a k i"
  have em: "sv_spec st ?A (emitter_do st i emitCancelled) (\<lambda>_. ?A)"
    by (rule spec_emitter, rule corr_hooks.emitCancelled_keeps) (simp add: at_most_def active_of_def)
  have abort: "sv_spec st ?A (sv_bind (sv_trace (CallAbort child)) (\<lambda>_. sv_catch (wd_abort w child) (\<lambda>_. sv_return ()))) (\<lambda>_. ?A)" for child
  proof (rule spec_bind)
    show "sv_spec st ?A (sv_trace (CallAbort child)) (\<lambda>_. ?A)" by (rule spec_trace) simp
    show "sv_spec st ?A (sv_catch (wd_abort w child) (\<lambda>_. sv_return ())) (\<lambda>_. ?A)"
      by (rule await_at_most) (use assms in \<open>simp add: world_ok_def\<close>)
  qed
  have rest: "sv_spec st ?A (sv_bind (emitter_do st i emitCancelled) (\<lambda>_. sv_bind (sv_modify (set_terminal i)) (\<lambda>_.
     sv_bind (sv_get (\<lambda>s. ac_lease (corr_at s i))) (\<lambda>lease.
     sv_bind (case lease of None \<Rightarrow> sv_return () | Some child \<Rightarrow> sv_bind (sv_trace (CallAbort child)) (\<lambda>_. sv_catch (wd_abort w child) (\<lambda>_. sv_return ())))
       (\<lambda>_. cleanupCorrelation (compositeKey a k) i))))) (\<lambda>_. idle_at a k)"
  proof (rule spec_bind [OF em])
    let ?abort = "\<lambda>lease. case lease of None \<Rightarrow> sv_return () | Some child \<Rightarrow> sv_bind (sv_trace (CallAbort child)) (\<lambda>_. sv_catch (wd_abort w child) (\<lambda>_. sv_return ()))"
    have "sv_spec st ?A (?abort lease) (\<lambda>_. ?A)" for lease by (cases lease) (simp_all add: abort spec_return)
    then have c: "sv_spec st ?A (sv_bind (?abort lease) (\<lambda>_. cleanupCorrelation (compositeKey a k) i)) (\<lambda>_. idle_at a k)" for lease
      by (rule spec_bind) (rule spec_cleanup_idle)
    have g: "sv_spec st ?A (sv_get (\<lambda>s. ac_lease (corr_at s i))) (\<lambda>_. ?A)" by (rule spec_weaken [OF spec_get]) simp_all
    have t: "sv_spec st ?A (sv_modify (set_terminal i)) (\<lambda>_. ?A)" by (rule spec_set_terminal) simp
    show "sv_spec st ?A (sv_bind (sv_modify (set_terminal i)) (\<lambda>_. sv_bind (sv_get (\<lambda>s. ac_lease (corr_at s i)))
        (\<lambda>lease. sv_bind (?abort lease) (\<lambda>_. cleanupCorrelation (compositeKey a k) i)))) (\<lambda>_. idle_at a k)"
      by (rule spec_bind [OF t], rule spec_bind [OF g], rule c)
  qed
  show ?thesis
    unfolding interruptTurn_def
  proof (rule spec_bind [where Q = "\<lambda>convKey s. ?A s \<and> convKey = compositeKey a k"])
    show "sv_spec st (\<lambda>s. active_of a k s = Some i) (sv_get (\<lambda>s. compositeKey (ac_adapterId (corr_at s i)) (ac_conversationKey (corr_at s i))))
        (\<lambda>convKey s. ?A s \<and> convKey = compositeKey a k)"
      by (rule sv_specI) (auto simp: sv_inv_def active_of_def at_most_def corr_key_def)
  next
    fix convKey
    show "sv_spec st (\<lambda>s. ?A s \<and> convKey = compositeKey a k) (sv_bind (emitter_do st i emitCancelled) (\<lambda>_. sv_bind (sv_modify (set_terminal i)) (\<lambda>_.
     sv_bind (sv_get (\<lambda>s. ac_lease (corr_at s i))) (\<lambda>lease.
     sv_bind (case lease of None \<Rightarrow> sv_return () | Some child \<Rightarrow> sv_bind (sv_trace (CallAbort child)) (\<lambda>_. sv_catch (wd_abort w child) (\<lambda>_. sv_return ())))
       (\<lambda>_. cleanupCorrelation convKey i))))) (\<lambda>_. idle_at a k)"
      using rest by (cases "convKey = compositeKey a k") (simp_all add: sv_spec_def)
  qed
qed

lemma spec_register: "sv_spec st (idle_at a k) (register_correlation st a k c lease terminal) (\<lambda>_ _. True)"
proof (rule sv_specI)
  fix s assume "idle_at a k s" "sv_inv st s"
  then show "sv_inv st (snd (register_correlation st a k c lease terminal s)) \<and> (\<forall>x. fst (register_correlation st a k c lease terminal s) = Inr x \<longrightarrow> True)"
    using sv_inv_register [of st s a k c lease terminal "fst (register_correlation st a k c lease terminal s)"]
    by (simp add: idle_at_def active_of_def)
qed

lemma keeps_prompt: "world_ok st a k w \<Longrightarrow> sv_keeps st (prompt_child w child text steer images op)"
  unfolding prompt_child_def
  by (intro keeps_rules await_keeps [where a = a and k = k]) (simp add: world_ok_def)

lemma keeps_rendered: "sv_keeps st (rendered st a m)"
  unfolding rendered_def by (intro keeps_rules)

lemma keeps_ambient: "world_ok st a k w \<Longrightarrow> sv_keeps st (runAmbientCommand st w child a' m t)"
  unfolding runAmbientCommand_def by (intro keeps_rules keeps_rendered keeps_prompt)

lemma keeps_await:
  assumes "world_ok st a k w"
  shows "sv_keeps st (wd_acquire w x1 x2 p)" "sv_keeps st (wd_readFile w f)" "sv_keeps st (wd_delivered w i)" "sv_keeps st (wd_retireConversation w x1 x2)"
    "sv_keeps st (wd_recovered w x1 x2)"
  using assms by (auto simp: world_ok_def intro: await_keeps [where a = a and k = k])

lemma keeps_append: "world_ok st a k w \<Longrightarrow> sv_keeps st (appendPassiveMessage st w a' m t)"
  unfolding appendPassiveMessage_def
  by (intro keeps_rules keeps_ambient keeps_await)

lemma keeps_images: "world_ok st a k w \<Longrightarrow> sv_keeps st (loadImages st w atts)"
  by (induction atts) (auto simp: Let_def intro!: keeps_rules keeps_await split: option.split)

lemma keeps_dispatch: "world_ok st a k w \<Longrightarrow> sv_keeps st (dispatch st w i child a' m mode)"
  by (cases mode) (auto simp: dispatch_def intro!: keeps_rules keeps_rendered keeps_images keeps_prompt keeps_ambient keeps_count_down)

lemma keeps_complete: "sv_keeps st (complete_ingest st a m)"
  unfolding complete_ingest_def by (intro keeps_rules)

text \<open>A read of the active correlation decides; only in the idle branch may a correlation be registered.\<close>

lemma keeps_if_idle:
  assumes "\<And>i. sv_keeps st (f (Some i))" "sv_spec st (idle_at a k) (f None) (\<lambda>_ _. True)"
  shows "sv_keeps st (sv_bind (sv_get (active_of a k)) f)"
proof (rule spec_bind [OF spec_get])
  fix x
  show "sv_spec st (\<lambda>s. True \<and> x = active_of a k s) (f x) (\<lambda>_ _. True)"
  proof (cases x)
    case None
    then show ?thesis using assms(2) by (auto simp: sv_spec_def idle_at_def)
  next
    case (Some i)
    then show ?thesis using assms(1) spec_keeps by metis
  qed
qed

lemma spec_idle_bind: "sv_spec st (idle_at a k) m (\<lambda>_. idle_at a k) \<Longrightarrow> (\<And>x. sv_spec st (idle_at a k) (f x) Q) \<Longrightarrow> sv_spec st (idle_at a k) (sv_bind m f) Q"
  by (rule spec_bind)

lemma idle_steps:
  "sv_spec st (idle_at a k) (sv_trace c) (\<lambda>_. idle_at a k)" "sv_spec st (idle_at a k) (sv_get f) (\<lambda>_. idle_at a k)"
  "sv_spec st (idle_at a k) (sv_store (\<lambda>rows. (g rows, rows))) (\<lambda>_. idle_at a k)"
  "sv_spec st (idle_at a k) (sv_modify (\<lambda>s. s\<lparr>sv_sessions := h s\<rparr>)) (\<lambda>_. idle_at a k)"
  "sv_spec st (idle_at a k) (sv_return x) (\<lambda>_. idle_at a k)"
  by (rule spec_trace, simp) (rule spec_weaken [OF spec_get], simp_all add: spec_store_read spec_return spec_modify sv_inv_counters)

lemma interaction_active: "sv_active (snd (record_interaction st a k s)) = sv_active s"
  by (simp add: record_interaction_def)

lemma idle_interaction: "sv_spec st (idle_at a k) (record_interaction st a' k') (\<lambda>_. idle_at a k)"
  using keeps_interaction [of st "idle_at a k" a' k'] by (simp add: sv_spec_def idle_at_def active_of_def interaction_active)

lemma keeps_ensure:
  assumes "world_ok st a (im_conversationKey m) w"
  shows "sv_keeps st (ensure_correlation st w a m c)"
proof -
  have acq: "sv_spec st (idle_at a (im_conversationKey m)) (wd_acquire w x1 x2 p) (\<lambda>_. idle_at a (im_conversationKey m))" for x1 x2 p
    using assms by (auto simp: world_ok_def intro: await_idle)
  show ?thesis unfolding ensure_correlation_def
  proof (rule keeps_if_idle, goal_cases)
    case (1 i) then show ?case by (simp add: spec_return)
  next
    case 2 show ?case by (simp, rule spec_idle_bind [OF idle_steps(1)], rule spec_idle_bind [OF acq], rule spec_register)
  qed
qed

lemma keeps_reset:
  assumes w: "world_ok st a (im_conversationKey m) w"
  shows "sv_keeps st (handleSessionReset st w a m c)"
proof -
  let ?k = "im_conversationKey m"
  let ?rest = "\<lambda>_ :: unit. sv_bind (sv_trace (CallRetireConversation a ?k)) (\<lambda>_.
      sv_bind (wd_retireConversation w a ?k) (\<lambda>_.
      sv_bind (sv_get (\<lambda>s. fst (forget (sv_sessions s) a ?k))) (\<lambda>existed.
      sv_bind (sv_modify (\<lambda>s. s\<lparr>sv_sessions := snd (forget (sv_sessions s) a ?k)\<rparr>)) (\<lambda>_.
      sv_bind (record_interaction st a ?k) (\<lambda>_.
      sv_bind (register_correlation st a ?k c None False) (\<lambda>i.
      sv_bind (emitter_do st i (\<lambda>opts env. emitDirectReply opts env
          (if existed then ''Started a new session. Earlier messages are no longer in context.'' else ''Already on a new session.''))) (\<lambda>_.
      sv_bind (sv_modify (set_terminal i)) (\<lambda>_. cleanupCorrelation (compositeKey a ?k) i))))))))"
  have ret: "sv_spec st (idle_at a ?k) (wd_retireConversation w x1 x2) (\<lambda>_. idle_at a ?k)" for x1 x2
    using w by (auto simp: world_ok_def intro: await_idle)
  have tail: "sv_keeps st (sv_bind (emitter_do st i (\<lambda>opts env. emitDirectReply opts env t)) (\<lambda>_. sv_bind (sv_modify (set_terminal i)) (\<lambda>_. cleanupCorrelation (compositeKey a ?k) i)))" for i t
    by (intro keeps_rules)
  have rest: "sv_spec st (idle_at a ?k) (?rest u) (\<lambda>_ _. True)" for u
    by (rule spec_idle_bind [OF idle_steps(1)], rule spec_idle_bind [OF ret], rule spec_idle_bind [OF idle_steps(2)], rule spec_idle_bind [OF idle_steps(4)],
        rule spec_idle_bind [OF idle_interaction], rule spec_bind [OF spec_register], rule tail)
  show ?thesis unfolding handleSessionReset_def Let_def
  proof (rule spec_bind [OF spec_get])
    fix active
    show "sv_spec st (\<lambda>s. True \<and> active = active_of a ?k s) (sv_bind (case active of None \<Rightarrow> sv_return () | Some i \<Rightarrow> interruptTurn st w i) ?rest) (\<lambda>_ _. True)"
    proof (rule spec_bind [OF _ rest])
      show "sv_spec st (\<lambda>s. True \<and> active = active_of a ?k s) (case active of None \<Rightarrow> sv_return () | Some i \<Rightarrow> interruptTurn st w i) (\<lambda>_. idle_at a ?k)"
      proof (cases active)
        case None
        have "sv_spec st (\<lambda>s. None = active_of a ?k s) (sv_return ()) (\<lambda>_. idle_at a ?k)" by (rule spec_return) (simp add: idle_at_def)
        then show ?thesis using None by simp
      next
        case (Some i)
        then show ?thesis by (auto intro!: spec_weaken [OF spec_interrupt [OF w, of i]])
      qed
    qed
  qed
qed

lemma keeps_activate:
  assumes "world_ok st a (im_conversationKey m) w"
  shows "sv_keeps st (activate st w a m c mode)"
proof -
  have count: "sv_keeps st (sv_modify (upd_corr i (\<lambda>c. if P c then c\<lparr>ac_pendingFollowUps := f c\<rparr> else c)))" for i P f
    by (rule spec_modify) (auto intro!: sv_inv_upd simp: corr_key_def split: if_splits)
  show ?thesis unfolding activate_def
    by (intro keeps_rules keeps_reset keeps_ensure keeps_dispatch [OF assms] keeps_complete count assms)
qed

lemma keeps_terminalize: "sv_keeps st (terminalizeAcceptedInbound st a m c)"
proof -
  have reg: "sv_spec st (idle_at a k) (sv_bind (sv_store (\<lambda>rows. (g rows, rows))) (\<lambda>_. register_correlation st a k c None b)) (\<lambda>_ _. True)" for g k b
    by (rule spec_idle_bind [OF idle_steps(3)], rule spec_register)
  have tail: "sv_keeps st (sv_bind (sv_get (\<lambda>s. ac_terminalEmitted (corr_at s i))) (\<lambda>terminal.
            if terminal then sv_return ()
            else sv_bind (sv_modify (set_terminal i)) (\<lambda>_.
              sv_bind (emitter_do st i (\<lambda>opts env. emitProviderError opts env code msg r)) (\<lambda>_. cleanupCorrelation key i))))" for i code msg r key
    by (intro keeps_rules)
  show ?thesis unfolding terminalizeAcceptedInbound_def Let_def
  proof (rule keeps_bind [OF keeps_simple(6)], rule spec_if)
    fix entry :: "IdempotencyEntry option"
    show "sv_keeps st (sv_bind (sv_get (active_of a (im_conversationKey m))) (\<lambda>active.
          sv_bind (case active of Some i \<Rightarrow> sv_return i
            | None \<Rightarrow> sv_bind (sv_store (\<lambda>rows. (getEntriesByCorrelation rows a c, rows))) (\<lambda>_. register_correlation st a (im_conversationKey m) c None False)) (\<lambda>i.
          sv_bind (sv_get (\<lambda>s. ac_terminalEmitted (corr_at s i))) (\<lambda>terminal.
            if terminal then sv_return ()
            else sv_bind (sv_modify (set_terminal i)) (\<lambda>_.
              sv_bind (emitter_do st i (\<lambda>opts env. emitProviderError opts env ''agent_unavailable'' ''Agent process could not accept the message'' True)) (\<lambda>_.
                cleanupCorrelation (compositeKey a (im_conversationKey m)) i))))))"
    proof (rule keeps_if_idle, goal_cases)
      case (1 i) show ?case by (simp, rule keeps_bind [OF keeps_simple(1)], rule tail)
    next
      case 2 show ?case by (simp del: sv_bind_simps, rule spec_bind [OF reg], rule tail)
    qed
  qed (rule keeps_simple)
qed

end
