(* ===== verification/Supervisor_Laws.thy ===== *)
theory Supervisor_Laws
  imports Supervisor_Inv
begin

text \<open>
  The whole handler of an inbound message and the flush of settled backlogs keep the invariant
  of the supervisor; the properties of the supervisor: no child is leaked, follow-up turns
  count down, a redelivered message cancels the turn it belongs to, and a settled backlog
  never starts a turn.
\<close>

section \<open>Acceptance\<close>

definition accepted :: "core_setup \<Rightarrow> string \<Rightarrow> InboundMessage \<Rightarrow> supervisor \<Rightarrow> bool" where
  "accepted st a m s \<longleftrightarrow> a \<noteq> [] \<and> im_messageId m \<noteq> [] \<and>
     map_option ie_payloadHash (idem_row (sv_rows s) a (im_messageId m)) = Some (canonicalPayloadHash (su_sha256 st) m)"

lemma held_begun_insert:
  assumes "held_begun sha rows states" "idem_row rows (fst (idem_key r)) (snd (idem_key r)) = None"
  shows "held_begun sha (rows @ [r]) states"
proof -
  have "idem_row (rows @ [r]) a m = Some y" if "idem_row rows a m = Some y" for a m y
    using that assms(2) by (auto simp: row_at_insert)
  then have "record_begun sha (rows @ [r]) rec" if "record_begun sha rows rec" for rec
    using that by (fastforce simp: record_begun_def)
  then show ?thesis using assms(1) by (auto simp: held_begun_def)
qed

lemma sv_inv_insert:
  assumes "sv_inv st s" "row_ok r" "idem_row (sv_rows s) (fst (idem_key r)) (snd (idem_key r)) = None"
  shows "sv_inv st (s\<lparr>sv_rows := sv_rows s @ [r]\<rparr>)"
  using assms held_begun_insert [of "su_sha256 st" "sv_rows s" "sv_buffer s" r]
  by (simp add: sv_inv_def tbl_ok_insert)

lemma spec_begin:
  assumes P: "\<And>s n r. P s \<Longrightarrow> P (s\<lparr>sv_reads := n, sv_rows := r\<rparr>)"
  shows "sv_spec st P (begin_inbound st a m c) (\<lambda>r s. P s \<and> (\<forall>c. r = Created c \<longrightarrow> accepted st a m s))"
proof (rule sv_specI)
  fix s assume p: "P s" and inv: "sv_inv st s"
  have ok: "idem_ok (sv_rows s)" using inv by (simp add: sv_inv_def)
  let ?n = "Suc (Suc (sv_reads s))" and ?f = "fresh_row (su_sha256 st) (su_uuid st (sv_reads s)) (su_stamp st (Suc (sv_reads s))) a m c"
  let ?b = "beginInbound (su_sha256 st) (su_uuid st (sv_reads s)) (su_stamp st (Suc (sv_reads s))) (sv_rows s) a m c"
  have run: "begin_inbound st a m c s = (map_sum StoreThrew id (fst ?b), s\<lparr>sv_reads := ?n, sv_rows := snd ?b\<rparr>)"
    by (simp add: begin_inbound_def sv_store_def case_prod_beta)
  have inv': "sv_inv st (s\<lparr>sv_reads := ?n\<rparr>)" by (rule sv_inv_counters [OF inv])
  show "sv_inv st (snd (begin_inbound st a m c s)) \<and> (\<forall>x. fst (begin_inbound st a m c s) = Inr x \<longrightarrow>
      P (snd (begin_inbound st a m c s)) \<and> (\<forall>c'. x = Created c' \<longrightarrow> accepted st a m (snd (begin_inbound st a m c s))))"
  proof (cases "snd ?b = sv_rows s")
    case True
    have "accepted st a m s \<or> (\<forall>x c'. fst ?b = Inr x \<longrightarrow> x \<noteq> Created c')"
      using True by (auto simp: beginInbound_cases [OF ok] classifyExisting_def accepted_def split: if_splits option.splits DeliveryState.splits)
    moreover have "s\<lparr>sv_reads := ?n, sv_rows := sv_rows s\<rparr> = s\<lparr>sv_reads := ?n\<rparr>" by simp
    ultimately show ?thesis using inv' P [OF p, of "sv_rows s" ?n] True by (cases "fst ?b") (auto simp: run accepted_def)
  next
    case False
    then have none: "idem_row (sv_rows s) a (im_messageId m) = None" and ne: "a \<noteq> []" "im_messageId m \<noteq> []" and b: "snd ?b = sv_rows s @ [?f]"
      by (auto simp: beginInbound_cases [OF ok] split: if_splits option.splits)
    have "sv_inv st (s\<lparr>sv_reads := ?n, sv_rows := sv_rows s @ [?f]\<rparr>)"
      using sv_inv_insert [OF inv' fresh_row_ok] none by (simp add: fresh_row_key)
    moreover have "map_option ie_payloadHash (idem_row (sv_rows s @ [?f]) a (im_messageId m)) = Some (canonicalPayloadHash (su_sha256 st) m)"
      using none by (simp add: row_at_insert fresh_row_key) (simp add: fresh_row_def)
    ultimately show ?thesis using P [OF p, of "sv_rows s @ [?f]" ?n] ne by (simp add: run b accepted_def)
  qed
qed

lemma keeps_begin: "sv_keeps st (begin_inbound st a m c)"
  by (rule spec_weaken [OF spec_begin [where P = "\<lambda>_. True"]]) simp_all

lemma spec_conflict: "sv_spec st (\<lambda>_. True) (begin_or_conflict st a m c) (\<lambda>r s. \<forall>c. r = Created c \<longrightarrow> accepted st a m s)"
  unfolding begin_or_conflict_def
  by (rule spec_catch, rule spec_weaken [OF spec_begin [where P = "\<lambda>_. True"]]) (auto simp: spec_raise split: sv_throw.split idem_error.split)

lemma spec_ingest: "sv_spec st (accepted st a m) (ingest_message st a m) (\<lambda>_ _. True)"
proof (rule sv_specI)
  fix s assume acc: "accepted st a m s" and inv: "sv_inv st s"
  let ?now = "su_now st (sv_reads s)" and ?str = "isStreaming a (im_conversationKey m) s"
  let ?g = "ingest (buffer_cfg st) (sv_buffer s) ?now a m ?str"
  have str: "isStreaming a (im_conversationKey m) (s\<lparr>sv_reads := n\<rparr>) = ?str" for n by (simp add: isStreaming_def active_of_def split: option.split)
  obtain batches where b: "buffer_do (buffer_cfg st) (?now, OIngest a m ?str) (sv_buffer s) = (batches, snd ?g)"
    by (cases ?g, cases "fst ?g") simp_all
  have "record_begun (su_sha256 st) (sv_rows s) (toRecord a m ?now)"
    using acc by (auto simp: record_begun_def accepted_def toRecord_def intro!: exI [of _ m])
  then have "states_ok (snd ?g) \<and> held_begun (su_sha256 st) (sv_rows s) (snd ?g)"
    using held_buffer [OF _ _ _ b, of "su_sha256 st" "sv_rows s"] inv by (simp add: sv_inv_def)
  then show "sv_inv st (snd (ingest_message st a m s)) \<and> (\<forall>x. fst (ingest_message st a m s) = Inr x \<longrightarrow> True)"
    using inv by (simp add: ingest_message_def sv_inv_def case_prod_beta str)
qed

section \<open>The handler of one message\<close>

lemma keeps_redeliver:
  assumes "world_ok st a (im_conversationKey m) w"
  shows "sv_keeps st (redeliverSaved st w a m c response)"
proof -
  let ?k = "im_conversationKey m"
  let ?drop = "\<lambda>i s. remove_active (compositeKey a ?k) i (upd_corr i (\<lambda>c. c\<lparr>ac_emitter := close_emitter (ac_emitter c)\<rparr>) s)"
  have reg: "sv_spec st (idle_at a ?k) (sv_bind (sv_store (\<lambda>rows. (g rows, rows))) (\<lambda>_. register_correlation st a ?k c None b)) (\<lambda>_ _. True)" for g b
    by (rule spec_idle_bind [OF idle_steps(3)], rule spec_register)
  have drop: "sv_keeps st (sv_bind (sv_get (\<lambda>s. ac_lease (corr_at s i))) (\<lambda>lease. if lease = None then sv_modify (?drop i) else sv_return ()))" for i
  proof (rule sv_specI)
    fix s assume inv: "sv_inv st s"
    have u: "sv_inv st (upd_corr i (\<lambda>c. c\<lparr>ac_emitter := close_emitter (ac_emitter c)\<rparr>) s)"
      by (rule sv_inv_upd [OF inv]) (simp_all add: corr_key_def)
    have "sv_inv st (?drop i s)" if "ac_lease (corr_at s i) = None"
      by (rule sv_inv_remove [OF u], cases "i < length (sv_corrs s)") (use that in \<open>simp_all add: corr_at_upd\<close>)
    then show "sv_inv st (snd (sv_bind (sv_get (\<lambda>s. ac_lease (corr_at s i))) (\<lambda>lease. if lease = None then sv_modify (?drop i) else sv_return ()) s)) \<and>
        (\<forall>x. fst (sv_bind (sv_get (\<lambda>s. ac_lease (corr_at s i))) (\<lambda>lease. if lease = None then sv_modify (?drop i) else sv_return ()) s) = Inr x \<longrightarrow> True)"
      using inv by simp
  qed
  have tail: "sv_keeps st (sv_bind (sv_store (\<lambda>rows. (getEntriesByCorrelation rows a c, rows))) (\<lambda>_.
      sv_bind (case read_event response of None \<Rightarrow> sv_raise Not_an_event | Some event \<Rightarrow> emitter_do st i (\<lambda>opts env. redeliverDurable opts env event)) (\<lambda>_.
      sv_bind (wd_delivered w i) (\<lambda>_.
      sv_bind (sv_get (\<lambda>s. ac_lease (corr_at s i))) (\<lambda>lease. if lease = None then sv_modify (?drop i) else sv_return ())))))" for i
    by (intro keeps_bind keeps_simple spec_option keeps_ops keeps_await [OF assms] drop)
  show ?thesis unfolding redeliverSaved_def Let_def
  proof (rule keeps_if_idle, goal_cases)
    case (1 i) show ?case by (simp, rule keeps_bind [OF keeps_simple(1)], rule tail)
  next
    case 2 show ?case by (simp del: sv_bind_simps, rule spec_bind [OF reg], rule tail)
  qed
qed

lemma keeps_created:
  assumes "world_ok st a (im_conversationKey m) w"
  shows "sv_spec st (accepted st a m) (process_created st w a m c) (\<lambda>_ _. True)"
  unfolding process_created_def
proof (rule spec_bind [OF spec_ingest])
  fix r
  show "sv_keeps st (case r of
         Buffered _ _ \<Rightarrow>
           sv_bind (sv_catch (sv_bind (appendPassiveMessage st w a m False) (\<lambda>_. sv_return True))
               (\<lambda>_. sv_bind (terminalizeAcceptedInbound st a m c) (\<lambda>_. sv_return False))) (\<lambda>appended.
           sv_bind (if appended then sv_bind (sv_read (su_stamp st)) (\<lambda>ts. sv_store (\<lambda>rows. markIngestComplete ts rows a (im_messageId m)))
                    else sv_return ()) (\<lambda>_. sv_return (Accepted c)))
       | Activate mode _ _ \<Rightarrow>
           sv_bind (sv_catch (activate st w a m c mode) (\<lambda>_. terminalizeAcceptedInbound st a m c)) (\<lambda>_. sv_return (Accepted c)))"
    by (cases r) (simp_all, (intro keeps_rules keeps_append [OF assms] keeps_terminalize keeps_activate [OF assms])+)
qed

lemma keeps_interrupt:
  assumes "world_ok st a k w"
  shows "sv_spec st (\<lambda>s. v = (case active_of a k s of Some i \<Rightarrow> if b s i then Some i else None | None \<Rightarrow> None))
    (case v of None \<Rightarrow> sv_return () | Some i \<Rightarrow> interruptTurn st w i) (\<lambda>_ _. True)"
proof (cases v)
  case None
  have "sv_spec st (\<lambda>s. None = (case active_of a k s of Some i \<Rightarrow> if b s i then Some i else None | None \<Rightarrow> None)) (sv_return ()) (\<lambda>_ _. True)"
    by (rule spec_return) simp
  then show ?thesis using None by simp
next
  case (Some i)
  then show ?thesis
    by (auto intro!: spec_weaken [OF spec_interrupt [OF assms, of i]] split: option.splits if_splits)
qed

lemma keeps_processInboundSerial:
  assumes w: "world_ok st a (im_conversationKey m) w"
  shows "sv_keeps st (processInboundSerial st w a m)"
  unfolding processInboundSerial_def Let_def
proof (rule keeps_bind, goal_cases)
  case 1 show ?case by (intro keeps_catch keeps_await [OF w] keeps_simple)
next
  case 2 show ?case
  proof (rule spec_bind [OF spec_get], rule spec_bind [where Q = "\<lambda>_ _. True"], goal_cases)
    case (1 x)
    show ?case
      by (rule spec_weaken [OF keeps_interrupt [OF w, where b = "\<lambda>s i. im_addressed m \<and> \<not> ac_terminalEmitted (corr_at s i)"]]) simp_all
  next
    case (2 x xa)
    show ?case
    proof (rule keeps_bind [OF keeps_get], rule spec_bind [OF spec_conflict], goal_cases)
      case (1 act begun)
      have c: "sv_keeps st (sv_bind (redeliverSaved st w a m c response) (\<lambda>_. sv_return (Duplicate c)))" for c response
        by (intro keeps_rules keeps_redeliver [OF w])
      have p: "sv_keeps st (sv_bind (if act \<noteq> None then sv_return ()
                     else sv_bind (sv_store (\<lambda>rows. (getEntry rows a (im_messageId m), rows))) (\<lambda>entry.
                       if map_option ie_ingestState entry = Some IngestPending
                       then terminalizeAcceptedInbound st a m c else sv_return ())) (\<lambda>_. sv_return (Duplicate c)))" for c
        by (intro keeps_rules keeps_terminalize)
      show ?case
      proof (cases begun)
        case (BPending c)
        show ?thesis unfolding BPending BeginInboundResult.case by (rule spec_keeps [OF p])
      qed (auto intro: spec_keeps [OF c] spec_keeps [OF keeps_simple(1)] spec_weaken [OF keeps_created [OF w]])
    qed
  qed
qed

section \<open>The flush of settled backlogs\<close>

lemma keeps_sweep: "sv_keeps st (sweep_buffer st)"
proof (rule sv_specI)
  fix s assume inv: "sv_inv st s"
  let ?g = "sweepSettled (buffer_cfg st) (sv_buffer s) (su_now st (sv_reads s))"
  have "buffer_do (buffer_cfg st) (su_now st (sv_reads s), OSweep) (sv_buffer s) = (map sa_records (fst ?g), snd ?g)" by (simp add: case_prod_beta)
  then have "states_ok (snd ?g) \<and> held_begun (su_sha256 st) (sv_rows s) (snd ?g)"
    using held_buffer [where op = "(su_now st (sv_reads s), OSweep)", of "sv_buffer s" "su_sha256 st" "sv_rows s"] inv by (simp add: sv_inv_def)
  then show "sv_inv st (snd (sweep_buffer st s)) \<and> (\<forall>x. fst (sweep_buffer st s) = Inr x \<longrightarrow> True)"
    using inv by (simp add: sweep_buffer_def sv_inv_def case_prod_beta)
qed

lemma settled_key: "im_conversationKey (settled_message x) = sa_conversationKey x"
  by (simp add: settled_message_def Let_def)

lemma keeps_flush:
  assumes "\<And>a k. world_ok st a k w"
  shows "sv_keeps st (flushSettled st w)"
proof -
  have one: "sv_keeps st (flush_one st w x)" for x
    unfolding flush_one_def by (intro keeps_catch keeps_bind keeps_begin keeps_activate assms keeps_simple)
  have all: "sv_keeps st (flush_all st w xs)" for xs
    by (induction xs) (simp_all only: flush_all.simps keeps_simple keeps_bind one)
  show ?thesis unfolding flushSettled_def by (intro keeps_rules keeps_sweep all)
qed

section \<open>Runs of the supervisor\<close>

text \<open>One request of a delivery chain, which may run the durable hooks.\<close>

definition deliver_next :: "core_setup \<Rightarrow> nat \<Rightarrow> (string, nat) result \<Rightarrow> unit sv" where
  "deliver_next st i fetched = emitter_do st i (\<lambda>opts env em. (Inr (), chain_step opts env fetched em))"

lemma settle_hooks [simp]: "em_hooks (settle r s) = em_hooks s" "em_hooks (set_head p s) = em_hooks s" "em_hooks (update_event env event f s) = em_hooks s"
  by (simp_all add: settle_def set_head_def update_event_def take_utc_def Let_def split: list.splits prod.splits)

lemma post_hooks [simp]: "em_hooks (snd (postOnce target body ty delay fetched s)) = em_hooks s"
  by (simp add: postOnce_def split: sum.split)

lemma give_up_keeps: "rows_keep (em_hooks s) (em_hooks (give_up (corr_env st i c) event err s))"
  by (simp add: give_up_def Let_def case_prod_beta rows_keep_refl markPermanentFailure_def corr_env_def failed_keeps)

lemma attempt_keeps: "rows_keep (em_hooks s) (em_hooks (deliver_attempt opts (corr_env st i c) fetched event payload target n s))"
proof -
  obtain out s1 where p: "postOnce target payload (jget ''type'' event) (retry_delay opts n) fetched s = (out, s1)" by force
  have h: "em_hooks s1 = em_hooks s" using post_hooks [of target payload _ _ fetched s] p by (metis snd_conv)
  obtain r rows where d: "ee_delivered (corr_env st i c) event (em_hooks s) = (r, rows)" by force
  have "rows_keep (em_hooks s) rows"
    using delivered_keeps [of "em_hooks s" "su_message st" "su_stamp st i" "ac_adapterId c" "ac_correlationId c" event] d by (simp add: corr_env_def)
  then show ?thesis
    by (cases r) (auto simp: deliver_attempt_def p Let_def h d rows_keep_refl recordAttempt_def markDelivered_def split: sum.splits)
qed

lemma chain_keeps: "rows_keep (em_hooks s) (em_hooks (chain_step opts (corr_env st i c) fetched s))"
  by (auto simp: chain_step_def rows_keep_refl postBestEffort_def give_up_keeps attempt_keeps split: list.splits delivery.splits option.splits)

lemma keeps_deliver_next: "sv_keeps st (deliver_next st i fetched)"
  unfolding deliver_next_def
  by (rule keeps_emitter) (simp add: corr_hooks.keeps_op_def chain_keeps)

text \<open>
  Everything that happens to the supervisor of one process. A message is processed in a
  world whose awaited calls do no more than the other steps do; it is serialized with the
  messages of its conversation.
\<close>

inductive sv_step :: "core_setup \<Rightarrow> supervisor \<Rightarrow> supervisor \<Rightarrow> bool" for st where
  inbound: "world_ok st a (im_conversationKey m) w \<Longrightarrow> sv_step st s (snd (processInboundSerial st w a m s))"
| frame: "sv_step st s (snd (handleChildEvent st key j s))"
| child_error: "sv_step st s (snd (on_child_error st a k child s))"
| child_exit: "sv_step st s (snd (on_child_exit st a k child s))"
| dismissed: "sv_step st s (snd (dismissEngagement st a k s))"
| flush: "(\<And>a k. world_ok st a k w) \<Longrightarrow> sv_step st s (snd (flushSettled st w s))"
| posted: "sv_step st s (snd (deliver_next st i fetched s))"
| drained: "sv_step st s (close_drained i s)"
| session: "sv_step st s (s\<lparr>sv_sessions := ss\<rparr>)"
| shutdown: "sv_step st s (s\<lparr>sv_closed := True\<rparr>)"

lemma spec_inv: "sv_keeps st m \<Longrightarrow> sv_inv st s \<Longrightarrow> sv_inv st (snd (m s))"
  by (simp add: sv_spec_def)

lemma sv_inv_step: "sv_step st s s' \<Longrightarrow> sv_inv st s \<Longrightarrow> sv_inv st s'"
proof (induction rule: sv_step.induct)
  case (drained s i)
  have "sv_inv st (upd_corr i (\<lambda>c. c\<lparr>ac_emitter := close_emitter (ac_emitter c)\<rparr>) s)"
    by (rule sv_inv_upd [OF drained]) (simp_all add: corr_key_def)
  then show ?case using drained by (simp add: close_drained_def)
next
  case (shutdown s)
  then show ?case by (rule sv_inv_fields) simp_all
qed (simp_all add: spec_inv keeps_processInboundSerial keeps_handleChildEvent keeps_child_failure keeps_dismiss keeps_flush keeps_deliver_next sv_inv_counters)

lemma sv_inv_run: "(sv_step st)\<^sup>*\<^sup>* s s' \<Longrightarrow> sv_inv st s \<Longrightarrow> sv_inv st s'"
  by (induction rule: rtranclp_induct) (auto dest: sv_inv_step)

text \<open>The supervisor of a fresh process over the tables of earlier ones.\<close>

definition sv_init :: "idem_row list \<Rightarrow> OutboxRow list \<Rightarrow> SessionRegistry \<Rightarrow> supervisor" where
  "sv_init rows outbox sessions = \<lparr>sv_closed = False, sv_rows = rows, sv_outbox = outbox, sv_buffer = [], sv_sessions = sessions,
     sv_corrs = [], sv_active = [], sv_calls = [], sv_reads = 0\<rparr>"

lemma sv_inv_init: "idem_ok rows \<Longrightarrow> sv_inv st (sv_init rows outbox sessions)"
  by (simp add: sv_inv_def sv_init_def held_begun_def backlog_of_def stateFor_def map_get_def)

text \<open>A process with one adapter, and a world in which every awaited call succeeds at once.\<close>

definition w_setup :: core_setup where
  "w_setup = \<lparr>su_config = w_config, su_adapters = w_reg, su_sha256 = (\<lambda>bytes. ''h''), su_hmac = (\<lambda>secret body. ''sig''), su_message = (\<lambda>e. ''error''),
     su_ids = (\<lambda>i. w_env), su_stamp = (\<lambda>n. ''t''), su_now = (\<lambda>n. int n), su_uuid = (\<lambda>n. ''c'' @ show_nat n), su_join = (\<lambda>x y. x @ ''/'' @ y),
     su_isAbsolute = (\<lambda>p. hd p = CHR ''/'')\<rparr>"

definition w_world :: world where
  "w_world = \<lparr>wd_acquire = (\<lambda>a k p. sv_return 7), wd_prompt = (\<lambda>c t b im. sv_return True), wd_abort = (\<lambda>c. sv_return ()),
     wd_retireConversation = (\<lambda>a k. sv_return ()), wd_readFile = (\<lambda>p. sv_return ''data''), wd_delivered = (\<lambda>i. sv_return ()),
     wd_recovered = (\<lambda>a k. sv_return ())\<rparr>"

lemma w_world_ok: "world_ok st a k w_world"
  by (simp add: world_ok_def awaits_ok_def w_world_def)

definition w_live :: supervisor where
  "w_live = snd (processInboundSerial w_setup w_world ''web'' w_message (sv_init [] [] empty_registry))"

lemma w_live_run: "(sv_step w_setup)\<^sup>*\<^sup>* (sv_init [] [] empty_registry) w_live"
  unfolding w_live_def by (rule r_into_rtranclp, rule sv_step.inbound, rule w_world_ok)

lemma w_live_state:
  "map (\<lambda>c. (ac_adapterId c, ac_conversationKey c, ac_lease c, ac_terminalEmitted c)) (sv_corrs w_live) = [(''web'', ''room'', Some 7, False)] \<and>
   sv_active w_live = [(compositeKey ''web'' ''room'', 0)] \<and> sv_calls w_live = [CallAcquire ''web'' ''room'', CallPrompt 7 ''User (id: u)\<newline>hi'' False []]"
  by code_simp

lemma w_live_corr:
  "length (sv_corrs w_live) = 1" "ac_lease (corr_at w_live 0) = Some 7" "ac_adapterId (corr_at w_live 0) = ''web''"
  "ac_conversationKey (corr_at w_live 0) = ''room''" "\<not> ac_terminalEmitted (corr_at w_live 0)"
  using w_live_state by (auto simp: corr_at_def map_eq_Cons_conv)



section \<open>Follow-up turns\<close>

lemma upd_upd: "upd_corr i f (upd_corr i g s) = upd_corr i (\<lambda>c. f (g c)) s"
  by (cases "i < length (sv_corrs s)") (simp_all add: upd_corr_def list_update_beyond)

lemma handle_countdown:
  assumes "map_get (sv_active s) key = Some i" "child_frame_is ''agent_end'' j" "ac_pendingFollowUps (corr_at s i) > 0"
  shows "handleChildEvent st key j s = (Inr (), upd_corr i (\<lambda>c. c\<lparr>ac_pendingFollowUps := ac_pendingFollowUps c - 1\<rparr>) s)"
  using assms by (simp add: handleChildEvent_def)

lemma countdown_run:
  assumes "map_get (sv_active s) key = Some i" "i < length (sv_corrs s)" "child_frame_is ''agent_end'' j" "n \<le> ac_pendingFollowUps (corr_at s i)"
  shows "((\<lambda>s. snd (handleChildEvent st key j s)) ^^ n) s = upd_corr i (\<lambda>c. c\<lparr>ac_pendingFollowUps := ac_pendingFollowUps c - n\<rparr>) s"
  using assms(4)
proof (induction n)
  case 0
  have "(sv_corrs s)[i := sv_corrs s ! i] = sv_corrs s" by simp
  then show ?case by (simp add: upd_corr_def)
next
  case (Suc n)
  let ?s = "upd_corr i (\<lambda>c. c\<lparr>ac_pendingFollowUps := ac_pendingFollowUps c - n\<rparr>) s"
  have "ac_pendingFollowUps (corr_at ?s i) > 0" using Suc.prems assms(2) by (simp add: corr_at_upd)
  then have "snd (handleChildEvent st key j ?s) = upd_corr i (\<lambda>c. c\<lparr>ac_pendingFollowUps := ac_pendingFollowUps c - 1\<rparr>) ?s"
    using handle_countdown [of ?s key i j st] assms by simp
  then show ?case using Suc by (simp add: upd_upd)
qed

lemma agent_end_terminalizes:
  assumes act: "map_get (sv_active s) key = Some i" and i: "i < length (sv_corrs s)" and j: "child_frame_is ''agent_end'' j"
    and c: "ac_pendingFollowUps (corr_at s i) = 0" "\<not> ac_terminalEmitted (corr_at s i)" and run: "handleChildEvent st key j s = (Inr (), s')"
  shows "map_get (sv_active s') key = None \<and> ac_terminalEmitted (corr_at s' i) \<and> ac_lease (corr_at s' i) = None \<and>
    sv_calls s' = sv_calls s @ (case ac_lease (corr_at s i) of None \<Rightarrow> [] | Some child \<Rightarrow> [CallRelease child])"
proof -
  have nt: "\<not> child_frame_is ''turn_start'' j" "\<not> child_frame_is ''message_update'' j" using j by (simp_all add: child_frame_is_def)
  obtain r1 s1 where e1: "emitter_do st i (\<lambda>opts env. emitPresence opts env Idle) s = (r1, s1)" by force
  obtain r2 s2 where e2: "emitter_do st i (\<lambda>opts env. ingest_frame opts env j) s1 = (r2, s2)" by force
  have r: "r1 = Inr ()" "r2 = Inr ()" "sv_bind (sv_handleAgentEnd key i) (\<lambda>_. sv_return ()) s2 = (Inr (), s')"
    using run act j nt c by (auto simp: handleChildEvent_def sv_bind_def [of "emitter_do _ _ _"] e1 e2 split: sum.splits)
  have keep: "ac_terminalEmitted (corr_at s' j) = ac_terminalEmitted (corr_at s j)" if e: "emitter_do st i f s = (r, s')" for f s r s' j
  proof -
    obtain em where s': "s' = store_emitter i em s" using e by (auto simp: emitter_do_def split: prod.splits)
    show ?thesis using corr_at_store [of i s em j] corr_store_out [of i s em j] by (cases "i < length (sv_corrs s)") (simp_all add: s')
  qed
  let ?t = "set_terminal i s2"
  have nterm: "\<not> ac_terminalEmitted (corr_at s2 i)" using keep [OF e1] keep [OF e2] c by simp
  have s': "s' = snd (cleanupCorrelation key i ?t)"
    using r(3) nterm by (simp add: sv_handleAgentEnd_def cleanup_result sv_bind_def [of "cleanupCorrelation _ _"])
  note f1 = emitter_frame [OF e1] and f2 = emitter_frame [OF e2]
  have i2: "i < length (sv_corrs s2)" using i f1(4) f2(4) by simp
  have t: "sv_active ?t = sv_active s" "sv_calls ?t = sv_calls s" "ac_lease (corr_at ?t i) = ac_lease (corr_at s i)" "i < length (sv_corrs ?t)"
    "ac_terminalEmitted (corr_at ?t i)"
    using f1(1,2,7) f2(1,2,7) i2 by (simp_all add: set_terminal_def corr_at_upd)
  show ?thesis using t act by (simp add: s' cleanup_result corr_at_upd active_remove)
qed

text \<open>
  C10. An \<open>agent_end\<close> of a child ends the conversation's turn only after the follow-ups: with
  p follow-up prompts queued, each of the first p \<open>agent_end\<close> frames does nothing but count
  them down (nothing is emitted, the child stays leased), and the next one, when the emitter
  takes it, makes the correlation terminal, frees the conversation and releases the child
  exactly once.
\<close>

theorem follow_ups_extend_turn:
  assumes "map_get (sv_active s) key = Some i" "i < length (sv_corrs s)" "child_frame_is ''agent_end'' frame" "n \<le> ac_pendingFollowUps (corr_at s i)"
  shows "((\<lambda>s. snd (handleChildEvent st key frame s)) ^^ n) s = upd_corr i (\<lambda>c. c\<lparr>ac_pendingFollowUps := ac_pendingFollowUps c - n\<rparr>) s \<and>
    (n = ac_pendingFollowUps (corr_at s i) \<and> \<not> ac_terminalEmitted (corr_at s i) \<and>
       handleChildEvent st key frame (((\<lambda>s. snd (handleChildEvent st key frame s)) ^^ n) s) = (Inr (), s') \<longrightarrow>
     map_get (sv_active s') key = None \<and> ac_terminalEmitted (corr_at s' i) \<and> ac_lease (corr_at s' i) = None \<and>
     sv_calls s' = sv_calls s @ (case ac_lease (corr_at s i) of None \<Rightarrow> [] | Some child \<Rightarrow> [CallRelease child]))"
proof -
  let ?s = "upd_corr i (\<lambda>c. c\<lparr>ac_pendingFollowUps := ac_pendingFollowUps c - n\<rparr>) s"
  have run: "((\<lambda>s. snd (handleChildEvent st key frame s)) ^^ n) s = ?s" by (rule countdown_run [OF assms])
  show ?thesis unfolding run
    using agent_end_terminalizes [of ?s key i frame st s'] assms by (auto simp: corr_at_upd)
qed

definition w_follow :: supervisor where
  "w_follow = upd_corr 0 (\<lambda>c. c\<lparr>ac_pendingFollowUps := 1\<rparr>) w_live"

theorem follow_ups_extend_turn_witness:
  "\<exists>s1 s2. s1 = snd (handleChildEvent w_setup (compositeKey ''web'' ''room'') (w_frame ''agent_end'') w_follow) \<and>
     s2 = snd (handleChildEvent w_setup (compositeKey ''web'' ''room'') (w_frame ''agent_end'') s1) \<and>
     map_get (sv_active s1) (compositeKey ''web'' ''room'') = Some 0 \<and> map_get (sv_active s2) (compositeKey ''web'' ''room'') = None \<and>
     sv_calls s2 = sv_calls w_live @ [CallRelease 7]"
proof -
  let ?key = "compositeKey ''web'' ''room''" and ?f = "w_frame ''agent_end''"
  let ?s1 = "snd (handleChildEvent w_setup ?key ?f w_follow)"
  let ?s2 = "snd (handleChildEvent w_setup ?key ?f ?s1)"
  have h: "map_get (sv_active w_follow) ?key = Some 0" "0 < length (sv_corrs w_follow)" "child_frame_is ''agent_end'' ?f"
    "ac_pendingFollowUps (corr_at w_follow 0) = 1" "\<not> ac_terminalEmitted (corr_at w_follow 0)" "ac_lease (corr_at w_follow 0) = Some 7"
    "sv_calls w_follow = sv_calls w_live"
    using w_live_state w_live_corr by (simp_all add: w_follow_def corr_at_upd map_get_def child_frame_is_def w_frame_def)
  have ok: "fst (handleChildEvent w_setup ?key ?f ?s1) = Inr ()" by code_simp
  have run: "handleChildEvent w_setup ?key ?f (((\<lambda>s. snd (handleChildEvent w_setup ?key ?f s)) ^^ 1) w_follow) = (Inr (), ?s2)"
    using ok by (simp add: prod_eq_iff)
  note t = follow_ups_extend_turn [OF h(1-3), of 1 w_setup ?s2]
  have f: "?s1 = upd_corr 0 (\<lambda>c. c\<lparr>ac_pendingFollowUps := ac_pendingFollowUps c - 1\<rparr>) w_follow" using t h(4) by simp
  have "map_get (sv_active ?s2) ?key = None \<and> sv_calls ?s2 = sv_calls w_live @ [CallRelease 7]"
    using t [THEN conjunct2] run h(4-7) by simp
  moreover have "map_get (sv_active ?s1) ?key = Some 0" using h(1) by (simp add: f)
  ultimately show ?thesis by blast
qed

section \<open>A settled backlog\<close>

lemma renderRecord_longer: "length (renderRecord r) > length (br_text r)"
  by (cases "br_attachments r") (simp_all add: renderRecord_def)

lemma join_last: "xs \<noteq> [] \<Longrightarrow> length (js_join sep xs) \<ge> length (last xs)"
  by (induction sep xs rule: js_join.induct) auto

lemma renderPrompt_longer: "records \<noteq> [] \<Longrightarrow> length (renderPrompt records) > length (br_text (last records))"
  using join_last [of "map renderRecord records" "[CHR 0x0A, CHR 0x0A]"] renderRecord_longer [of "last records"]
  by (simp add: renderPrompt_def last_map)

lemma sweep_settled:
  assumes "states_ok states" "held_begun sha rows states" "x \<in> set (fst (sweepSettled cfg states now))"
  shows "sa_records x \<noteq> [] \<and> sa_prompt x = renderPrompt (sa_records x) \<and> br_adapterId (last (sa_records x)) = sa_adapterId x \<and>
    record_begun sha rows (last (sa_records x))"
proof -
  have "x \<in> set (fst (sweep_loop cfg now states))" using assms(3) by (simp add: sweepSettled_def split: if_splits)
  then obtain key state where m: "(key, state) \<in> set states" "sweep_due cfg now state"
    and x: "x = \<lparr>sa_adapterId = br_adapterId (hd (st_backlog state)), sa_conversationKey = br_conversationKey (hd (st_backlog state)),
                 sa_records = st_backlog state, sa_prompt = renderPrompt (st_backlog state)\<rparr>"
    by (induction cfg now states rule: sweep_loop.induct) (auto simp: Let_def case_prod_beta split: if_splits)
  have ne: "st_backlog state \<noteq> []" using m(2) by (simp add: sweep_due_def)
  obtain a k where k: "key = conversationStorageKey a k" "\<forall>r \<in> set (st_backlog state). of_conv a k r"
    using assms(1) m(1) by (fastforce simp: states_ok_def state_ok_def)
  have "map_get states key = Some state" using assms(1) m(1) by (simp add: states_ok_def map_ok_def map_get_def)
  then have "backlog_of states a k = st_backlog state" using k(1) map_get_backlog by blast
  then have "record_begun sha rows (last (st_backlog state))" using assms(2) ne by (metis held_begun_def last_in_set)
  moreover have "br_adapterId (last (st_backlog state)) = a" "br_adapterId (hd (st_backlog state)) = a" using k(2) ne by (auto simp: of_conv_def)
  ultimately show ?thesis using ne by (simp add: x)
qed

text \<open>Different texts have different hashes.\<close>

definition collision_free :: "(nat list \<Rightarrow> string) \<Rightarrow> bool" where
  "collision_free sha \<longleftrightarrow> (\<forall>x y. sha (utf8 x) = sha (utf8 y) \<longrightarrow> utf8 x = utf8 y)"

lemma payload_hash_text:
  assumes "collision_free sha" "canonicalPayloadHash sha m = canonicalPayloadHash sha m'"
  shows "m = m'"
  using assms utf8_inj json_stringify_inj canonicalize_inbound_inj
  by (metis canonicalPayloadHash_def collision_free_def json_ok_canonicalize json_ok_inbound)

lemma flush_one_conflicts:
  assumes "collision_free (su_sha256 st)" "idem_ok (sv_rows s)" "sa_records x \<noteq> []" "sa_prompt x = renderPrompt (sa_records x)"
    "br_adapterId (last (sa_records x)) = sa_adapterId x" "record_begun (su_sha256 st) (sv_rows s) (last (sa_records x))"
  shows "flush_one st w x s = (Inr (), s\<lparr>sv_reads := Suc (Suc (sv_reads s))\<rparr>)"
proof -
  let ?l = "last (sa_records x)" and ?a = "sa_adapterId x" and ?sha = "su_sha256 st"
  obtain m t where m: "?l = toRecord ?a m t" "?a \<noteq> []" "im_messageId m \<noteq> []"
    "map_option ie_payloadHash (idem_row (sv_rows s) ?a (im_messageId m)) = Some (canonicalPayloadHash ?sha m)"
    using assms(5,6) by (auto simp: record_begun_def)
  then obtain r where r: "idem_row (sv_rows s) ?a (im_messageId m) = Some r" "ie_payloadHash r = canonicalPayloadHash ?sha m" by auto
  have mid: "im_messageId (settled_message x) = im_messageId m" using m(1) by (simp add: settled_message_def Let_def toRecord_def)
  have "length (im_text (settled_message x)) > length (im_text m)"
    using renderPrompt_longer [OF assms(3)] m(1) assms(4) by (simp add: settled_message_def Let_def toRecord_def)
  then have "canonicalPayloadHash ?sha m \<noteq> canonicalPayloadHash ?sha (settled_message x)"
    using payload_hash_text [OF assms(1)] by fastforce
  then have b: "beginInbound ?sha uuid ts (sv_rows s) ?a (settled_message x) None =
      (Inl (IdempotencyConflict ?a (im_messageId m) (canonicalPayloadHash ?sha (settled_message x)) (ie_payloadHash r)), sv_rows s)" for uuid ts
    using m(2,3) r by (simp add: beginInbound_cases [OF assms(2)] mid)
  show ?thesis
    by (simp add: flush_one_def sv_catch_def begin_inbound_def sv_bind_def [of "sv_store _"] sv_store_def b)
qed

lemma flush_all_conflicts:
  assumes "collision_free (su_sha256 st)" "idem_ok (sv_rows s)"
    "\<And>x. x \<in> set xs \<Longrightarrow> sa_records x \<noteq> [] \<and> sa_prompt x = renderPrompt (sa_records x) \<and> br_adapterId (last (sa_records x)) = sa_adapterId x \<and>
      record_begun (su_sha256 st) (sv_rows s) (last (sa_records x))"
  shows "flush_all st w xs s = (Inr (), s\<lparr>sv_reads := sv_reads s + 2 * length xs\<rparr>)"
  using assms
proof (induction xs arbitrary: s)
  case (Cons x xs)
  have "flush_one st w x s = (Inr (), s\<lparr>sv_reads := Suc (Suc (sv_reads s))\<rparr>)"
    by (rule flush_one_conflicts) (use Cons.prems in simp_all)
  then show ?case using Cons.IH [of "s\<lparr>sv_reads := Suc (Suc (sv_reads s))\<rparr>"] Cons.prems by (simp add: sv_bind_def)
qed simp

text \<open>
  C9. A settled backlog never starts a turn. The synthetic message of \<open>flushSettled\<close> has the id
  of the last buffered message, which the store accepted before, and the rendered backlog as
  its text, so \<open>beginInbound\<close> refuses every one of them as a conflict and the error is
  swallowed: in every state that satisfies the invariant of the supervisor, in every world,
  for a hash without collisions, a sweep takes the settled messages off the buffer
  and does nothing else (no row, no event, no call to the pool, no prompt).
\<close>

theorem settled_backlog_dropped:
  assumes "sv_inv st s" "collision_free (su_sha256 st)" "\<not> sv_closed s"
    "sweepSettled (buffer_cfg st) (sv_buffer s) (su_now st (sv_reads s)) = (due, states)"
  shows "flushSettled st w s = (Inr (), s\<lparr>sv_buffer := states, sv_reads := Suc (sv_reads s) + 2 * length due\<rparr>)"
proof -
  have "sa_records x \<noteq> [] \<and> sa_prompt x = renderPrompt (sa_records x) \<and> br_adapterId (last (sa_records x)) = sa_adapterId x \<and>
      record_begun (su_sha256 st) (sv_rows s) (last (sa_records x))" if "x \<in> set due" for x
    by (rule sweep_settled [where states = "sv_buffer s" and cfg = "buffer_cfg st" and now = "su_now st (sv_reads s)"]) (use that assms(1,4) in \<open>simp_all add: sv_inv_def\<close>)
  then have "flush_all st w due (s\<lparr>sv_reads := Suc (sv_reads s), sv_buffer := states\<rparr>) =
      (Inr (), s\<lparr>sv_reads := Suc (sv_reads s) + 2 * length due, sv_buffer := states\<rparr>)"
    using flush_all_conflicts [OF assms(2), of "s\<lparr>sv_reads := Suc (sv_reads s), sv_buffer := states\<rparr>" due w] assms(1) by (simp add: sv_inv_def)
  then show ?thesis using assms(3,4) by (simp add: flushSettled_def sweep_buffer_def sv_bind_def sv_read_def)
qed

text \<open>One ambient message is held, its conversation engaged and quiet for long enough.\<close>

definition w_ambient :: InboundMessage where
  "w_ambient = w_message\<lparr>im_addressed := False\<rparr>"

definition w_quiet :: supervisor where
  "w_quiet = (sv_init (snd (beginInbound w_sha ''c1'' ''t0'' [] ''web'' w_ambient None)) [] empty_registry)\<lparr>
     sv_buffer := [(conversationStorageKey ''web'' ''room'', \<lparr>st_backlog = [toRecord ''web'' w_ambient 5], st_windowDeadline = Some 50000, st_lastArrivalAt = 5\<rparr>)]\<rparr>"

definition w_late :: core_setup where
  "w_late = w_setup\<lparr>su_sha256 := w_sha, su_now := \<lambda>n. 40000\<rparr>"

lemma w_quiet_inv: "sv_inv w_late w_quiet"
proof -
  let ?f = "fresh_row w_sha ''c1'' ''t0'' ''web'' w_ambient None"
  have ok: "idem_ok []" by (simp add: tbl_ok_def)
  have rows: "sv_rows w_quiet = [?f]"
    using beginInbound_cases [OF ok, of w_sha "''c1''" "''t0''" "''web''" w_ambient None] by (simp add: w_quiet_def sv_init_def w_ambient_def w_message_def row_at_Nil)
  have row: "idem_row [?f] ''web'' (im_messageId w_ambient) = Some ?f" by (simp add: row_at_Cons fresh_row_key)
  have "record_begun w_sha [?f] (toRecord ''web'' w_ambient 5)"
    unfolding record_begun_def
    by (rule exI [of _ w_ambient], rule exI [of _ 5]) (simp add: toRecord_def row, simp add: fresh_row_def idem_key_def w_ambient_def w_message_def)
  then have "held_begun w_sha [?f] (sv_buffer w_quiet)"
    by (simp add: held_begun_def w_quiet_def backlog_of_Cons) (simp add: backlog_of_def stateFor_def map_get_def)
  moreover have "states_ok (sv_buffer w_quiet)"
    by (simp add: w_quiet_def states_ok_Cons state_ok_def w_ambient_def w_message_def)
  moreover have "idem_ok [?f]" by (simp add: tbl_ok_def fresh_row_ok)
  ultimately show ?thesis unfolding sv_inv_def rows by (simp add: w_late_def) (simp add: w_quiet_def sv_init_def map_get_def)
qed

theorem settled_backlog_dropped_witness:
  "\<exists>s'. flushSettled w_late w_world w_quiet = (Inr (), s') \<and> map (length \<circ> st_backlog \<circ> snd) (sv_buffer w_quiet) = [1] \<and>
     map (length \<circ> st_backlog \<circ> snd) (sv_buffer s') = [0] \<and> sv_rows s' = sv_rows w_quiet \<and> sv_corrs s' = [] \<and> sv_calls s' = [] \<and> sv_outbox s' = []"
proof -
  have cf: "collision_free (su_sha256 w_late)" using w_sha_inj by (simp add: collision_free_def w_late_def)
  let ?due = "fst (sweepSettled (buffer_cfg w_late) (sv_buffer w_quiet) (su_now w_late (sv_reads w_quiet)))"
  let ?states = "snd (sweepSettled (buffer_cfg w_late) (sv_buffer w_quiet) (su_now w_late (sv_reads w_quiet)))"
  have "\<not> sv_closed w_quiet" "sv_corrs w_quiet = []" "sv_calls w_quiet = []" "sv_outbox w_quiet = []" by (simp_all add: w_quiet_def sv_init_def)
  moreover note w_quiet_inv
  moreover have "map (length \<circ> st_backlog \<circ> snd) ?states = [0]"
    by (simp add: sweepSettled_def w_late_def w_setup_def buffer_cfg_def w_config_def w_quiet_def sv_init_def sweep_due_def isActive_def)
  ultimately show ?thesis using settled_backlog_dropped [of w_late w_quiet ?due ?states w_world] cf
    by (simp add: w_quiet_def)
qed

section \<open>A redelivered message\<close>

lemma cancel_emits:
  assumes "\<not> em_closed em" "\<not> em_terminalEmitted em" "ee_uuid env (em_reads em) \<notin> ob_eventId ` set (em_outbox em)"
    "\<And>e h. ev_body e = TurnCancelled \<Longrightarrow> ee_prepared env (event_json e) h = (Inr (), h)"
  shows "\<exists>e em'. emitCancelled opts env em = (Inr (), em') \<and> em_outbox em' = em_outbox em @ [outbox_row opts e] \<and> ev_body e = TurnCancelled \<and> em_hooks em' = em_hooks em"
proof -
  let ?s = "em\<lparr>em_terminalEmitted := True\<rparr>"
  obtain e s1 where m: "make_event opts env TurnCancelled None ?s = (e, s1)" by force
  then have e: "ev_body e = TurnCancelled" "ev_eventId e = ee_uuid env (em_reads em)" "em_outbox s1 = em_outbox em" "em_hooks s1 = em_hooks em" "em_closed s1 = em_closed em"
    by (auto simp: make_event_def take_uuid_def nextSequence_def take_now_def Let_def)
  have i: "sql_insert ob_key (outbox_row opts e) (em_outbox s1) = Some (em_outbox s1 @ [outbox_row opts e])"
    using assms(3) by (auto simp: sql_insert_def e outbox_row_def ob_key_def)
  show ?thesis using assms(1,2) i
    by (simp add: emitCancelled_def emit_durable_def m deliverDurable_def assms(4) e persistEvent_def enqueue_def) (use e in blast)
qed

lemma cancelled_no_hook: "ev_body e = TurnCancelled \<Longrightarrow> ee_prepared (corr_env st i c) (event_json e) h = (Inr (), h)"
  by (simp add: corr_env_def onDurablePrepared_def hook_event_def event_json_def)

lemma interrupt_effect:
  assumes act: "active_of a k s = Some i" and inv: "sv_inv st s" and lease: "ac_lease (corr_at s i) = Some child"
    and em: "\<not> em_closed (ac_emitter (corr_at s i))" "\<not> em_terminalEmitted (ac_emitter (corr_at s i))"
      "ee_uuid (su_ids st i) (em_reads (ac_emitter (corr_at s i))) \<notin> ob_eventId ` set (sv_outbox s)"
    and w: "\<And>s. wd_abort w child s = (Inr (), s)"
  shows "\<exists>e s'. interruptTurn st w i s = (Inr (), s') \<and> active_of a k s' = None \<and> ac_lease (corr_at s' i) = None \<and>
    sv_calls s' = sv_calls s @ [CallAbort child, CallRelease child] \<and> sv_rows s' = sv_rows s \<and> sv_buffer s' = sv_buffer s \<and>
    sv_outbox s' = sv_outbox s @ [outbox_row (corr_options st (corr_at s i)) e] \<and> ev_body e = TurnCancelled"
proof -
  have i: "i < length (sv_corrs s)" and k: "compositeKey (ac_adapterId (corr_at s i)) (ac_conversationKey (corr_at s i)) = compositeKey a k"
    using act inv by (auto simp: sv_inv_def active_of_def corr_key_def)
  obtain e em' where e: "emitCancelled (corr_options st (corr_at s i)) (corr_env st i (corr_at s i)) (loaded_emitter s i) = (Inr (), em')"
    "em_outbox em' = sv_outbox s @ [outbox_row (corr_options st (corr_at s i)) e]" "ev_body e = TurnCancelled" "em_hooks em' = sv_rows s"
    using cancel_emits [of "loaded_emitter s i" "corr_env st i (corr_at s i)" "corr_options st (corr_at s i)"] em cancelled_no_hook
    by (auto simp: loaded_emitter_def corr_env_def)
  let ?s1 = "store_emitter i em' s"
  have run: "emitter_do st i emitCancelled s = (Inr (), ?s1)" by (simp add: emitter_do_def e)
  let ?s2 = "(set_terminal i ?s1)\<lparr>sv_calls := sv_calls s @ [CallAbort child]\<rparr>"
  have c: "ac_lease (corr_at (set_terminal i ?s1) i) = Some child" using i lease by (simp add: set_terminal_def corr_at_upd corr_at_store)
  have "interruptTurn st w i s = cleanupCorrelation (compositeKey a k) i ?s2"
    by (simp add: interruptTurn_def k sv_bind_step [where m = "emitter_do st i emitCancelled", OF run] c sv_bind_def [of "sv_catch _ _"] sv_catch_def w) (simp add: set_terminal_def)
  moreover have "i < length (sv_corrs ?s2)" "ac_lease (corr_at ?s2 i) = Some child" "sv_active ?s2 = sv_active s" "sv_rows ?s2 = sv_rows s" "sv_buffer ?s2 = sv_buffer s"
    "sv_outbox ?s2 = sv_outbox s @ [outbox_row (corr_options st (corr_at s i)) e]"
    using i c e by (simp_all add: set_terminal_def)
  ultimately show ?thesis using e(3) act
    by (simp add: cleanup_result active_of_def active_remove corr_at_upd) blast
qed

text \<open>
  C8. A redelivered message cancels its own turn. When an addressed message arrives again
  while its turn is in flight (accepted, ingested, no response yet, as after a lost
  acknowledgement), the handler interrupts the turn before it asks the idempotency store:
  it answers that the message is a duplicate, but the turn has been cancelled, its child
  aborted and released, no new prompt is made, and the row of the message stays without a
  response, so the message is never answered.
\<close>

theorem redelivery_cancels_turn:
  assumes "sv_inv st s" "active_of a (im_conversationKey m) s = Some i" "im_addressed m" "\<not> ac_terminalEmitted (corr_at s i)"
    and "ac_lease (corr_at s i) = Some child" "\<not> em_closed (ac_emitter (corr_at s i))" "\<not> em_terminalEmitted (ac_emitter (corr_at s i))"
    and "ee_uuid (su_ids st i) (em_reads (ac_emitter (corr_at s i))) \<notin> ob_eventId ` set (sv_outbox s)"
    and "a \<noteq> []" "im_messageId m \<noteq> []" "idem_row (sv_rows s) a (im_messageId m) = Some r" "ie_payloadHash r = canonicalPayloadHash (su_sha256 st) m"
    and "ie_deliveryState r = DPending" "ie_ingestState r = IngestCompleted"
    and "\<And>s. wd_recovered w a (im_conversationKey m) s = (Inr (), s)" "\<And>s. wd_abort w child s = (Inr (), s)"
  shows "\<exists>e s'. processInboundSerial st w a m s = (Inr (Duplicate (ie_correlationId r)), s') \<and>
    active_of a (im_conversationKey m) s' = None \<and> ac_lease (corr_at s' i) = None \<and>
    sv_calls s' = sv_calls s @ [CallAbort child, CallRelease child] \<and> sv_rows s' = sv_rows s \<and>
    sv_outbox s' = sv_outbox s @ [outbox_row (corr_options st (corr_at s i)) e] \<and> ev_body e = TurnCancelled"
proof -
  obtain e s1 where s1: "interruptTurn st w i s = (Inr (), s1)" "active_of a (im_conversationKey m) s1 = None" "ac_lease (corr_at s1 i) = None"
    "sv_calls s1 = sv_calls s @ [CallAbort child, CallRelease child]" "sv_rows s1 = sv_rows s"
    "sv_outbox s1 = sv_outbox s @ [outbox_row (corr_options st (corr_at s i)) e]" "ev_body e = TurnCancelled"
    using interrupt_effect [OF assms(2,1,5-8,16)] by blast
  have ok: "idem_ok (sv_rows s)" using assms(1) by (simp add: sv_inv_def)
  have b: "beginInbound (su_sha256 st) uuid ts (sv_rows s) a m None = (Inr (BPending (ie_correlationId r)), sv_rows s)" for uuid ts
    using assms(9-13) by (simp add: beginInbound_cases [OF ok] classifyExisting_def)
  let ?s2 = "s1\<lparr>sv_reads := Suc (Suc (sv_reads s1))\<rparr>"
  have begun: "begin_or_conflict st a m None s1 = (Inr (BPending (ie_correlationId r)), ?s2)"
    by (simp add: begin_or_conflict_def sv_catch_def begin_inbound_def sv_store_def s1(5) b)
  have entry: "sv_store (\<lambda>rows. (getEntry rows a (im_messageId m), rows)) ?s2 = (Inr (Some (entry_of r)), ?s2)"
    by (simp add: sv_store_def s1(5) getEntry_def idem_getRaw_ok [OF ok] assms(11))
  have "processInboundSerial st w a m s = (Inr (Duplicate (ie_correlationId r)), ?s2)"
    using assms(2-4,14,15) s1(2)
    by (simp add: processInboundSerial_def Let_def sv_bind_step [where m = "interruptTurn st w i", OF s1(1)]
      sv_bind_step [where m = "begin_or_conflict st a m None", OF begun] sv_bind_def [of "sv_catch _ _"] sv_bind_def [of "sv_store _"] entry sv_catch_def)
  then show ?thesis using s1 by (auto simp: active_of_def)
qed

lemma w_live_row:
  "map (\<lambda>r. (ie_adapterId r, ie_messageId r, ie_correlationId r, ie_payloadHash r, ie_deliveryState r, ie_ingestState r)) (sv_rows w_live)
     = [(''web'', ''m1'', ''c0'', ''h'', DPending, IngestCompleted)] \<and>
   map (\<lambda>c. (em_closed (ac_emitter c), em_terminalEmitted (ac_emitter c))) (sv_corrs w_live) = [(False, False)] \<and> sv_outbox w_live = []"
  by code_simp

theorem redelivery_cancels_turn_witness:
  "\<exists>s'. processInboundSerial w_setup w_world ''web'' w_message w_live = (Inr (Duplicate ''c0''), s') \<and> active_of ''web'' ''room'' s' = None \<and>
     sv_calls s' = sv_calls w_live @ [CallAbort 7, CallRelease 7] \<and> sv_rows s' = sv_rows w_live \<and> map ob_eventType (sv_outbox s') = [''turn.cancelled'']"
proof -
  have inv: "sv_inv w_setup w_live" by (rule sv_inv_run [OF w_live_run sv_inv_init]) (simp add: tbl_ok_def)
  obtain r where r: "sv_rows w_live = [r]" "ie_adapterId r = ''web''" "ie_messageId r = ''m1''" "ie_correlationId r = ''c0''" "ie_payloadHash r = ''h''"
    "ie_deliveryState r = DPending" "ie_ingestState r = IngestCompleted" using w_live_row by (auto simp: map_eq_Cons_conv)
  have row: "idem_row (sv_rows w_live) ''web'' (im_messageId w_message) = Some r" by (simp add: r row_at_Cons idem_key_def w_message_def)
  have em: "\<not> em_closed (ac_emitter (corr_at w_live 0))" "\<not> em_terminalEmitted (ac_emitter (corr_at w_live 0))" "sv_outbox w_live = []"
    using w_live_row by (auto simp: corr_at_def map_eq_Cons_conv)
  have k: "active_of ''web'' (im_conversationKey w_message) w_live = Some 0" using w_live_state by (simp add: active_of_def map_get_def w_message_def)
  have h: "ie_payloadHash r = canonicalPayloadHash (su_sha256 w_setup) w_message" by (simp add: r w_setup_def canonicalPayloadHash_def)
  have "im_addressed w_message" "im_messageId w_message \<noteq> []" by (simp_all add: w_message_def)
  then show ?thesis
    using redelivery_cancels_turn [of w_setup w_live "''web''" w_message 0 7 r w_world, OF inv k _ w_live_corr(5,2) em(1,2) _ _ _ row h r(6,7)] em(3) r(4)
    by (auto simp: w_world_def w_message_def outbox_row_def)
qed

end
