(* ===== verification/Ambient_Extension.thy ===== *)
theory Ambient_Extension
  imports Supervisor_Inbound
begin

text \<open>
  \<open>packages/core/src/ambient-ingest-extension.ts\<close>, the part of the core that runs inside the
  agent process: the command that receives a passive message from \<open>runAmbientCommand\<close> of the
  supervisor, and the two tools whose results the outbound emitter reads back from the
  frames. The registration of names and parameter schemas with the agent is left out.

  Absolute paths are lists of segments; \<open>realpath\<close> and \<open>stat\<close> of the file system are
  parameters, and so is the UTF-8 decoder, since decoded text may leave the strings of the model.
\<close>

section \<open>The ambient command\<close>

datatype ambient_error = Not_base64_json | Payload_shape | Content_empty | Path_absolute | Path_outside | Path_missing | Not_a_file

text \<open>\<open>Buffer.from(s, "base64url")\<close> takes both alphabets, stops at padding and skips other characters.\<close>

definition b64_value :: "char \<Rightarrow> nat option" where
  "b64_value c = (let n = of_char c :: nat in
     if 65 \<le> n \<and> n \<le> 90 then Some (n - 65) else if 97 \<le> n \<and> n \<le> 122 then Some (n - 71)
     else if 48 \<le> n \<and> n \<le> 57 then Some (n + 4) else if n = 45 \<or> n = 43 then Some 62 else if n = 95 \<or> n = 47 then Some 63 else None)"

fun b64_bytes :: "nat list \<Rightarrow> nat list" where
  "b64_bytes (a # b # c # d # r) = (a * 4 + b div 16) # (b mod 16 * 16 + c div 4) # (c mod 4 * 64 + d) # b64_bytes r"
| "b64_bytes [a, b, c] = [a * 4 + b div 16, b mod 16 * 16 + c div 4]"
| "b64_bytes [a, b] = [a * 4 + b div 16]"
| "b64_bytes _ = []"

definition from_base64url :: "string \<Rightarrow> nat list" where
  "from_base64url s = b64_bytes (List.map_filter b64_value (takeWhile (\<lambda>c. c \<noteq> CHR ''='') s))"

definition decodePayload :: "(nat list \<Rightarrow> string) \<Rightarrow> string \<Rightarrow> (ambient_error, string \<times> bool) result" where
  "decodePayload toString args =
     (case json_parse (toString (from_base64url (js_trim args))) of
        None \<Rightarrow> Inl Not_base64_json
      | Some v \<Rightarrow>
          (case (as_object (Some v), jget ''content'' v, jget ''triggerTurn'' v) of
             (Some _, Some (JStr content), Some (JBool triggerTurn)) \<Rightarrow>
               if length content = 0 then Inl Content_empty else Inr (content, triggerTurn)
           | _ \<Rightarrow> Inl Payload_shape))"

text \<open>The arguments of \<open>pi.sendMessage\<close>.\<close>

record sent_message =
  sm_customType :: string
  sm_content :: string
  sm_triggerTurn :: bool
  sm_deliverAs :: "string option"

definition ambient_handler :: "(nat list \<Rightarrow> string) \<Rightarrow> string \<Rightarrow> (ambient_error, sent_message) result" where
  "ambient_handler toString args =
     result_bind (decodePayload toString args) (\<lambda>(content, triggerTurn). Inr
       \<lparr>sm_customType = AMBIENT_INGEST_COMMAND, sm_content = content, sm_triggerTurn = triggerTurn,
        sm_deliverAs = (if triggerTurn then Some ''followUp'' else None)\<rparr>)"

section \<open>The attachment tool\<close>

text \<open>\<open>node:path\<close> on POSIX: \<open>resolve(base, path)\<close>, \<open>relative(from, to)\<close>, \<open>basename\<close>.\<close>

definition path_isAbsolute :: "string \<Rightarrow> bool" where
  "path_isAbsolute p = js_starts_with ''/'' p"

definition path_push :: "string list \<Rightarrow> string \<Rightarrow> string list" where
  "path_push acc seg = (if seg = [] \<or> seg = ''.'' then acc else if seg = ''..'' then butlast acc else acc @ [seg])"

definition path_resolve :: "string list \<Rightarrow> string \<Rightarrow> string list" where
  "path_resolve base p = foldl path_push base (js_split (CHR ''/'') p)"

fun rel_segments :: "string list \<Rightarrow> string list \<Rightarrow> string list" where
  "rel_segments (x # xs) (y # ys) = (if x = y then rel_segments xs ys else replicate (Suc (length xs)) ''..'' @ y # ys)"
| "rel_segments xs ys = replicate (length xs) ''..'' @ ys"

definition path_relative :: "string list \<Rightarrow> string list \<Rightarrow> string" where
  "path_relative a b = js_join ''/'' (rel_segments a b)"

definition path_basename :: "string \<Rightarrow> string" where
  "path_basename p = last (js_split (CHR ''/'') p)"

definition escapes :: "string \<Rightarrow> bool" where
  "escapes p \<longleftrightarrow> p = [] \<or> p = ''..'' \<or> js_starts_with ''../'' p"

text \<open>A trimmed optional parameter; empty counts as missing.\<close>

definition trimmed_param :: "string option \<Rightarrow> string option" where
  "trimmed_param v = (case v of None \<Rightarrow> None | Some s \<Rightarrow> if js_trim s = [] then None else Some (js_trim s))"

definition resolveAttachment :: "(string list \<Rightarrow> string list option) \<Rightarrow> (string list \<Rightarrow> bool option) \<Rightarrow> string list \<Rightarrow> string \<Rightarrow> string option \<Rightarrow> string option
    \<Rightarrow> (ambient_error, WorkspaceAttachment) result" where
  "resolveAttachment realpath isFile cwd path name mediaType =
     (if path_isAbsolute path then Inl Path_absolute
      else (case realpath cwd of
         None \<Rightarrow> Inl Path_missing
       | Some workspace \<Rightarrow>
           let absolutePath = path_resolve workspace path; workspacePath = path_relative workspace absolutePath
           in if escapes workspacePath then Inl Path_outside
              else (case realpath absolutePath of
                 None \<Rightarrow> Inl Path_missing
               | Some realPath \<Rightarrow>
                   if escapes (path_relative workspace realPath) then Inl Path_outside
                   else (case isFile realPath of
                      None \<Rightarrow> Inl Path_missing
                    | Some False \<Rightarrow> Inl Not_a_file
                    | Some True \<Rightarrow> Inr
                        \<lparr>wa_path = workspacePath,
                         wa_name = Some (case trimmed_param name of Some n \<Rightarrow> n | None \<Rightarrow> path_basename workspacePath),
                         wa_mediaType = trimmed_param mediaType\<rparr>))))"

definition attachment_result :: "WorkspaceAttachment \<Rightarrow> json" where
  "attachment_result a = JObj
     [(''content'', JArr [JObj [(''type'', JStr ''text''), (''text'', JStr (''Attached '' @ wa_path a))]]),
      (''details'', JObj [(''ompBundlerAttachment'',
         JObj ([(''path'', JStr (wa_path a))] @ opt_prop ''name'' (wa_name a) @ opt_prop ''mediaType'' (wa_mediaType a)))])]"

definition stay_silent_result :: "string option \<Rightarrow> json" where
  "stay_silent_result reason = JObj
     [(''content'', JArr [JObj [(''type'', JStr ''text''), (''text'', JStr ''Staying silent; nothing will be sent.'')]]),
      (''details'', JObj [(''ompBundlerStaySilent'', JObj [(''reason'', JStr (case reason of None \<Rightarrow> [] | Some r \<Rightarrow> r))])])]"

section \<open>The command receives what the supervisor sends\<close>

lemma b64_char_code: "n < 64 \<Longrightarrow> (of_char (b64_char n) :: nat) =
    (if n < 26 then 65 + n else if n < 52 then 71 + n else if n < 62 then n - 4 else if n = 62 then 45 else 95)"
  by (simp add: b64_char_def)

lemma b64_value_char: "n < 64 \<Longrightarrow> b64_value (b64_char n) = Some n"
  by (auto simp: b64_value_def b64_char_code Let_def)

lemma b64_char_plain: "n < 64 \<Longrightarrow> \<not> js_ws (b64_char n) \<and> b64_char n \<noteq> CHR ''=''"
proof -
  assume n: "n < 64"
  have "(of_char (b64_char n) :: nat) \<noteq> of_char CHR ''=''" using n by (auto simp: b64_char_code)
  then have "b64_char n \<noteq> CHR ''=''" by metis
  moreover have "\<not> js_ws (b64_char n)" using n by (auto simp: js_ws_def b64_char_code split: if_splits)
  ultimately show ?thesis by blast
qed

text \<open>The six-bit groups of the encoder.\<close>

fun b64_groups :: "nat list \<Rightarrow> nat list" where
  "b64_groups [] = []"
| "b64_groups [a] = [a div 4, a mod 4 * 16]"
| "b64_groups [a, b] = [a div 4, a mod 4 * 16 + b div 16, b mod 16 * 4]"
| "b64_groups (a # b # c # r) = a div 4 # (a mod 4 * 16 + b div 16) # (b mod 16 * 4 + c div 64) # (c mod 64) # b64_groups r"

lemma base64url_groups: "base64url bs = map b64_char (b64_groups bs)"
  by (induction bs rule: base64url.induct) simp_all

lemma byte_parts [simp]: "b < 256 \<Longrightarrow> b div 4 < (64 :: nat)" "b < 256 \<Longrightarrow> b div 16 < (16 :: nat)" "b < 256 \<Longrightarrow> b div 64 < (4 :: nat)"
  by (simp_all add: div_less_iff_less_mult)

lemma group_bounds:
  fixes a b c :: nat
  shows "a mod 4 * 16 < 64" "b < 256 \<Longrightarrow> a mod 4 * 16 + b div 16 < 64" "b mod 16 * 4 < 64" "c < 256 \<Longrightarrow> b mod 16 * 4 + c div 64 < 64"
proof -
  have m: "a mod 4 < 4" "b mod 16 < 16" by simp_all
  show "a mod 4 * 16 < 64" "b mod 16 * 4 < 64" using m by linarith+
  show "a mod 4 * 16 + b div 16 < 64" if "b < 256" using m(1) byte_parts(2) [OF that] by linarith
  show "b mod 16 * 4 + c div 64 < 64" if "c < 256" using m(2) byte_parts(3) [OF that] by linarith
qed

lemma b64_groups_bound: "\<forall>b \<in> set bs. b < 256 \<Longrightarrow> \<forall>g \<in> set (b64_groups bs). g < 64"
  by (induction bs rule: b64_groups.induct) (simp_all add: group_bounds)

lemma b64_bytes_groups: "\<forall>b \<in> set bs. b < 256 \<Longrightarrow> b64_bytes (b64_groups bs) = bs"
  by (induction bs rule: b64_groups.induct) simp_all

lemma map_filter_b64: "\<forall>g \<in> set gs. g < 64 \<Longrightarrow> List.map_filter b64_value (map b64_char gs) = gs"
  by (induction gs) (simp_all add: List.map_filter_simps b64_value_char)

lemma from_base64url_inverse: "\<forall>b \<in> set bs. b < 256 \<Longrightarrow> from_base64url (base64url bs) = bs"
proof -
  assume bs: "\<forall>b \<in> set bs. b < 256"
  have g: "\<forall>g \<in> set (b64_groups bs). g < 64" by (rule b64_groups_bound [OF bs])
  have t: "takeWhile (\<lambda>c. c \<noteq> CHR ''='') (map b64_char (b64_groups bs)) = map b64_char (b64_groups bs)"
    using g b64_char_plain by (auto simp: takeWhile_eq_all_conv)
  show ?thesis by (simp only: from_base64url_def base64url_groups t map_filter_b64 [OF g] b64_bytes_groups [OF bs])
qed

lemma utf8_bytes: "\<forall>b \<in> set (utf8 s). b < 256"
proof -
  have "b < 256" if "b \<in> set (utf8_char c)" for b c
  proof -
    have "b = of_char c \<or> b = 192 + of_char c div 64 \<or> b = 128 + of_char c mod 64"
      using that by (auto simp: utf8_char_def Let_def split: if_splits)
    moreover have "(of_char c :: nat) < 256" "of_char c mod 64 < (64 :: nat)" by simp_all
    moreover from this have "of_char c div 64 < (4 :: nat)" by (intro byte_parts)
    ultimately show ?thesis by linarith
  qed
  then show ?thesis by (auto simp: utf8_def)
qed

lemma trim_plain: "\<forall>c \<in> set s. \<not> js_ws c \<Longrightarrow> js_trim s = s"
  by (simp add: js_trim_def dropWhile_eq_self_iff hd_rev) (metis dropWhile_eq_self_iff hd_in_set rev_rev_ident set_rev)

text \<open>
  C12. What the supervisor sends to a child as a passive message is what the command inside
  the child appends to the session: for every text and trigger flag, with a UTF-8 decoder
  that inverts the encoder, the encoded command line decodes to them, and an empty text
  is refused.
\<close>

theorem ambient_command_roundtrip:
  assumes "\<And>t. toString (utf8 t) = t"
  shows "\<exists>args. ambient_text content triggerTurn = ''/'' @ AMBIENT_INGEST_COMMAND @ '' '' @ args \<and>
    ambient_handler toString args =
      (if content = [] then Inl Content_empty
       else Inr \<lparr>sm_customType = AMBIENT_INGEST_COMMAND, sm_content = content, sm_triggerTurn = triggerTurn,
                 sm_deliverAs = (if triggerTurn then Some ''followUp'' else None)\<rparr>)"
proof (intro exI conjI)
  let ?j = "ambient_payload content triggerTurn" and ?bs = "utf8 (json_stringify (ambient_payload content triggerTurn))"
  show "ambient_text content triggerTurn = ''/'' @ AMBIENT_INGEST_COMMAND @ '' '' @ base64url ?bs" by (simp add: ambient_text_def)
  have "\<forall>c \<in> set (base64url ?bs). \<not> js_ws c"
    using b64_groups_bound [OF utf8_bytes] b64_char_plain by (auto simp: base64url_groups)
  then have "from_base64url (js_trim (base64url ?bs)) = ?bs" by (simp add: trim_plain from_base64url_inverse utf8_bytes)
  moreover have "json_parse (json_stringify ?j) = Some ?j" by (rule json_parse_stringify) (simp add: ambient_payload_def)
  ultimately show "ambient_handler toString (base64url ?bs) =
      (if content = [] then Inl Content_empty
       else Inr \<lparr>sm_customType = AMBIENT_INGEST_COMMAND, sm_content = content, sm_triggerTurn = triggerTurn,
                 sm_deliverAs = (if triggerTurn then Some ''followUp'' else None)\<rparr>)"
    by (simp add: ambient_handler_def decodePayload_def assms ambient_payload_def as_object_def)
qed

theorem ambient_command_roundtrip_witness:
  "\<exists>toString. ambient_handler toString (base64url (utf8 (json_stringify (ambient_payload ''hi'' True)))) =
     Inr \<lparr>sm_customType = AMBIENT_INGEST_COMMAND, sm_content = ''hi'', sm_triggerTurn = True, sm_deliverAs = Some ''followUp''\<rparr>"
proof -
  have "inv utf8 (utf8 t) = t" for t by (rule inv_f_f) (rule injI, rule utf8_inj)
  from ambient_command_roundtrip [of "inv utf8", OF this, of "''hi''" True] show ?thesis
    by (auto simp: ambient_text_def)
qed

section \<open>Attachments stay inside the workspace\<close>

text \<open>A segment of a resolved path.\<close>

definition plain_segment :: "string \<Rightarrow> bool" where
  "plain_segment seg \<longleftrightarrow> seg \<noteq> [] \<and> seg \<noteq> ''.'' \<and> seg \<noteq> ''..'' \<and> CHR ''/'' \<notin> set seg"

lemma split_no_sep: "w \<in> set (js_split c s) \<Longrightarrow> c \<notin> set w"
proof (induction s arbitrary: w)
  case (Cons x xs)
  then show ?case by (cases "js_split c xs") (auto split: if_splits)
qed simp

lemma push_plain: "list_all plain_segment acc \<Longrightarrow> CHR ''/'' \<notin> set seg \<Longrightarrow> list_all plain_segment (path_push acc seg)"
  by (auto simp: path_push_def plain_segment_def list_all_iff dest: in_set_butlastD)

lemma resolve_plain: "list_all plain_segment base \<Longrightarrow> list_all plain_segment (path_resolve base p)"
proof -
  have "list_all plain_segment acc \<Longrightarrow> \<forall>w \<in> set ws. CHR ''/'' \<notin> set w \<Longrightarrow> list_all plain_segment (foldl path_push acc ws)" for acc ws
    by (induction ws arbitrary: acc) (simp_all add: push_plain)
  then show "list_all plain_segment base \<Longrightarrow> list_all plain_segment (path_resolve base p)"
    using split_no_sep by (fastforce simp: path_resolve_def)
qed

lemma rel_segments_cases: "(\<exists>r. b = a @ r \<and> rel_segments a b = r) \<or> (\<exists>r. rel_segments a b = ''..'' # r)"
proof (induction a b rule: rel_segments.induct, goal_cases)
  case (3 xs)
  then show ?case by (cases xs) auto
qed auto

lemma relative_inside:
  assumes "\<not> escapes (path_relative a b)"
  shows "\<exists>r. r \<noteq> [] \<and> b = a @ r \<and> path_relative a b = js_join ''/'' r"
proof -
  have "rel_segments a b \<noteq> ''..'' # r" for r
    using assms by (cases r) (auto simp: escapes_def path_relative_def js_starts_with_def)
  then obtain r where r: "b = a @ r" "rel_segments a b = r" using rel_segments_cases by blast
  moreover have "r \<noteq> []" using assms r by (auto simp: escapes_def path_relative_def)
  ultimately show ?thesis by (auto simp: path_relative_def)
qed

lemma split_plain: "CHR ''/'' \<notin> set w \<Longrightarrow> js_split (CHR ''/'') w = [w]"
  by (induction w) auto

lemma split_append: "CHR ''/'' \<notin> set w \<Longrightarrow> js_split (CHR ''/'') (w @ ''/'' @ s) = w # js_split (CHR ''/'') s"
  by (induction w) auto

lemma split_join: "r \<noteq> [] \<Longrightarrow> list_all plain_segment r \<Longrightarrow> js_split (CHR ''/'') (js_join ''/'' r) = r"
proof (induction "''/''" r rule: js_join.induct)
  case (3 x y zs)
  then show ?case using split_append [of x "js_join ''/'' (y # zs)"] by (simp add: plain_segment_def)
qed (simp_all add: split_plain plain_segment_def)

text \<open>
  C11. The attachment tool attaches nothing from outside the workspace, and what it attaches
  is what the reply carries. When it answers for a workspace-relative path, the named path
  and its target after symbolic links both lie strictly below the workspace directory, the
  target is a regular file, the answered path resolves to the named one, and the outbound
  emitter reads exactly this attachment back from the tool's result.
\<close>

theorem attachment_stays_inside:
  assumes "resolveAttachment realpath isFile cwd path name mediaType = Inr att" "realpath cwd = Some workspace" "list_all plain_segment workspace"
  shows "\<exists>r r'. r \<noteq> [] \<and> r' \<noteq> [] \<and> path_resolve workspace path = workspace @ r \<and> realpath (workspace @ r) = Some (workspace @ r') \<and>
    isFile (workspace @ r') = Some True \<and> wa_path att = js_join ''/'' r \<and> path_resolve workspace (wa_path att) = workspace @ r \<and>
    (\<forall>frame. jget ''toolName'' frame = Some (JStr DELIVERY_ATTACHMENT_TOOL) \<and> jget ''isError'' frame \<noteq> Some (JBool True) \<and>
       jget ''result'' frame = Some (attachment_result att) \<longrightarrow> extractDeliveryAttachment frame = Some att)"
proof -
  let ?abs = "path_resolve workspace path" and ?rel = "path_relative workspace (path_resolve workspace path)"
  obtain real where real: "\<not> escapes ?rel" "realpath ?abs = Some real" "\<not> escapes (path_relative workspace real)" "isFile real = Some True"
    and att: "att = \<lparr>wa_path = ?rel, wa_name = Some (case trimmed_param name of Some n \<Rightarrow> n | None \<Rightarrow> path_basename ?rel), wa_mediaType = trimmed_param mediaType\<rparr>"
    using assms(1,2) by (auto simp: resolveAttachment_def Let_def split: if_splits option.splits bool.splits)
  obtain r where r: "r \<noteq> []" "?abs = workspace @ r" "?rel = js_join ''/'' r" using relative_inside [OF real(1)] by blast
  obtain r' where r': "r' \<noteq> []" "real = workspace @ r'" using relative_inside [OF real(3)] by blast
  have plain: "list_all plain_segment r" using resolve_plain [OF assms(3), of path] r(2) by simp
  have sj: "js_split (CHR ''/'') (js_join ''/'' r) = r" by (rule split_join [OF r(1) plain])
  have "foldl path_push acc r = acc @ r" if "list_all plain_segment r" for acc r
    using that by (induction r arbitrary: acc) (simp_all add: path_push_def plain_segment_def)
  moreover have p: "wa_path att = js_join ''/'' r" by (simp add: att r(3))
  ultimately have res: "path_resolve workspace (wa_path att) = workspace @ r" using plain by (simp add: path_resolve_def sj)
  have "path_basename ?rel \<noteq> []" using plain r(1) by (simp add: path_basename_def r(3) sj list_all_iff plain_segment_def)
  then have ne: "wa_path att \<noteq> []" "wa_name att \<noteq> None" "wa_name att \<noteq> Some []" "wa_mediaType att \<noteq> Some []"
    using real(1) by (auto simp: att escapes_def trimmed_param_def split: option.splits if_splits)
  have "extractDeliveryAttachment frame = Some att"
    if "jget ''toolName'' frame = Some (JStr DELIVERY_ATTACHMENT_TOOL)" "jget ''isError'' frame \<noteq> Some (JBool True)" "jget ''result'' frame = Some (attachment_result att)" for frame
    using that ne by (cases att) (auto simp: extractDeliveryAttachment_def attachment_result_def as_object_def nonempty_prop_def opt_prop_def split: option.splits)
  then show ?thesis using r(1,2) r' real(2,4) res p by auto
qed

theorem attachment_stays_inside_witness:
  "resolveAttachment Some (\<lambda>p. Some True) [''srv'', ''ws''] ''out/../out/a.png'' None (Some '' image/png '') =
     Inr \<lparr>wa_path = ''out/a.png'', wa_name = Some ''a.png'', wa_mediaType = Some ''image/png''\<rparr> \<and>
   path_resolve [''srv'', ''ws''] ''out/a.png'' = [''srv'', ''ws'', ''out'', ''a.png''] \<and>
   resolveAttachment Some (\<lambda>p. Some True) [''srv'', ''ws''] ''out/../../b'' None None = Inl Path_outside"
proof -
  let ?att = "\<lparr>wa_path = ''out/a.png'', wa_name = Some ''a.png'', wa_mediaType = Some ''image/png''\<rparr>"
  have a: "resolveAttachment Some (\<lambda>p. Some True) [''srv'', ''ws''] ''out/../out/a.png'' None (Some '' image/png '') = Inr ?att"
    "resolveAttachment Some (\<lambda>p. Some True) [''srv'', ''ws''] ''out/../../b'' None None = Inl Path_outside"
    "path_resolve [''srv'', ''ws''] ''out/../out/a.png'' = [''srv'', ''ws''] @ [''out'', ''a.png'']" "list_all plain_segment [''srv'', ''ws'']"
    by code_simp+
  obtain r where "path_resolve [''srv'', ''ws''] ''out/../out/a.png'' = [''srv'', ''ws''] @ r" "path_resolve [''srv'', ''ws''] (wa_path ?att) = [''srv'', ''ws''] @ r"
    using attachment_stays_inside [OF a(1) _ a(4)] by auto
  then show ?thesis using a(1,2,3) by simp
qed

end
