(* ===== verification/Pool_Manager.thy ===== *)
theory Pool_Manager
  imports Session_Registry Adapter_Registry
begin

text \<open>
  \<open>packages/core/src/pool-manager.ts\<close>: the bounded pool of agent processes. The state is that
  of \<open>PoolManager\<close> together with the suspended continuations of its asynchronous methods
  (\<open>pl_tasks\<close>): every operation is a function that runs from a call, a timer or the settlement
  of an awaited promise to the next await, and the pool is the transition system of these
  operations. Continuations that a settled promise makes runnable run in the same step, in
  the order of their registration.

  Entries are objects with identity, kept in a list that only grows; the map holds their
  positions. A child is a number, a caller of \<open>acquire\<close> too; its answer is recorded in
  \<open>pl_answers\<close>. Logging and \<open>lastUsedAt\<close>, which is never read, are left out.
\<close>

section \<open>State\<close>

record PoolEntry =
  pe_child :: nat
  pe_adapterId :: string
  pe_conversationKey :: string
  pe_ownerToken :: string
  pe_inUse :: bool
  pe_retiring :: bool
  pe_idleTimer :: bool

datatype pool_error =
    Adapter_id_required
  | Conversation_key_required
  | PoolClosedError
  | Child_retiring string string
  | Factory_threw string
  | GetOrCreate_threw session_error
  | SetOwner_threw session_error
  | Owner_changed string string
  | Row_disappeared string string
  | Close_threw string
  | Release_threw session_error

record Waiter =
  wt_caller :: nat
  wt_adapterId :: string
  wt_conversationKey :: string

text \<open>Who called \<open>evictIdleForCapacity\<close>: an \<open>acquire\<close> with its arguments, or the drain of the queue.\<close>

datatype evict_user = EvictAcquire nat string string "string option" | EvictDrain

text \<open>
  Suspended continuations: a creation (its number) in the factory, in \<open>getOrCreate\<close> or closing
  the child of a failed one; an \<open>acquire\<close> or a waiter that awaits a creation (started by
  another or by itself); an eviction that awaits the close of an entry's child.
\<close>

datatype task =
    Spawning nat string string "string option"
  | Attaching nat string string nat
  | Discarding nat string string nat pool_error
  | Joined nat string string nat
  | Started nat string string nat
  | WaiterJoined Waiter nat
  | WaiterStarted Waiter nat
  | EvictingFor nat evict_user "(string \<times> nat) list"
  | SweepingIdle nat
  | Retiring nat
  | ClosingIdle nat "nat list"

datatype answer = Leased nat | Refused pool_error

record pool =
  pl_max :: nat
  pl_closed :: bool
  pl_objs :: "PoolEntry list"
  pl_entries :: "(string, nat) js_map"
  pl_inflight :: "(string, nat) js_map"
  pl_waiters :: "Waiter list"
  pl_pendingCreations :: int
  pl_closing :: int
  pl_drainEviction :: bool
  pl_tasks :: "task list"
  pl_creations :: nat
  pl_rows :: "SessionRecord list"
  pl_answers :: "(nat \<times> answer) list"
  pl_released :: "nat list"
  pl_closeWait :: "nat list option"
  pl_errors :: "pool_error list"

definition conversationIdOf :: "string \<Rightarrow> string \<Rightarrow> string" where
  "conversationIdOf = conversationStorageKey"

datatype pool_option_error = Pool_options_required | Pool_registry_required | Pool_factory_required | Max_children_invalid | Idle_timeout_invalid | Pool_logger_required

text \<open>The constructor; \<open>None\<close> is a value that is not an object, numbers that are no safe integers are \<open>None\<close>.\<close>

definition newPool :: "(bool \<times> bool \<times> int option \<times> int option \<times> bool) option \<Rightarrow> SessionRecord list \<Rightarrow> (pool_option_error, pool) result" where
  "newPool options rows =
     (case options of
        None \<Rightarrow> Inl Pool_options_required
      | Some (registry, factory, maxChildren, idleTimeoutMs, logger) \<Rightarrow>
          if \<not> registry then Inl Pool_registry_required
          else if \<not> factory then Inl Pool_factory_required
          else (case maxChildren of
            None \<Rightarrow> Inl Max_children_invalid
          | Some n \<Rightarrow>
              if n < 1 then Inl Max_children_invalid
              else (case idleTimeoutMs of
                None \<Rightarrow> Inl Idle_timeout_invalid
              | Some t \<Rightarrow>
                  if t < 1 then Inl Idle_timeout_invalid
                  else if \<not> logger then Inl Pool_logger_required
                  else Inr \<lparr>pl_max = nat n, pl_closed = False, pl_objs = [], pl_entries = [], pl_inflight = [], pl_waiters = [],
                    pl_pendingCreations = 0, pl_closing = 0, pl_drainEviction = False, pl_tasks = [], pl_creations = 0, pl_rows = rows,
                    pl_answers = [], pl_released = [], pl_closeWait = None, pl_errors = []\<rparr>)))"

section \<open>Small steps\<close>

definition obj_at :: "pool \<Rightarrow> nat \<Rightarrow> PoolEntry" where
  "obj_at s i = pl_objs s ! i"

definition upd_obj :: "nat \<Rightarrow> (PoolEntry \<Rightarrow> PoolEntry) \<Rightarrow> pool \<Rightarrow> pool" where
  "upd_obj i f s = s\<lparr>pl_objs := (pl_objs s)[i := f (pl_objs s ! i)]\<rparr>"

definition obj_id :: "pool \<Rightarrow> nat \<Rightarrow> string" where
  "obj_id s i = conversationIdOf (pe_adapterId (obj_at s i)) (pe_conversationKey (obj_at s i))"

definition answer_to :: "nat \<Rightarrow> answer \<Rightarrow> pool \<Rightarrow> pool" where
  "answer_to c r s = s\<lparr>pl_answers := pl_answers s @ [(c, r)]\<rparr>"

definition occupiedSlots :: "pool \<Rightarrow> int" where
  "occupiedSlots s = int (length (pl_entries s)) + pl_pendingCreations s + pl_closing s"

definition touchLru :: "string \<Rightarrow> pool \<Rightarrow> pool" where
  "touchLru cv s = (case map_get (pl_entries s) cv of None \<Rightarrow> s | Some i \<Rightarrow> s\<lparr>pl_entries := map_set (map_delete (pl_entries s) cv) cv i\<rparr>)"

definition reg_touch :: "string \<Rightarrow> string \<Rightarrow> string \<Rightarrow> pool \<Rightarrow> pool" where
  "reg_touch ts a k s = s\<lparr>pl_rows := snd (touch (pl_rows s) a k ts)\<rparr>"

text \<open>Marking an entry used, with the reordering and the registry time stamp, and its lease for a caller.\<close>

definition lease_entry :: "string \<Rightarrow> nat \<Rightarrow> string \<Rightarrow> string \<Rightarrow> nat \<Rightarrow> pool \<Rightarrow> pool" where
  "lease_entry ts c a k i s =
     answer_to c (Leased i) (reg_touch ts a k (touchLru (conversationIdOf a k) (upd_obj i (\<lambda>e. e\<lparr>pe_inUse := True\<rparr>) s)))"

definition enqueueWaiter :: "nat \<Rightarrow> string \<Rightarrow> string \<Rightarrow> pool \<Rightarrow> pool" where
  "enqueueWaiter c a k s = s\<lparr>pl_waiters := pl_waiters s @ [\<lparr>wt_caller = c, wt_adapterId = a, wt_conversationKey = k\<rparr>]\<rparr>"

definition suspend :: "task \<Rightarrow> pool \<Rightarrow> pool" where
  "suspend t s = s\<lparr>pl_tasks := pl_tasks s @ [t]\<rparr>"

definition createEntry :: "string \<Rightarrow> string \<Rightarrow> string option \<Rightarrow> pool \<Rightarrow> nat \<times> pool" where
  "createEntry a k parent s =
     (let cv = conversationIdOf a k in
      case map_get (pl_inflight s) cv of
        Some cid \<Rightarrow> (cid, s)
      | None \<Rightarrow>
          let cid = pl_creations s
          in (cid, suspend (Spawning cid a k parent)
                (s\<lparr>pl_pendingCreations := pl_pendingCreations s + 1, pl_creations := Suc cid, pl_inflight := map_set (pl_inflight s) cv cid\<rparr>)))"

section \<open>Eviction\<close>

definition idle_candidates :: "pool \<Rightarrow> (string \<times> nat) list" where
  "idle_candidates s = filter (\<lambda>(cv, i). \<not> pe_inUse (obj_at s i)) (pl_entries s)"

definition evictable :: "string \<Rightarrow> nat \<Rightarrow> pool \<Rightarrow> bool" where
  "evictable cv i s \<longleftrightarrow> map_get (pl_entries s) cv = Some i \<and> \<not> pe_inUse (obj_at s i)"

text \<open>The synchronous part of an eviction: the entry leaves the map, its slot is counted as closing.\<close>

definition evict_start :: "string \<Rightarrow> nat \<Rightarrow> task \<Rightarrow> pool \<Rightarrow> pool" where
  "evict_start cv i t s =
     suspend t ((upd_obj i (\<lambda>e. e\<lparr>pe_idleTimer := False\<rparr>) s)\<lparr>pl_entries := map_delete (pl_entries s) cv, pl_closing := pl_closing s + 1\<rparr>)"

text \<open>The drain starts at most one eviction; its first candidate is idle, so it suspends there.\<close>

definition tryEvictForDrain :: "pool \<Rightarrow> pool" where
  "tryEvictForDrain s =
     (case idle_candidates s of
        [] \<Rightarrow> s
      | (cv, i) # rest \<Rightarrow> evict_start cv i (EvictingFor i EvictDrain rest) (s\<lparr>pl_drainEviction := True\<rparr>))"

lemma waiters_frame [simp]:
  "pl_waiters (upd_obj i f s) = pl_waiters s" "pl_waiters (answer_to c r s) = pl_waiters s" "pl_waiters (touchLru cv s) = pl_waiters s"
  "pl_waiters (reg_touch ts a k s) = pl_waiters s" "pl_waiters (lease_entry ts c a k i s) = pl_waiters s" "pl_waiters (suspend t s) = pl_waiters s"
  by (simp_all add: upd_obj_def answer_to_def touchLru_def reg_touch_def lease_entry_def suspend_def split: option.split)

function drainWaiters :: "string \<Rightarrow> pool \<Rightarrow> pool" where
  "drainWaiters ts s =
     (case pl_waiters s of
        [] \<Rightarrow> s
      | w # ws \<Rightarrow>
          let a = wt_adapterId w; k = wt_conversationKey w; cv = conversationIdOf a k; s' = s\<lparr>pl_waiters := ws\<rparr>
          in (case map_get (pl_entries s) cv of
                Some i \<Rightarrow>
                  if pe_retiring (obj_at s i) then drainWaiters ts (answer_to (wt_caller w) (Refused (Child_retiring a k)) s')
                  else if \<not> pe_inUse (obj_at s i)
                  then drainWaiters ts (lease_entry ts (wt_caller w) a k i (upd_obj i (\<lambda>e. e\<lparr>pe_idleTimer := False\<rparr>) s'))
                  else s
              | None \<Rightarrow>
                  (case map_get (pl_inflight s) cv of
                     Some cid \<Rightarrow> suspend (WaiterJoined w cid) s'
                   | None \<Rightarrow>
                       if occupiedSlots s \<ge> int (pl_max s)
                       then (if idle_candidates s = [] \<or> pl_drainEviction s then s else tryEvictForDrain s)
                       else (case createEntry a k None s' of (cid, s'') \<Rightarrow> suspend (WaiterStarted w cid) s''))))"
  by pat_completeness auto
termination
  by (relation "measure (\<lambda>(ts, s). length (pl_waiters s))") auto

declare drainWaiters.simps [simp del]

fun reject_all :: "pool_error \<Rightarrow> Waiter list \<Rightarrow> pool \<Rightarrow> pool" where
  "reject_all e [] s = s"
| "reject_all e (w # ws) s = reject_all e ws (answer_to (wt_caller w) (Refused e) s)"

text \<open>The outcome of \<open>evictIdleForCapacity\<close> for its caller: a close error, a free slot, or all in use.\<close>

datatype evict_outcome = EvictOk | All_in_use | Close_failed pool_error

definition start_acquired :: "nat \<Rightarrow> string \<Rightarrow> string \<Rightarrow> string option \<Rightarrow> pool \<Rightarrow> pool" where
  "start_acquired c a k parent s =
     (if pl_closed s then answer_to c (Refused PoolClosedError) s
      else (case createEntry a k parent s of (cid, s') \<Rightarrow> suspend (Started c a k cid) s'))"

definition evict_done :: "string \<Rightarrow> evict_user \<Rightarrow> evict_outcome \<Rightarrow> pool \<Rightarrow> pool" where
  "evict_done ts user out s =
     (case user of
        EvictAcquire c a k parent \<Rightarrow>
          (case out of
             Close_failed e \<Rightarrow> answer_to c (Refused e) s
           | All_in_use \<Rightarrow> enqueueWaiter c a k s
           | EvictOk \<Rightarrow> start_acquired c a k parent s)
      | EvictDrain \<Rightarrow>
          let s' = (case out of Close_failed e \<Rightarrow> (reject_all e (pl_waiters s) s)\<lparr>pl_waiters := []\<rparr> | _ \<Rightarrow> s)
          in drainWaiters ts (s'\<lparr>pl_drainEviction := False\<rparr>))"

text \<open>
  The loop over the remaining candidates after a close failed. It ends with that error or in
  an eviction; the checks after the loop for the case that no candidate was tried are not
  reached, because the first candidate of the snapshot is still idle when the loop starts.
\<close>

fun evict_next :: "string \<Rightarrow> evict_user \<Rightarrow> (string \<times> nat) list \<Rightarrow> pool_error \<Rightarrow> pool \<Rightarrow> pool" where
  "evict_next ts user [] e s = evict_done ts user (Close_failed e) s"
| "evict_next ts user ((cv, i) # rest) e s =
     (if evictable cv i s then evict_start cv i (EvictingFor i user rest) s else evict_next ts user rest e s)"

definition evictIdleForCapacity :: "string \<Rightarrow> evict_user \<Rightarrow> pool \<Rightarrow> pool" where
  "evictIdleForCapacity ts user s =
     (case idle_candidates s of
        [] \<Rightarrow> evict_done ts user All_in_use s
      | (cv, i) # rest \<Rightarrow> evict_start cv i (EvictingFor i user rest) s)"

section \<open>Teardown\<close>

datatype teardown = Child_closed | Close_failure pool_error | Release_failure pool_error

definition teardownEntry :: "string \<Rightarrow> (string, unit) result \<Rightarrow> nat \<Rightarrow> pool \<Rightarrow> teardown \<times> pool" where
  "teardownEntry ts closed i s =
     (case closed of
        Inl msg \<Rightarrow> (Close_failure (Close_threw msg), s)
      | Inr _ \<Rightarrow>
          (case release (pl_rows s) (pe_adapterId (obj_at s i)) (pe_conversationKey (obj_at s i)) (pe_ownerToken (obj_at s i)) ts of
             (Inl e, rows) \<Rightarrow> (Release_failure (Release_threw e), s\<lparr>pl_rows := rows\<rparr>)
           | (Inr _, rows) \<Rightarrow> (Child_closed, s\<lparr>pl_rows := rows\<rparr>)))"

text \<open>A child that may still be alive is put back as an idle entry.\<close>

definition restore_entry :: "nat \<Rightarrow> pool \<Rightarrow> pool" where
  "restore_entry i s =
     (upd_obj i (\<lambda>e. e\<lparr>pe_inUse := False, pe_idleTimer := False\<rparr>) s)\<lparr>pl_entries := map_set (pl_entries s) (obj_id s i) i\<rparr>"

definition closing_over :: "task \<Rightarrow> pool \<Rightarrow> pool" where
  "closing_over t s = s\<lparr>pl_tasks := remove1 t (pl_tasks s), pl_closing := pl_closing s - 1\<rparr>"

definition resume_evict :: "string \<Rightarrow> (string, unit) result \<Rightarrow> nat \<Rightarrow> evict_user \<Rightarrow> (string \<times> nat) list \<Rightarrow> pool \<Rightarrow> pool" where
  "resume_evict ts closed i user rest s =
     (case teardownEntry ts closed i s of
        (Close_failure e, s1) \<Rightarrow> evict_next ts user rest e (closing_over (EvictingFor i user rest) (restore_entry i s1))
      | (_, s1) \<Rightarrow> evict_done ts user EvictOk (closing_over (EvictingFor i user rest) s1))"

text \<open>\<open>evictEntryAsync\<close> of a timer; its rejection is collected when the pool closes.\<close>

definition evictEntryAsync :: "string \<Rightarrow> nat \<Rightarrow> pool \<Rightarrow> pool" where
  "evictEntryAsync cv i s = (if evictable cv i s then evict_start cv i (SweepingIdle i) s else s)"

definition resume_sweep :: "string \<Rightarrow> (string, unit) result \<Rightarrow> nat \<Rightarrow> pool \<Rightarrow> pool" where
  "resume_sweep ts closed i s =
     (case teardownEntry ts closed i s of
        (r, s1) \<Rightarrow>
          let s2 = (case r of Close_failure e \<Rightarrow> restore_entry i s1 | _ \<Rightarrow> s1);
              s3 = (case r of Child_closed \<Rightarrow> s2 | Close_failure e \<Rightarrow> s2\<lparr>pl_errors := pl_errors s2 @ [e]\<rparr> | Release_failure e \<Rightarrow> s2\<lparr>pl_errors := pl_errors s2 @ [e]\<rparr>)
          in drainWaiters ts (closing_over (SweepingIdle i) s3))"

text \<open>The callback of the timer of entry \<open>j\<close> looks the conversation up again.\<close>

definition idle_timeout :: "nat \<Rightarrow> pool \<Rightarrow> pool" where
  "idle_timeout j s =
     (let s' = upd_obj j (\<lambda>e. e\<lparr>pe_idleTimer := False\<rparr>) s; cv = obj_id s j
      in case map_get (pl_entries s') cv of
           None \<Rightarrow> s'
         | Some i \<Rightarrow> if \<not> pe_inUse (obj_at s' i) then evictEntryAsync cv i s' else s')"

section \<open>Creation\<close>

text \<open>A continuation of a creation that settled.\<close>

definition resume_created :: "string \<Rightarrow> (pool_error, nat) result \<Rightarrow> task \<Rightarrow> pool \<Rightarrow> pool" where
  "resume_created ts res t s =
     (case t of
        Joined c a k cid \<Rightarrow>
          (case res of
             Inl e \<Rightarrow> answer_to c (Refused e) s
           | Inr i \<Rightarrow>
               if pl_closed s then answer_to c (Refused PoolClosedError) s
               else if \<not> pe_inUse (obj_at s i) then lease_entry ts c a k i s
               else enqueueWaiter c a k s)
      | Started c a k cid \<Rightarrow>
          (case res of
             Inl e \<Rightarrow> answer_to c (Refused e) s
           | Inr i \<Rightarrow> if pl_closed s then answer_to c (Refused PoolClosedError) s else lease_entry ts c a k i s)
      | WaiterJoined w cid \<Rightarrow>
          (case res of
             Inl e \<Rightarrow> drainWaiters ts (answer_to (wt_caller w) (Refused e) s)
           | Inr i \<Rightarrow>
               if pl_closed s then answer_to (wt_caller w) (Refused PoolClosedError) s
               else drainWaiters ts
                 (if \<not> pe_inUse (obj_at s i) then lease_entry ts (wt_caller w) (wt_adapterId w) (wt_conversationKey w) i s
                  else s\<lparr>pl_waiters := w # pl_waiters s\<rparr>))
      | WaiterStarted w cid \<Rightarrow>
          (case res of
             Inl e \<Rightarrow> drainWaiters ts (answer_to (wt_caller w) (Refused e) s)
           | Inr i \<Rightarrow>
               if pl_closed s then answer_to (wt_caller w) (Refused PoolClosedError) s
               else drainWaiters ts (lease_entry ts (wt_caller w) (wt_adapterId w) (wt_conversationKey w) i s))
      | _ \<Rightarrow> s)"

fun awaits_creation :: "nat \<Rightarrow> task \<Rightarrow> bool" where
  "awaits_creation cid (Joined c a k n) = (n = cid)"
| "awaits_creation cid (Started c a k n) = (n = cid)"
| "awaits_creation cid (WaiterJoined w n) = (n = cid)"
| "awaits_creation cid (WaiterStarted w n) = (n = cid)"
| "awaits_creation cid _ = False"

text \<open>The \<open>finally\<close> of \<open>createEntry\<close> and then everything that awaited the creation.\<close>

definition settle_creation :: "string \<Rightarrow> nat \<Rightarrow> string \<Rightarrow> (pool_error, nat) result \<Rightarrow> task \<Rightarrow> pool \<Rightarrow> pool" where
  "settle_creation ts cid cv res t s =
     (let s1 = s\<lparr>pl_tasks := filter (\<lambda>u. \<not> awaits_creation cid u) (remove1 t (pl_tasks s)),
                 pl_inflight := map_delete (pl_inflight s) cv, pl_pendingCreations := pl_pendingCreations s - 1\<rparr>
      in foldl (\<lambda>s u. resume_created ts res u s) s1 (filter (awaits_creation cid) (pl_tasks s)))"

definition replace_task :: "task \<Rightarrow> task \<Rightarrow> pool \<Rightarrow> pool" where
  "replace_task t t' s = s\<lparr>pl_tasks := remove1 t (pl_tasks s) @ [t']\<rparr>"

definition resume_spawn :: "string \<Rightarrow> (string, nat) result \<Rightarrow> nat \<Rightarrow> string \<Rightarrow> string \<Rightarrow> string option \<Rightarrow> pool \<Rightarrow> pool" where
  "resume_spawn ts spawned cid a k parent s =
     (case spawned of
        Inl msg \<Rightarrow> settle_creation ts cid (conversationIdOf a k) (Inl (Factory_threw msg)) (Spawning cid a k parent) s
      | Inr child \<Rightarrow> replace_task (Spawning cid a k parent) (Attaching cid a k child) s)"

text \<open>The claim of ownership after \<open>getOrCreate\<close>: a free row, a stale owner, or a failure.\<close>

definition claim_owner :: "string \<Rightarrow> string \<Rightarrow> string \<Rightarrow> string \<Rightarrow> SessionRecord list \<Rightarrow> (pool_error, unit) result \<times> SessionRecord list" where
  "claim_owner ts token a k rows =
     (case setOwner rows a k None (Some token) ts of
        (Inr _, rows1) \<Rightarrow> (Inr (), rows1)
      | (Inl (OwnerMismatch x y z), rows1) \<Rightarrow>
          (case Option.bind (getRaw rows1 a k) sr_currentOwner of
             None \<Rightarrow> (Inl (Row_disappeared a k), rows1)
           | Some staleOwner \<Rightarrow>
               (case setOwner rows1 a k (Some staleOwner) (Some token) ts of
                  (Inr _, rows2) \<Rightarrow> (Inr (), rows2)
                | (Inl (OwnerMismatch x y z), rows2) \<Rightarrow> (Inl (Owner_changed a k), rows2)
                | (Inl e, rows2) \<Rightarrow> (Inl (SetOwner_threw e), rows2)))
      | (Inl e, rows1) \<Rightarrow> (Inl (SetOwner_threw e), rows1))"

text \<open>\<open>rows\<close> is the registry when \<open>getOrCreate\<close> settled.\<close>

definition resume_attach :: "string \<Rightarrow> string \<Rightarrow> (session_error, unit) result \<Rightarrow> SessionRecord list \<Rightarrow> nat \<Rightarrow> string \<Rightarrow> string \<Rightarrow> nat \<Rightarrow> pool \<Rightarrow> pool" where
  "resume_attach ts token attached rows cid a k child s =
     (case attached of
        Inl e \<Rightarrow> replace_task (Attaching cid a k child) (Discarding cid a k child (GetOrCreate_threw e)) (s\<lparr>pl_rows := rows\<rparr>)
      | Inr _ \<Rightarrow>
          (case claim_owner ts token a k rows of
             (Inl e, rows') \<Rightarrow> replace_task (Attaching cid a k child) (Discarding cid a k child e) (s\<lparr>pl_rows := rows'\<rparr>)
           | (Inr _, rows') \<Rightarrow>
               let i = length (pl_objs s);
                   e = \<lparr>pe_child = child, pe_adapterId = a, pe_conversationKey = k, pe_ownerToken = token, pe_inUse = False,
                        pe_retiring = False, pe_idleTimer = False\<rparr>
               in settle_creation ts cid (conversationIdOf a k) (Inr i) (Attaching cid a k child)
                    (s\<lparr>pl_rows := rows', pl_objs := pl_objs s @ [e], pl_entries := map_set (pl_entries s) (conversationIdOf a k) i\<rparr>)))"

definition resume_discard :: "string \<Rightarrow> (string, unit) result \<Rightarrow> nat \<Rightarrow> string \<Rightarrow> string \<Rightarrow> nat \<Rightarrow> pool_error \<Rightarrow> pool \<Rightarrow> pool" where
  "resume_discard ts closed cid a k child e s =
     settle_creation ts cid (conversationIdOf a k) (Inl (case closed of Inl msg \<Rightarrow> Close_threw msg | Inr _ \<Rightarrow> e)) (Discarding cid a k child e) s"

section \<open>Acquire and release\<close>

definition acquire :: "string \<Rightarrow> nat \<Rightarrow> string \<Rightarrow> string \<Rightarrow> string option \<Rightarrow> pool \<Rightarrow> pool" where
  "acquire ts c a k parent s =
     (let cv = conversationIdOf a k in
      if a = [] then answer_to c (Refused Adapter_id_required) s
      else if k = [] then answer_to c (Refused Conversation_key_required) s
      else if pl_closed s then answer_to c (Refused PoolClosedError) s
      else (case map_get (pl_entries s) cv of
         Some i \<Rightarrow>
           if pe_retiring (obj_at s i) then answer_to c (Refused (Child_retiring a k)) s
           else if \<not> pe_inUse (obj_at s i) then lease_entry ts c a k i (upd_obj i (\<lambda>e. e\<lparr>pe_idleTimer := False\<rparr>) s)
           else enqueueWaiter c a k s
       | None \<Rightarrow>
           (case map_get (pl_inflight s) cv of
              Some cid \<Rightarrow> suspend (Joined c a k cid) s
            | None \<Rightarrow>
                if occupiedSlots s \<ge> int (pl_max s) then evictIdleForCapacity ts (EvictAcquire c a k parent) s
                else start_acquired c a k parent s)))"

definition releaseEntry :: "string \<Rightarrow> string \<Rightarrow> pool \<Rightarrow> pool" where
  "releaseEntry ts cv s =
     (if pl_closed s then s
      else (case map_get (pl_entries s) cv of
         None \<Rightarrow> s
       | Some i \<Rightarrow>
           if pe_retiring (obj_at s i) then s
           else drainWaiters ts (upd_obj i (\<lambda>e. e\<lparr>pe_idleTimer := True\<rparr>)
             (reg_touch ts (pe_adapterId (obj_at s i)) (pe_conversationKey (obj_at s i))
               (touchLru cv (upd_obj i (\<lambda>e. e\<lparr>pe_inUse := False\<rparr>) s))))))"

text \<open>\<open>release\<close> of the lease of caller \<open>c\<close> on entry \<open>i\<close>; later calls do nothing.\<close>

definition lease_release :: "string \<Rightarrow> nat \<Rightarrow> nat \<Rightarrow> pool \<Rightarrow> pool" where
  "lease_release ts c i s =
     (if c \<in> set (pl_released s) then s else releaseEntry ts (obj_id s i) (s\<lparr>pl_released := c # pl_released s\<rparr>))"

section \<open>Children that exit or are retired\<close>

definition forgetExitedChild :: "string \<Rightarrow> string \<Rightarrow> string \<Rightarrow> nat \<Rightarrow> pool \<Rightarrow> pool" where
  "forgetExitedChild ts a k child s =
     (let cv = conversationIdOf a k in
      case map_get (pl_entries s) cv of
        None \<Rightarrow> s
      | Some i \<Rightarrow>
          if pe_child (obj_at s i) \<noteq> child then s
          else drainWaiters ts
            (let s1 = (upd_obj i (\<lambda>e. e\<lparr>pe_idleTimer := False\<rparr>) s)\<lparr>pl_entries := map_delete (pl_entries s) cv\<rparr>
             in s1\<lparr>pl_rows := snd (release (pl_rows s1) (pe_adapterId (obj_at s i)) (pe_conversationKey (obj_at s i)) (pe_ownerToken (obj_at s i)) ts)\<rparr>))"

definition retireChild :: "string \<Rightarrow> string \<Rightarrow> nat \<Rightarrow> pool \<Rightarrow> pool" where
  "retireChild a k child s =
     (let cv = conversationIdOf a k in
      case map_get (pl_entries s) cv of
        None \<Rightarrow> s
      | Some i \<Rightarrow>
          if pe_child (obj_at s i) \<noteq> child \<or> pe_retiring (obj_at s i) then s
          else evict_start cv i (Retiring i) (upd_obj i (\<lambda>e. e\<lparr>pe_retiring := True, pe_inUse := False\<rparr>) s))"

definition retireConversation :: "string \<Rightarrow> string \<Rightarrow> pool \<Rightarrow> pool" where
  "retireConversation a k s =
     (case map_get (pl_entries s) (conversationIdOf a k) of None \<Rightarrow> s | Some i \<Rightarrow> retireChild a k (pe_child (obj_at s i)) s)"

definition rejectWaitersFor :: "string \<Rightarrow> pool_error \<Rightarrow> pool \<Rightarrow> pool" where
  "rejectWaitersFor cv e s =
     (let own = (\<lambda>w. conversationIdOf (wt_adapterId w) (wt_conversationKey w) = cv)
      in (reject_all e (rev (filter own (pl_waiters s))) s)\<lparr>pl_waiters := filter (\<lambda>w. \<not> own w) (pl_waiters s)\<rparr>)"

definition resume_retire :: "string \<Rightarrow> (string, unit) result \<Rightarrow> nat \<Rightarrow> pool \<Rightarrow> pool" where
  "resume_retire ts closed i s =
     (case teardownEntry ts closed i s of
        (Close_failure e, s1) \<Rightarrow>
          rejectWaitersFor (obj_id s i) e (upd_obj i (\<lambda>e. e\<lparr>pe_inUse := True\<rparr>) (closing_over (Retiring i) (restore_entry i s1)))
      | (_, s1) \<Rightarrow> drainWaiters ts (closing_over (Retiring i) s1))"

section \<open>Closing\<close>

fun closeIdle_next :: "string \<Rightarrow> nat list \<Rightarrow> pool \<Rightarrow> pool" where
  "closeIdle_next ts [] s = drainWaiters ts s"
| "closeIdle_next ts (i # rest) s =
     (if evictable (obj_id s i) i s then evict_start (obj_id s i) i (ClosingIdle i rest) s else closeIdle_next ts rest s)"

definition clear_timers :: "nat list \<Rightarrow> pool \<Rightarrow> pool" where
  "clear_timers is s = foldl (\<lambda>s i. upd_obj i (\<lambda>e. e\<lparr>pe_idleTimer := False\<rparr>) s) s is"

definition closeIdle :: "string \<Rightarrow> pool \<Rightarrow> pool" where
  "closeIdle ts s = (let is = map snd (idle_candidates s) in closeIdle_next ts is (clear_timers is s))"

definition resume_closeIdle :: "string \<Rightarrow> (string, unit) result \<Rightarrow> nat \<Rightarrow> nat list \<Rightarrow> pool \<Rightarrow> pool" where
  "resume_closeIdle ts closed i rest s =
     (case teardownEntry ts closed i s of
        (r, s1) \<Rightarrow> closeIdle_next ts rest (case r of
           Close_failure e \<Rightarrow> restore_entry i (closing_over (ClosingIdle i rest) s1) | _ \<Rightarrow> closing_over (ClosingIdle i rest) s1))"

text \<open>\<open>close\<close> up to its first await; a second call awaits the first.\<close>

definition close_pool :: "pool \<Rightarrow> pool" where
  "close_pool s =
     (if pl_closed s then s
      else (clear_timers (map snd (pl_entries s)) (reject_all PoolClosedError (pl_waiters s) s))
        \<lparr>pl_closed := True, pl_waiters := [], pl_closeWait := Some (map snd (pl_inflight s))\<rparr>)"

fun creation_of :: "task \<Rightarrow> nat option" where
  "creation_of (Spawning cid a k p) = Some cid"
| "creation_of (Attaching cid a k ch) = Some cid"
| "creation_of (Discarding cid a k ch e) = Some cid"
| "creation_of _ = None"

fun eviction_of :: "task \<Rightarrow> nat option" where
  "eviction_of (EvictingFor i u rest) = Some i"
| "eviction_of (SweepingIdle i) = Some i"
| "eviction_of (Retiring i) = Some i"
| "eviction_of (ClosingIdle i rest) = Some i"
| "eviction_of _ = None"

text \<open>The teardown of the remaining entries, one answer of \<open>child.close\<close> each, with the collected errors.\<close>

fun teardown_all :: "string \<Rightarrow> (nat \<Rightarrow> (string, unit) result) \<Rightarrow> nat list \<Rightarrow> pool \<Rightarrow> pool" where
  "teardown_all ts closed [] s = s"
| "teardown_all ts closed (i # is) s =
     (case teardownEntry ts (closed i) i s of
        (r, s1) \<Rightarrow> teardown_all ts closed is (case r of
           Child_closed \<Rightarrow> s1 | Close_failure e \<Rightarrow> s1\<lparr>pl_errors := pl_errors s1 @ [e]\<rparr> | Release_failure e \<Rightarrow> s1\<lparr>pl_errors := pl_errors s1 @ [e]\<rparr>))"

text \<open>The rest of \<open>closeImpl\<close>, once the creations in flight at the call and the evictions have settled.\<close>

definition close_ready :: "pool \<Rightarrow> bool" where
  "close_ready s \<longleftrightarrow> (case pl_closeWait s of
     None \<Rightarrow> False
   | Some cids \<Rightarrow> (\<forall>t \<in> set (pl_tasks s). eviction_of t = None \<and> (case creation_of t of None \<Rightarrow> True | Some cid \<Rightarrow> cid \<notin> set cids)))"

definition close_finish :: "string \<Rightarrow> (nat \<Rightarrow> (string, unit) result) \<Rightarrow> pool \<Rightarrow> pool" where
  "close_finish ts closed s =
     (let s1 = s\<lparr>pl_inflight := [], pl_pendingCreations := 0\<rparr>
      in teardown_all ts closed (map snd (pl_entries s1)) (s1\<lparr>pl_entries := [], pl_closeWait := None\<rparr>))"

record PoolStats =
  ps_size :: nat
  ps_activeLeases :: nat
  ps_idle :: nat
  ps_waiters :: nat
  ps_closing :: int
  ps_maxChildren :: nat

definition pool_stats :: "pool \<Rightarrow> PoolStats" where
  "pool_stats s =
     (let active = length (filter (\<lambda>(cv, i). pe_inUse (obj_at s i)) (pl_entries s))
      in \<lparr>ps_size = length (pl_entries s), ps_activeLeases = active, ps_idle = length (pl_entries s) - active,
          ps_waiters = length (pl_waiters s), ps_closing = pl_closing s, ps_maxChildren = pl_max s\<rparr>)"

section \<open>The transition system\<close>

inductive pool_step :: "pool \<Rightarrow> pool \<Rightarrow> bool" where
  acquired: "pool_step s (acquire ts c a k parent s)"
| released: "(c, Leased i) \<in> set (pl_answers s) \<Longrightarrow> pool_step s (lease_release ts c i s)"
| exited: "pool_step s (forgetExitedChild ts a k child s)"
| retired: "pool_step s (retireChild a k child s)"
| retired_conversation: "pool_step s (retireConversation a k s)"
| timeout: "j < length (pl_objs s) \<Longrightarrow> pe_idleTimer (obj_at s j) \<Longrightarrow> pool_step s (idle_timeout j s)"
| close_idle: "pool_step s (closeIdle ts s)"
| closed: "pool_step s (close_pool s)"
| close_over: "close_ready s \<Longrightarrow> pool_step s (close_finish ts answers s)"
| spawned: "Spawning cid a k parent \<in> set (pl_tasks s) \<Longrightarrow> pool_step s (resume_spawn ts res1 cid a k parent s)"
| attached: "Attaching cid a k child \<in> set (pl_tasks s) \<Longrightarrow> pool_step s (resume_attach ts token res2 rows cid a k child s)"
| discarded: "Discarding cid a k child e \<in> set (pl_tasks s) \<Longrightarrow> pool_step s (resume_discard ts res cid a k child e s)"
| evicted: "EvictingFor i user rest \<in> set (pl_tasks s) \<Longrightarrow> pool_step s (resume_evict ts res i user rest s)"
| swept: "SweepingIdle i \<in> set (pl_tasks s) \<Longrightarrow> pool_step s (resume_sweep ts res i s)"
| retirement: "Retiring i \<in> set (pl_tasks s) \<Longrightarrow> pool_step s (resume_retire ts res i s)"
| idle_closed: "ClosingIdle i rest \<in> set (pl_tasks s) \<Longrightarrow> pool_step s (resume_closeIdle ts res i rest s)"
| registry: "pool_step s (s\<lparr>pl_rows := rows\<rparr>)"

end
