(* ===== verification/Pool_Laws.thy ===== *)
theory Pool_Laws
  imports Pool_Manager
begin

text \<open>
  Invariants of the pool of \<open>Pool_Manager\<close> over every interleaving of its operations: the
  capacity is never exceeded, at most one creation is in flight per conversation, and a
  closed pool starts nothing; and two ways in which the pool breaks its own contract.
\<close>

section \<open>The invariant\<close>

definition creations :: "task list \<Rightarrow> nat list" where
  "creations ts = List.map_filter creation_of ts"

definition evictions :: "task list \<Rightarrow> nat list" where
  "evictions ts = List.map_filter eviction_of ts"

text \<open>The conversation a creation is for.\<close>

fun creation_key :: "task \<Rightarrow> string option" where
  "creation_key (Spawning n a k p) = Some (conversationIdOf a k)"
| "creation_key (Attaching n a k ch) = Some (conversationIdOf a k)"
| "creation_key (Discarding n a k ch e) = Some (conversationIdOf a k)"
| "creation_key _ = None"

definition pool_ok :: "nat \<Rightarrow> pool \<Rightarrow> bool" where
  "pool_ok N s \<longleftrightarrow> pl_max s = N \<and> (pl_closeWait s \<noteq> None \<longrightarrow> pl_closed s) \<and> pl_pendingCreations s = int (length (creations (pl_tasks s))) \<and> pl_closing s = int (length (evictions (pl_tasks s))) \<and>
     distinct (creations (pl_tasks s)) \<and> (\<forall>n \<in> set (creations (pl_tasks s)). n < pl_creations s) \<and>
     (\<forall>t \<in> set (pl_tasks s). \<forall>n cv. creation_of t = Some n \<longrightarrow> creation_key t = Some cv \<longrightarrow> map_get (pl_inflight s) cv = Some n) \<and>
     (pl_closed s \<longrightarrow> pl_waiters s = [] \<and> (\<forall>n \<in> set (creations (pl_tasks s)). \<exists>ns. pl_closeWait s = Some ns \<and> n \<in> set ns))"

definition pool_inv :: "nat \<Rightarrow> pool \<Rightarrow> bool" where
  "pool_inv N s \<longleftrightarrow> pool_ok N s \<and> occupiedSlots s \<le> int (pl_max s)"

lemma creations_simps [simp]: "creations [] = []" "creations (t # ts) = (case creation_of t of None \<Rightarrow> creations ts | Some n \<Rightarrow> n # creations ts)"
  "creations (ts @ us) = creations ts @ creations us"
  by (simp_all add: creations_def List.map_filter_def split: option.split)

lemma evictions_simps [simp]: "evictions [] = []" "evictions (t # ts) = (case eviction_of t of None \<Rightarrow> evictions ts | Some n \<Rightarrow> n # evictions ts)"
  "evictions (ts @ us) = evictions ts @ evictions us"
  by (simp_all add: evictions_def List.map_filter_def split: option.split)

lemma creation_key_iff: "creation_key t \<noteq> None \<longleftrightarrow> creation_of t \<noteq> None"
  by (cases t) simp_all

lemma creation_not_eviction: "creation_of t \<noteq> None \<Longrightarrow> eviction_of t = None"
  by (cases t) simp_all

lemma ok_inflight: "pool_ok N s \<Longrightarrow> t \<in> set (pl_tasks s) \<Longrightarrow> creation_of t = Some n \<Longrightarrow> creation_key t = Some cv \<Longrightarrow> map_get (pl_inflight s) cv = Some n"
  by (simp add: pool_ok_def)

lemma creation_mem: "t \<in> set ts \<Longrightarrow> creation_of t = Some n \<Longrightarrow> n \<in> set (creations ts)"
  by (induction ts) (auto split: option.splits)

section \<open>Operations that start nothing\<close>

text \<open>Only entries' fields, answers and rows change, the map does not grow, and no waiter appears in a closed pool.\<close>

definition quiet :: "pool \<Rightarrow> pool \<Rightarrow> bool" where
  "quiet s s' \<longleftrightarrow> pl_max s' = pl_max s \<and> pl_closed s' = pl_closed s \<and> pl_inflight s' = pl_inflight s \<and> pl_pendingCreations s' = pl_pendingCreations s \<and>
     pl_closing s' = pl_closing s \<and> pl_tasks s' = pl_tasks s \<and> pl_creations s' = pl_creations s \<and> pl_closeWait s' = pl_closeWait s \<and>
     length (pl_entries s') \<le> length (pl_entries s) \<and> (pl_closed s \<longrightarrow> pl_waiters s = [] \<longrightarrow> pl_waiters s' = [])"

lemma quiet_refl [simp]: "quiet s s"
  by (simp add: quiet_def)

lemma quiet_trans: "quiet s s1 \<Longrightarrow> quiet s1 s2 \<Longrightarrow> quiet s s2"
  by (auto simp: quiet_def)

lemma ok_quiet: "pool_ok N s \<Longrightarrow> quiet s s' \<Longrightarrow> pool_ok N s'"
  by (simp add: pool_ok_def quiet_def)

lemma inv_quiet: "pool_inv N s \<Longrightarrow> quiet s s' \<Longrightarrow> pool_inv N s'"
  using ok_quiet [of N s s'] by (auto simp: pool_inv_def occupiedSlots_def quiet_def)

lemma length_delete: "(cv, i) \<in> set m \<Longrightarrow> length (map_delete m cv) < length m"
  unfolding map_delete_def by (rule length_filter_less [of "(cv, i)"]) auto

lemma get_in_set: "map_get m cv = Some i \<Longrightarrow> (cv, i) \<in> set m"
  by (simp add: map_get_def map_of_SomeD)

lemma length_set: "length (map_set m cv i) \<le> Suc (length m)"
  by (induction m cv i rule: map_set.induct) auto

lemma length_set_present: "map_get m cv \<noteq> None \<Longrightarrow> length (map_set m cv i) = length m"
  unfolding map_get_def by (induction m cv i rule: map_set.induct) auto

lemma quiet_simps [simp]:
  "quiet s (upd_obj i f s)" "quiet s (answer_to c r s)" "quiet s (reg_touch ts a k s)" "quiet s (s\<lparr>pl_rows := rows\<rparr>)"
  "quiet s (s\<lparr>pl_released := rs\<rparr>)" "quiet s (s\<lparr>pl_errors := es\<rparr>)" "quiet s (s\<lparr>pl_drainEviction := b\<rparr>)"
  by (simp_all add: quiet_def upd_obj_def answer_to_def reg_touch_def)

lemma quiet_touchLru [simp]: "quiet s (touchLru cv s)"
proof (cases "map_get (pl_entries s) cv")
  case (Some i)
  have "length (map_set (map_delete (pl_entries s) cv) cv i) \<le> length (pl_entries s)"
    using length_set [of "map_delete (pl_entries s) cv" cv i] length_delete [OF get_in_set [OF Some]] by linarith
  then show ?thesis using Some by (simp add: touchLru_def quiet_def)
qed (simp add: touchLru_def)

lemma quiet_lease [simp]: "quiet s (lease_entry ts c a k i s)"
  unfolding lease_entry_def by (rule quiet_trans [OF quiet_trans [OF quiet_trans [OF quiet_simps(1) quiet_touchLru] quiet_simps(3)] quiet_simps(2)])

lemma quiet_enqueue: "\<not> pl_closed s \<Longrightarrow> quiet s (enqueueWaiter c a k s)"
  by (simp add: quiet_def enqueueWaiter_def)

lemma quiet_waiters: "\<not> pl_closed s \<or> ws = [] \<Longrightarrow> quiet s (s\<lparr>pl_waiters := ws\<rparr>)"
  by (simp add: quiet_def)

lemma quiet_reject: "quiet s (reject_all e ws s)"
proof (induction e ws s rule: reject_all.induct)
  case (2 e w ws s)
  then show ?case using quiet_trans [OF quiet_simps(2)] by simp
qed simp

lemma quiet_timers: "quiet s (clear_timers is s)"
  unfolding clear_timers_def
  by (induction "is" arbitrary: s) (auto intro: quiet_trans [OF quiet_simps(1)])

lemma quiet_teardown: "teardownEntry ts closed i s = (r, s') \<Longrightarrow> quiet s s'"
  by (auto simp: teardownEntry_def quiet_def split: sum.splits prod.splits)

lemma quiet_forget: "quiet s (s\<lparr>pl_entries := map_delete (pl_entries s) cv\<rparr>)"
  by (simp add: quiet_def map_delete_def)

section \<open>Starting and ending\<close>

lemma ok_suspend:
  assumes "pool_ok N s" "creation_of t = None" "eviction_of t = None"
  shows "pool_ok N (suspend t s)"
  using assms by (auto simp: pool_ok_def suspend_def)

lemma inv_suspend: "pool_inv N s \<Longrightarrow> creation_of t = None \<Longrightarrow> eviction_of t = None \<Longrightarrow> pool_inv N (suspend t s)"
  using ok_suspend [of N s t] by (simp add: pool_inv_def occupiedSlots_def suspend_def)

lemma inv_create:
  assumes inv: "pool_inv N s" and free: "occupiedSlots s < int (pl_max s)" and nc: "\<not> pl_closed s" and e: "createEntry a k parent s = (n, s')"
  shows "pool_inv N s'"
proof (cases "map_get (pl_inflight s) (conversationIdOf a k)")
  case (Some m)
  then show ?thesis using e inv by (simp add: createEntry_def Let_def)
next
  case None
  then have s': "s' = suspend (Spawning (pl_creations s) a k parent) (s\<lparr>pl_pendingCreations := pl_pendingCreations s + 1,
      pl_creations := Suc (pl_creations s), pl_inflight := map_set (pl_inflight s) (conversationIdOf a k) (pl_creations s)\<rparr>)"
    using e by (auto simp: createEntry_def Let_def)
  have ok: "pool_ok N s" using inv by (simp add: pool_inv_def)
  have "map_get (map_set (pl_inflight s) (conversationIdOf a k) (pl_creations s)) cv = Some m"
    if "t \<in> set (pl_tasks s)" "creation_of t = Some m" "creation_key t = Some cv" for t m cv
  proof -
    have "map_get (pl_inflight s) cv = Some m" using ok that by (simp add: pool_ok_def)
    then show ?thesis using None by (auto simp: jm.get_put)
  qed
  then have "pool_ok N s'" using ok nc by (auto simp: pool_ok_def s' suspend_def jm.get_put)
  then show ?thesis using free by (simp add: pool_inv_def occupiedSlots_def s' suspend_def)
qed

lemma ok_evict_start:
  assumes "pool_ok N s" "eviction_of t = Some j"
  shows "pool_ok N (evict_start cv i t s)"
proof -
  have "creation_of t = None" "creation_key t = None" using assms(2) by (cases t; simp)+
  then show ?thesis using assms by (auto simp: pool_ok_def evict_start_def suspend_def upd_obj_def)
qed

lemma inv_evict_start:
  assumes "pool_inv N s" "eviction_of t = Some j" "(cv, i) \<in> set (pl_entries s)"
  shows "pool_inv N (evict_start cv i t s)"
  using ok_evict_start [of N s t j cv i] assms length_delete [OF assms(3)]
  by (simp add: pool_inv_def occupiedSlots_def evict_start_def suspend_def upd_obj_def)

lemma inv_evictable: "pool_inv N s \<Longrightarrow> evictable cv i s \<Longrightarrow> eviction_of t = Some j \<Longrightarrow> pool_inv N (evict_start cv i t s)"
  by (rule inv_evict_start) (auto simp: evictable_def intro: get_in_set)

lemma evictions_remove: "t \<in> set ts \<Longrightarrow> eviction_of t = Some j \<Longrightarrow> int (length (evictions (remove1 t ts))) = int (length (evictions ts)) - 1 \<and> creations (remove1 t ts) = creations ts"
proof (induction ts)
  case (Cons u us)
  have c: "creation_of t = None" using Cons.prems(2) by (cases t) simp_all
  show ?case
  proof (cases "u = t")
    case False
    then have "t \<in> set us" using Cons.prems by simp
    then have "length (evictions us) > 0" using Cons.prems(2) by (induction us) (auto split: option.splits)
    then show ?thesis using Cons False c by (auto split: option.splits)
  qed (use Cons.prems c in simp)
qed simp

lemma creations_remove: "t \<in> set ts \<Longrightarrow> creation_of t = Some n \<Longrightarrow>
    int (length (creations (remove1 t ts))) = int (length (creations ts)) - 1 \<and> evictions (remove1 t ts) = evictions ts \<and> mset (creations ts) = add_mset n (mset (creations (remove1 t ts)))"
proof (induction ts)
  case (Cons u us)
  have c: "eviction_of t = None" using Cons.prems(2) by (cases t) simp_all
  show ?case
  proof (cases "u = t")
    case False
    then show ?thesis using Cons c by (auto split: option.splits)
  qed (use Cons.prems c in simp)
qed simp

lemma ok_closing_over:
  assumes "pool_ok N s" "t \<in> set (pl_tasks s)" "eviction_of t = Some j"
  shows "pool_ok N (closing_over t s)"
proof -
  note r = evictions_remove [OF assms(2,3)]
  have "set (remove1 t (pl_tasks s)) \<subseteq> set (pl_tasks s)" by (rule set_remove1_subset)
  then show ?thesis using assms(1) r by (auto simp: pool_ok_def closing_over_def)
qed

lemma occupied_closing_over: "occupiedSlots (closing_over t s) = occupiedSlots s - 1"
  by (simp add: occupiedSlots_def closing_over_def)

section \<open>Compound operations\<close>

lemma candidate_entry: "idle_candidates s = (cv, i) # rest \<Longrightarrow> (cv, i) \<in> set (pl_entries s)"
  unfolding idle_candidates_def by (drule arg_cong [of _ _ set]) auto

lemma inv_drain: "pool_inv N s \<Longrightarrow> pool_inv N (drainWaiters ts s)"
proof (induction ts s rule: drainWaiters.induct)
  case (1 ts s)
  show ?case
  proof (cases "pl_waiters s")
    case Nil
    then show ?thesis using "1.prems" by (simp add: drainWaiters.simps)
  next
    case (Cons w ws)
    let ?a = "wt_adapterId w" and ?k = "wt_conversationKey w" and ?s = "s\<lparr>pl_waiters := ws\<rparr>"
    let ?cv = "conversationIdOf ?a ?k"
    have nc: "\<not> pl_closed s" using "1.prems" Cons by (auto simp: pool_inv_def pool_ok_def)
    have inv: "pool_inv N ?s" by (rule inv_quiet [OF "1.prems" quiet_waiters]) (simp add: nc)
    have create: "pool_inv N (suspend (WaiterStarted w n) s2)" if "occupiedSlots s < int (pl_max s)" "createEntry ?a ?k None ?s = (n, s2)" for n s2
      by (rule inv_suspend [OF inv_create [OF inv _ _ that(2)]]) (use that nc in \<open>simp_all add: occupiedSlots_def\<close>)
    have evict: "pool_inv N (tryEvictForDrain s)"
      using inv_evict_start [OF inv_quiet [OF "1.prems", of "s\<lparr>pl_drainEviction := True\<rparr>"]] candidate_entry [of s] "1.prems"
      by (auto simp: tryEvictForDrain_def split: list.split)
    show ?thesis
    proof (cases "map_get (pl_entries s) ?cv")
      case None
      then show ?thesis using Cons "1.prems" create evict inv_suspend [OF inv]
        by (subst drainWaiters.simps) (auto simp: Let_def split: option.split prod.split)
    next
      case (Some i)
      have retire: "pool_inv N (drainWaiters ts (answer_to (wt_caller w) (Refused (Child_retiring ?a ?k)) ?s))" if "pe_retiring (obj_at s i)"
        by (rule "1.IH"(1) [OF Cons refl refl refl refl Some that]) (rule inv_quiet [OF inv], simp)
      have lease: "pool_inv N (drainWaiters ts (lease_entry ts (wt_caller w) ?a ?k i (upd_obj i (\<lambda>e. e\<lparr>pe_idleTimer := False\<rparr>) ?s)))"
        if "\<not> pe_retiring (obj_at s i)" "\<not> pe_inUse (obj_at s i)"
        by (rule "1.IH"(2) [OF Cons refl refl refl refl Some that(1)]) (use that inv_quiet [OF inv] quiet_trans [OF quiet_simps(1) quiet_lease] in simp_all)
      show ?thesis using Cons Some "1.prems" retire lease by (subst drainWaiters.simps) (simp add: Let_def)
    qed
  qed
qed

lemma inv_start_acquired: "pool_inv N s \<Longrightarrow> occupiedSlots s < int (pl_max s) \<Longrightarrow> pool_inv N (start_acquired c a k parent s)"
  using inv_create [of N s a k parent] inv_quiet [OF _ quiet_simps(2)]
  by (auto simp: start_acquired_def split: prod.split intro!: inv_suspend)

lemma inv_evict_done:
  assumes "pool_inv N s" "out = EvictOk \<Longrightarrow> occupiedSlots s < int (pl_max s)" "out = All_in_use \<Longrightarrow> \<not> pl_closed s"
  shows "pool_inv N (evict_done ts user out s)"
proof (cases user)
  case (EvictAcquire c a k parent)
  then show ?thesis using assms inv_quiet [OF assms(1)] quiet_enqueue inv_start_acquired
    by (cases out) (simp_all add: evict_done_def)
next
  case EvictDrain
  let ?s = "case out of Close_failed e \<Rightarrow> (reject_all e (pl_waiters s) s)\<lparr>pl_waiters := []\<rparr> | _ \<Rightarrow> s"
  have "quiet s (?s\<lparr>pl_drainEviction := False\<rparr>)"
    by (rule quiet_trans [OF _ quiet_simps(7)]) (cases out; simp; rule quiet_trans [OF quiet_reject quiet_waiters]; simp)
  then show ?thesis using inv_drain [OF inv_quiet [OF assms(1)]] EvictDrain by (simp add: evict_done_def Let_def)
qed

lemma inv_evict_next: "pool_inv N s \<Longrightarrow> pool_inv N (evict_next ts user rest e s)"
proof (induction ts user rest e s rule: evict_next.induct)
  case (1 ts user e s)
  then show ?case using inv_evict_done [of N s "Close_failed e"] by simp
next
  case (2 ts user cv i rest e s)
  then show ?case by (simp add: inv_evictable)
qed

lemma inv_evictIdle:
  assumes "pool_inv N s" "\<not> pl_closed s"
  shows "pool_inv N (evictIdleForCapacity ts user s)"
  using inv_evict_done [OF assms(1), of All_in_use] inv_evict_start [OF assms(1)] candidate_entry [of s] assms(2)
  by (auto simp: evictIdleForCapacity_def split: list.split)

lemma inv_acquire: "pool_inv N s \<Longrightarrow> pool_inv N (acquire ts c a k parent s)"
proof -
  assume inv: "pool_inv N s"
  have lease: "pool_inv N (lease_entry ts c a k i (upd_obj i f s))" for i f by (rule inv_quiet [OF inv quiet_trans [OF quiet_simps(1) quiet_lease]])
  have ans: "pool_inv N (answer_to c r s)" for r by (rule inv_quiet [OF inv]) simp
  show ?thesis using inv lease ans inv_quiet [OF inv quiet_enqueue] inv_suspend [OF inv] inv_evictIdle [OF inv] inv_start_acquired [OF inv]
    by (simp add: acquire_def Let_def split: option.split)
qed

lemma inv_release: "pool_inv N s \<Longrightarrow> pool_inv N (lease_release ts c i s)"
proof -
  assume inv: "pool_inv N s"
  let ?s = "s\<lparr>pl_released := c # pl_released s\<rparr>"
  have inv': "pool_inv N ?s" by (rule inv_quiet [OF inv]) simp
  have "quiet ?s (upd_obj j f (reg_touch ts a k (touchLru cv (upd_obj j g ?s))))" for j f g a k cv
    by (rule quiet_trans [OF quiet_trans [OF quiet_trans [OF quiet_simps(1) quiet_touchLru] quiet_simps(3)] quiet_simps(1)])
  then have "pool_inv N (releaseEntry ts cv ?s)" for cv
    using inv' inv_drain [OF inv_quiet [OF inv']] by (simp add: releaseEntry_def split: option.split)
  then show ?thesis using inv by (simp add: lease_release_def)
qed

lemma inv_forget: "pool_inv N s \<Longrightarrow> pool_inv N (forgetExitedChild ts a k child s)"
proof -
  assume inv: "pool_inv N s"
  have q: "quiet s ((upd_obj i f s)\<lparr>pl_entries := map_delete (pl_entries s) cv, pl_rows := rows\<rparr>)" for i f cv rows
    by (simp add: quiet_def upd_obj_def map_delete_def)
  then show ?thesis using inv inv_drain [OF inv_quiet [OF inv q]]
    by (simp add: forgetExitedChild_def Let_def split: option.split)
qed

lemma inv_retire: "pool_inv N s \<Longrightarrow> pool_inv N (retireChild a k child s)"
proof -
  assume inv: "pool_inv N s"
  have "pool_inv N (evict_start cv i (Retiring i) (upd_obj i f s))" if "map_get (pl_entries s) cv = Some i" for cv i f
    by (rule inv_evict_start [OF inv_quiet [OF inv quiet_simps(1)]]) (use get_in_set [OF that] in \<open>simp_all add: upd_obj_def\<close>)
  then show ?thesis using inv by (simp add: retireChild_def Let_def split: option.split)
qed

lemma inv_timeout: "pool_inv N s \<Longrightarrow> pool_inv N (idle_timeout j s)"
proof -
  assume inv: "pool_inv N s"
  let ?s = "upd_obj j (\<lambda>e. e\<lparr>pe_idleTimer := False\<rparr>) s"
  have inv': "pool_inv N ?s" by (rule inv_quiet [OF inv]) simp
  have "pool_inv N (evictEntryAsync cv i ?s)" for cv i
    using inv' by (simp add: evictEntryAsync_def inv_evictable)
  then show ?thesis using inv' by (simp add: idle_timeout_def Let_def split: option.split)
qed

section \<open>Resumptions\<close>

text \<open>A restored entry takes back the slot of its eviction.\<close>

lemma inv_restore:
  assumes inv: "pool_inv N s" and t: "t \<in> set (pl_tasks s)" "eviction_of t = Some j"
  shows "pool_inv N (closing_over t (restore_entry i s))" "pool_inv N (restore_entry i (closing_over t s))"
proof -
  have r: "pl_tasks (restore_entry i u) = pl_tasks u" "pool_ok N u \<Longrightarrow> pool_ok N (restore_entry i u)" "occupiedSlots (restore_entry i u) \<le> occupiedSlots u + 1"
    "pl_max (restore_entry i u) = pl_max u" for u
    using length_set [of "pl_entries u" "obj_id u i" i] by (simp_all add: restore_entry_def upd_obj_def pool_ok_def occupiedSlots_def)
  have ok: "pool_ok N s" "occupiedSlots s \<le> int (pl_max s)" using inv by (simp_all add: pool_inv_def)
  show "pool_inv N (closing_over t (restore_entry i s))"
    using ok_closing_over [OF r(2) [OF ok(1)], of t j] t r(1,3,4) [of s] ok(2) by (simp add: pool_inv_def occupied_closing_over) (simp add: closing_over_def)
  show "pool_inv N (restore_entry i (closing_over t s))"
    using r(2) [OF ok_closing_over [OF ok(1) t]] r(3,4) [of "closing_over t s"] ok(2) by (simp add: pool_inv_def occupied_closing_over) (simp add: closing_over_def)
qed

lemma inv_closing_over:
  assumes "pool_inv N s" "t \<in> set (pl_tasks s)" "eviction_of t = Some j"
  shows "pool_inv N (closing_over t s)" "occupiedSlots (closing_over t s) < int (pl_max (closing_over t s))"
  using ok_closing_over [OF _ assms(2,3)] assms(1) by (simp_all add: pool_inv_def occupied_closing_over) (simp_all add: closing_over_def)

lemma teardown_frame: "teardownEntry ts closed i s = (r, s1) \<Longrightarrow> pool_inv N s \<Longrightarrow> pool_inv N s1 \<and> pl_tasks s1 = pl_tasks s"
  using quiet_teardown inv_quiet by (simp add: quiet_def)

lemma inv_resume_evict:
  assumes inv: "pool_inv N s" and t: "EvictingFor i user rest \<in> set (pl_tasks s)"
  shows "pool_inv N (resume_evict ts closed i user rest s)"
proof -
  obtain r s1 where d: "teardownEntry ts closed i s = (r, s1)" by force
  note f = teardown_frame [OF d inv]
  have e: "eviction_of (EvictingFor i user rest) = Some i" "EvictingFor i user rest \<in> set (pl_tasks s1)" using f t by simp_all
  have "pool_inv N (evict_next ts user rest err (closing_over (EvictingFor i user rest) (restore_entry i s1)))" for err
    by (rule inv_evict_next) (use inv_restore(1) [OF _ e(2,1)] f in blast)
  moreover have "pool_inv N (evict_done ts user EvictOk (closing_over (EvictingFor i user rest) s1))"
    by (rule inv_evict_done) (use inv_closing_over [of N, OF _ e(2,1)] f in simp_all)
  ultimately show ?thesis by (simp add: resume_evict_def d split: teardown.split)
qed

lemma inv_resume_sweep:
  assumes inv: "pool_inv N s" and t: "SweepingIdle i \<in> set (pl_tasks s)"
  shows "pool_inv N (resume_sweep ts closed i s)"
proof -
  obtain r s1 where d: "teardownEntry ts closed i s = (r, s1)" by force
  note f = teardown_frame [OF d inv]
  have q: "closing_over t (u\<lparr>pl_errors := es\<rparr>) = (closing_over t u)\<lparr>pl_errors := es\<rparr>" for t u es by (simp add: closing_over_def)
  have a: "pool_inv N (closing_over (SweepingIdle i) s1)" "pool_inv N (closing_over (SweepingIdle i) (restore_entry i s1))"
    using inv_closing_over(1) [of N s1 "SweepingIdle i" i] inv_restore(1) [of N s1 "SweepingIdle i" i i] f t by simp_all
  show ?thesis using inv_drain [OF a(1)] inv_drain [OF inv_quiet [OF a(1) quiet_simps(6)]] inv_drain [OF inv_quiet [OF a(2) quiet_simps(6)]]
    by (cases r) (simp_all add: resume_sweep_def d q Let_def)
qed

lemma inv_resume_retire:
  assumes inv: "pool_inv N s" and t: "Retiring i \<in> set (pl_tasks s)"
  shows "pool_inv N (resume_retire ts closed i s)"
proof -
  obtain r s1 where d: "teardownEntry ts closed i s = (r, s1)" by force
  note f = teardown_frame [OF d inv]
  have a: "pool_inv N (closing_over (Retiring i) s1)" "pool_inv N (closing_over (Retiring i) (restore_entry i s1))"
    using inv_closing_over(1) [of N s1 "Retiring i" i] inv_restore(1) [of N s1 "Retiring i" i i] f t by simp_all
  have "quiet u (rejectWaitersFor cv e u)" for cv e u
    using quiet_reject [of u e "rev (filter (\<lambda>w. conversationIdOf (wt_adapterId w) (wt_conversationKey w) = cv) (pl_waiters u))"]
    by (simp add: rejectWaitersFor_def Let_def quiet_def)
  then have "pool_inv N (rejectWaitersFor cv e (upd_obj i g (closing_over (Retiring i) (restore_entry i s1))))" for cv e g
    by (rule inv_quiet [OF inv_quiet [OF a(2) quiet_simps(1)]])
  then show ?thesis using inv_drain [OF a(1)] by (cases r) (simp_all add: resume_retire_def d)
qed

lemma inv_closeIdle_next: "pool_inv N s \<Longrightarrow> pool_inv N (closeIdle_next ts is s)"
proof (induction ts "is" s rule: closeIdle_next.induct)
  case (2 ts i rest s)
  then show ?case by (simp add: inv_evictable)
qed (simp add: inv_drain)

lemma inv_resume_closeIdle:
  assumes inv: "pool_inv N s" and t: "ClosingIdle i rest \<in> set (pl_tasks s)"
  shows "pool_inv N (resume_closeIdle ts closed i rest s)"
proof -
  obtain r s1 where d: "teardownEntry ts closed i s = (r, s1)" by force
  note f = teardown_frame [OF d inv]
  have a: "pool_inv N (closing_over (ClosingIdle i rest) s1)" "pool_inv N (restore_entry i (closing_over (ClosingIdle i rest) s1))"
    using inv_closing_over(1) [of N s1 "ClosingIdle i rest" i] inv_restore(2) [of N s1 "ClosingIdle i rest" i i] f t by simp_all
  show ?thesis using inv_closeIdle_next [OF a(1)] inv_closeIdle_next [OF a(2)] by (cases r) (simp_all add: resume_closeIdle_def d)
qed

section \<open>Creations\<close>

lemma inv_resume_created: "pool_inv N s \<Longrightarrow> pool_inv N (resume_created ts res t s)"
proof -
  assume inv: "pool_inv N s"
  have a: "pool_inv N (answer_to c r s)" "pool_inv N (lease_entry ts c a k i s)" for c r a k i by (rule inv_quiet [OF inv]; simp)+
  have w: "pool_inv N (enqueueWaiter c a k s)" "pool_inv N (s\<lparr>pl_waiters := ws\<rparr>)" if "\<not> pl_closed s" for c a k ws
    using inv_quiet [OF inv] quiet_enqueue [OF that] quiet_waiters that by simp_all
  show ?thesis using inv a w inv_drain [OF a(1)] inv_drain [OF a(2)] inv_drain [OF w(2)]
    by (cases t) (auto simp: resume_created_def split: sum.split)
qed

lemma inv_foldl_created: "pool_inv N s \<Longrightarrow> pool_inv N (foldl (\<lambda>s u. resume_created ts res u s) s us)"
  by (induction us arbitrary: s) (simp_all add: inv_resume_created)

lemma waiting_no_creation: "awaits_creation n t \<Longrightarrow> creation_of t = None \<and> eviction_of t = None"
  by (cases t) simp_all

lemma filter_waiting: "creations (filter (\<lambda>u. \<not> awaits_creation n u) ts) = creations ts" "evictions (filter (\<lambda>u. \<not> awaits_creation n u) ts) = evictions ts"
  by (induction ts) (auto simp: waiting_no_creation split: option.split)

text \<open>A creation that settles frees its reservation; an entry it inserted takes the slot.\<close>

lemma inv_settle:
  assumes ok: "pool_ok N s" and occ: "occupiedSlots s \<le> int (pl_max s) + 1"
    and t: "t \<in> set (pl_tasks s)" "creation_of t = Some n" "creation_key t = Some cv"
  shows "pool_inv N (settle_creation ts n cv res t s)"
proof -
  let ?ts = "filter (\<lambda>u. \<not> awaits_creation n u) (remove1 t (pl_tasks s))"
  let ?s = "s\<lparr>pl_tasks := ?ts, pl_inflight := map_delete (pl_inflight s) cv, pl_pendingCreations := pl_pendingCreations s - 1\<rparr>"
  note r = creations_remove [OF t(1,2)]
  have m: "mset (creations (pl_tasks s)) = mset (n # creations (remove1 t (pl_tasks s)))" using r by simp
  have "distinct (n # creations (remove1 t (pl_tasks s)))" using mset_eq_imp_distinct_iff [OF m] ok by (simp add: pool_ok_def)
  then have sub: "set (creations (remove1 t (pl_tasks s))) \<subseteq> set (creations (pl_tasks s))" "n \<notin> set (creations (remove1 t (pl_tasks s)))" "distinct (creations (remove1 t (pl_tasks s)))"
    using mset_eq_setD [OF m] by auto
  have other: "cv' \<noteq> cv" if "u \<in> set (remove1 t (pl_tasks s))" "creation_of u = Some m" "creation_key u = Some cv'" for u m cv'
  proof
    assume "cv' = cv"
    moreover have "u \<in> set (pl_tasks s)" using that(1) set_remove1_subset by fast
    ultimately have "m = n" using ok_inflight [OF ok t] ok_inflight [OF ok _ that(2,3)] by simp
    then have "n \<in> set (creations (remove1 t (pl_tasks s)))" using creation_mem [OF that(1,2)] by simp
    then show False using sub(2) by simp
  qed
  have "map_get (map_delete (pl_inflight s) cv) cv' = Some m" if "u \<in> set ?ts" "creation_of u = Some m" "creation_key u = Some cv'" for u m cv'
  proof -
    have u: "u \<in> set (remove1 t (pl_tasks s))" using that(1) by simp
    then have "u \<in> set (pl_tasks s)" using set_remove1_subset by fast
    then have "map_get (pl_inflight s) cv' = Some m" using ok_inflight [OF ok _ that(2,3)] by blast
    then show ?thesis using other [OF u that(2,3)] by (simp add: jm.get_del)
  qed
  then have "pool_ok N ?s" using ok r sub by (auto simp: pool_ok_def filter_waiting)
  then have "pool_inv N ?s" using occ by (simp add: pool_inv_def occupiedSlots_def)
  then show ?thesis by (simp add: settle_creation_def Let_def inv_foldl_created)
qed

lemma ok_replace:
  assumes ok: "pool_ok N s" and t: "t \<in> set (pl_tasks s)" "creation_of t = Some n" "creation_key t = Some cv" and t': "creation_of t' = Some n" "creation_key t' = Some cv"
  shows "pool_ok N (replace_task t t' s)"
proof -
  note r = creations_remove [OF t(1,2)]
  have m: "mset (creations (pl_tasks s)) = mset (n # creations (remove1 t (pl_tasks s)))" using r by simp
  have d: "distinct (n # creations (remove1 t (pl_tasks s)))" using mset_eq_imp_distinct_iff [OF m] ok by (simp add: pool_ok_def)
  have st: "set (creations (pl_tasks s)) = insert n (set (creations (remove1 t (pl_tasks s))))" using mset_eq_setD [OF m] by simp
  have e: "eviction_of t' = None" using t'(1) creation_not_eviction by blast
  have l: "length (creations (pl_tasks s)) = Suc (length (creations (remove1 t (pl_tasks s))))" using arg_cong [OF m, of size] by simp
  have "map_get (pl_inflight s) cv' = Some m'" if "u \<in> set (remove1 t (pl_tasks s)) \<or> u = t'" "creation_of u = Some m'" "creation_key u = Some cv'" for u m' cv'
  proof (cases "u = t'")
    case True
    then show ?thesis using ok_inflight [OF ok t] that(2,3) t' by simp
  next
    case False
    then have "u \<in> set (pl_tasks s)" using that(1) set_remove1_subset by fast
    then show ?thesis using ok_inflight [OF ok _ that(2,3)] by blast
  qed
  then have i: "\<forall>u \<in> set (pl_tasks (replace_task t t' s)). \<forall>m cv'. creation_of u = Some m \<longrightarrow> creation_key u = Some cv' \<longrightarrow> map_get (pl_inflight s) cv' = Some m"
    by (auto simp: replace_task_def)
  have c: "creations (pl_tasks (replace_task t t' s)) = creations (remove1 t (pl_tasks s)) @ [n]" by (simp add: replace_task_def t')
  have v: "evictions (pl_tasks (replace_task t t' s)) = evictions (pl_tasks s)" using r e by (simp add: replace_task_def)
  have f: "pl_pendingCreations (replace_task t t' s) = pl_pendingCreations s" "pl_closing (replace_task t t' s) = pl_closing s" "pl_creations (replace_task t t' s) = pl_creations s"
    "pl_inflight (replace_task t t' s) = pl_inflight s" "pl_closed (replace_task t t' s) = pl_closed s" "pl_waiters (replace_task t t' s) = pl_waiters s"
    "pl_closeWait (replace_task t t' s) = pl_closeWait s" "pl_max (replace_task t t' s) = pl_max s"
    by (simp_all add: replace_task_def)
  show ?thesis unfolding pool_ok_def c v f using ok d st l i by (simp add: pool_ok_def)
qed

lemma inv_replace:
  assumes "pool_inv N s" "t \<in> set (pl_tasks s)" "creation_of t = Some n" "creation_key t = Some cv" "creation_of t' = Some n" "creation_key t' = Some cv"
  shows "pool_inv N (replace_task t t' s)"
  using ok_replace [OF _ assms(2-6)] assms(1) by (simp add: pool_inv_def occupiedSlots_def) (simp add: replace_task_def)

lemma inv_settle_plain:
  assumes "pool_inv N s" "t \<in> set (pl_tasks s)" "creation_of t = Some n" "creation_key t = Some cv"
  shows "pool_inv N (settle_creation ts n cv res t s)"
proof (rule inv_settle [OF _ _ assms(2-4)])
  show "pool_ok N s" "occupiedSlots s \<le> int (pl_max s) + 1" using assms(1) by (simp_all add: pool_inv_def)
qed

lemma inv_spawn: "pool_inv N s \<Longrightarrow> Spawning n a k p \<in> set (pl_tasks s) \<Longrightarrow> pool_inv N (resume_spawn ts res n a k p s)"
  by (simp add: resume_spawn_def inv_settle_plain inv_replace split: sum.split)

lemma inv_discard: "pool_inv N s \<Longrightarrow> Discarding n a k ch e \<in> set (pl_tasks s) \<Longrightarrow> pool_inv N (resume_discard ts res n a k ch e s)"
  by (simp add: resume_discard_def inv_settle_plain)

lemma inv_attach:
  assumes inv: "pool_inv N s" and t: "Attaching n a k ch \<in> set (pl_tasks s)"
  shows "pool_inv N (resume_attach ts token res rows n a k ch s)"
proof -
  have rep: "pool_inv N (replace_task (Attaching n a k ch) (Discarding n a k ch e) (s\<lparr>pl_rows := r\<rparr>))" for e r
    by (rule inv_replace [OF inv_quiet [OF inv]]) (use t in simp_all)
  have new: "pool_inv N (settle_creation ts n (conversationIdOf a k) out (Attaching n a k ch)
      (s\<lparr>pl_rows := r, pl_objs := objs, pl_entries := map_set (pl_entries s) cv i\<rparr>))" for out r objs cv i
    by (rule inv_settle) (use inv t length_set [of "pl_entries s" cv i] in \<open>auto simp: pool_inv_def pool_ok_def occupiedSlots_def\<close>)
  show ?thesis using rep new by (auto simp: resume_attach_def Let_def split: sum.split prod.split)
qed

section \<open>Every run\<close>

lemma creation_in: "n \<in> set (creations ts) \<Longrightarrow> \<exists>t \<in> set ts. creation_of t = Some n \<and> creation_key t \<noteq> None"
proof (induction ts)
  case (Cons t ts)
  then show ?case using creation_key_iff [of t] by (auto split: option.splits)
qed simp

lemma inv_close: "pool_inv N s \<Longrightarrow> pool_inv N (close_pool s)"
proof (cases "pl_closed s")
  case False
  assume inv: "pool_inv N s"
  let ?s = "clear_timers (map snd (pl_entries s)) (reject_all PoolClosedError (pl_waiters s) s)"
  have q: "quiet s ?s" by (rule quiet_trans [OF quiet_reject quiet_timers])
  have "\<exists>ns. Some (map snd (pl_inflight s)) = Some ns \<and> n \<in> set ns" if n: "n \<in> set (creations (pl_tasks s))" for n
  proof -
    obtain t cv where "t \<in> set (pl_tasks s)" "creation_of t = Some n" "creation_key t = Some cv" using creation_in [OF n] by auto
    then have "map_get (pl_inflight s) cv = Some n" using inv by (simp add: pool_inv_def pool_ok_def)
    then have "(cv, n) \<in> set (pl_inflight s)" by (rule get_in_set)
    then show ?thesis by force
  qed
  then have "pool_inv N (?s\<lparr>pl_closed := True, pl_waiters := [], pl_closeWait := Some (map snd (pl_inflight s))\<rparr>)"
    using inv_quiet [OF inv q] q by (simp add: pool_inv_def pool_ok_def occupiedSlots_def quiet_def)
  then show ?thesis using False by (simp add: close_pool_def)
qed (simp add: close_pool_def)

lemma quiet_teardown_all: "quiet s (teardown_all ts closed is s)"
proof (induction "is" arbitrary: s)
  case (Cons i "is")
  obtain r s1 where d: "teardownEntry ts (closed i) i s = (r, s1)" by force
  have q: "quiet s s1" using quiet_teardown [OF d] .
  let ?u = "case r of Child_closed \<Rightarrow> s1 | Close_failure e \<Rightarrow> s1\<lparr>pl_errors := pl_errors s1 @ [e]\<rparr> | Release_failure e \<Rightarrow> s1\<lparr>pl_errors := pl_errors s1 @ [e]\<rparr>"
  have "quiet s ?u" by (cases r) (simp_all add: q quiet_trans [OF q quiet_simps(6)])
  then show ?case using quiet_trans [OF _ Cons.IH] d by simp
qed simp

lemma inv_close_finish:
  assumes inv: "pool_inv N s" and ready: "close_ready s" and closed: "pl_closed s"
  shows "pool_inv N (close_finish ts answers s)"
proof -
  have "creations (pl_tasks s) = []"
  proof (rule ccontr)
    assume "creations (pl_tasks s) \<noteq> []"
    then obtain n where n: "n \<in> set (creations (pl_tasks s))" by (meson last_in_set)
    then obtain ns where "pl_closeWait s = Some ns" "n \<in> set ns" using inv closed by (auto simp: pool_inv_def pool_ok_def)
    then show False using creation_in [OF n] ready by (auto simp: close_ready_def split: option.splits)
  qed
  then have "pool_inv N (s\<lparr>pl_inflight := [], pl_pendingCreations := 0, pl_entries := [], pl_closeWait := None\<rparr>)"
    using inv creation_mem [of _ "pl_tasks s"] by (auto simp: pool_inv_def pool_ok_def occupiedSlots_def)
  then show ?thesis using inv_quiet [OF _ quiet_teardown_all] by (simp add: close_finish_def Let_def)
qed

inductive pool_run :: "pool \<Rightarrow> pool \<Rightarrow> bool" for s0 where
  start: "pool_run s0 s0"
| next_step: "pool_run s0 s \<Longrightarrow> pool_step s s' \<Longrightarrow> pool_run s0 s'"

lemma pool_new: "newPool options rows = Inr s \<Longrightarrow> pool_inv (pl_max s) s \<and> pl_max s > 0"
  by (auto simp: newPool_def pool_inv_def pool_ok_def occupiedSlots_def split: option.splits if_splits)

lemma inv_step:
  assumes "pool_step s s'" "pool_inv N s"
  shows "pool_inv N s'"
  using assms
proof (induction rule: pool_step.induct)
  case (retired_conversation s a k)
  then show ?case by (simp add: retireConversation_def inv_retire split: option.split)
next
  case (close_idle s ts)
  then show ?case using inv_closeIdle_next [OF inv_quiet [OF _ quiet_timers]] by (simp add: closeIdle_def Let_def)
next
  case (close_over s ts answers)
  have "pl_closed s" using close_over by (auto simp: close_ready_def pool_inv_def pool_ok_def split: option.splits)
  then show ?case using inv_close_finish close_over by blast
next
  case (registry s rows)
  then show ?case by (rule inv_quiet) simp
qed (simp_all add: inv_acquire inv_release inv_forget inv_retire inv_timeout inv_close inv_spawn inv_attach inv_discard inv_resume_evict inv_resume_sweep
  inv_resume_retire inv_resume_closeIdle)

lemma inv_run: "pool_run s0 s \<Longrightarrow> pool_inv N s0 \<Longrightarrow> pool_inv N s"
  by (induction rule: pool_run.induct) (auto dest: inv_step)

lemma single_flight:
  assumes "distinct (creations ts)" "\<And>t n cv. t \<in> set ts \<Longrightarrow> creation_of t = Some n \<Longrightarrow> creation_key t = Some cv \<Longrightarrow> map_get m cv = Some n"
  shows "distinct (List.map_filter creation_key ts)"
  using assms
proof (induction ts)
  case (Cons t ts)
  have IH: "distinct (List.map_filter creation_key ts)" using Cons by (auto split: option.splits)
  show ?case
  proof (cases "creation_key t")
    case None
    then show ?thesis using IH by (simp add: List.map_filter_simps)
  next
    case (Some cv)
    then obtain n where n: "creation_of t = Some n" using creation_key_iff [of t] by auto
    have "creation_key u \<noteq> Some cv" if "u \<in> set ts" for u
    proof
      assume c: "creation_key u = Some cv"
      then obtain n' where n': "creation_of u = Some n'" using creation_key_iff [of u] by auto
      have "n' = n" using Cons.prems(2) [of u n' cv] Cons.prems(2) [of t n cv] that c n n' Some by simp
      then show False using creation_mem [OF that n'] Cons.prems(1) n by simp
    qed
    then show ?thesis using IH Some by (auto simp: List.map_filter_simps List.map_filter_def)
  qed
qed (simp add: List.map_filter_simps)


section \<open>A concrete pool\<close>

text \<open>Two slots, three known conversations; \<open>w_idle\<close> has an idle child for each of the first two.\<close>

definition w_session :: "string \<Rightarrow> SessionRecord" where
  "w_session k = \<lparr>sr_adapterId = ''web'', sr_conversationKey = k, sr_sessionFile = ''/s/'' @ k, sr_createdAt = ''t0'', sr_lastActive = ''t0'', sr_currentOwner = None\<rparr>"

definition w_sessions :: "SessionRecord list" where
  "w_sessions = map w_session [''a'', ''b'', ''c'']"

definition w_pool :: pool where
  "w_pool = (case newPool (Some (True, True, Some 2, Some 1000, True)) w_sessions of Inr s \<Rightarrow> s)"

text \<open>One conversation acquired by caller \<open>c\<close>, whose creation \<open>n\<close> yields child \<open>c\<close>.\<close>

definition w_created :: "nat \<Rightarrow> string \<Rightarrow> nat \<Rightarrow> pool \<Rightarrow> pool" where
  "w_created n k c s = resume_attach ''t'' (''o'' @ k) (Inr ()) (pl_rows s) n ''web'' k c (resume_spawn ''t'' (Inr c) n ''web'' k None s)"

definition w_leased :: pool where
  "w_leased = w_created 1 ''b'' 2 (acquire ''t'' 2 ''web'' ''b'' None (w_created 0 ''a'' 1 (acquire ''t'' 1 ''web'' ''a'' None w_pool)))"

definition w_idle :: pool where
  "w_idle = lease_release ''t'' 2 1 (lease_release ''t'' 1 0 w_leased)"

lemma w_created_run:
  assumes "pool_run s0 s" "Spawning n ''web'' k None \<in> set (pl_tasks s)"
  shows "pool_run s0 (w_created n k c s)"
proof -
  have "pool_run s0 (resume_spawn ''t'' (Inr c) n ''web'' k None s)" by (rule pool_run.next_step [OF assms(1) pool_step.spawned [OF assms(2)]])
  moreover have "Attaching n ''web'' k c \<in> set (pl_tasks (resume_spawn ''t'' (Inr c) n ''web'' k None s))" by (simp add: resume_spawn_def replace_task_def)
  ultimately show ?thesis unfolding w_created_def by (rule pool_run.next_step [OF _ pool_step.attached])
qed

lemma w_idle_run: "pool_run w_pool w_idle"
proof -
  let ?s1 = "acquire ''t'' 1 ''web'' ''a'' None w_pool"
  let ?s2 = "acquire ''t'' 2 ''web'' ''b'' None (w_created 0 ''a'' 1 ?s1)"
  have t: "Spawning 0 ''web'' ''a'' None \<in> set (pl_tasks ?s1)" "Spawning 1 ''web'' ''b'' None \<in> set (pl_tasks ?s2)"
    "(1, Leased 0) \<in> set (pl_answers w_leased)" "(2, Leased 1) \<in> set (pl_answers (lease_release ''t'' 1 0 w_leased))"
    by code_simp+
  have "pool_run w_pool ?s1" by (rule pool_run.next_step [OF pool_run.start pool_step.acquired])
  then have "pool_run w_pool ?s2" by (rule pool_run.next_step [OF w_created_run [OF _ t(1)] pool_step.acquired])
  then have "pool_run w_pool w_leased" unfolding w_leased_def by (intro w_created_run t)
  then show ?thesis unfolding w_idle_def by (intro pool_run.next_step [OF _ pool_step.released] t)
qed

lemma w_pool_new: "newPool (Some (True, True, Some 2, Some 1000, True)) w_sessions = Inr w_pool"
  by (simp add: w_pool_def newPool_def)


section \<open>Broken promises\<close>

text \<open>
  C6. A conversation can have two live agent processes. While an idle child that timed out is
  still being closed, its conversation is in none of the pool's maps, so the next \<open>acquire\<close>
  for it starts a second child on the same session file, although at most one live child
  per conversation is promised.
\<close>

theorem closing_child_overlaps:
  assumes "map_get (pl_entries s) (conversationIdOf a k) = Some i" "i < length (pl_objs s)" "pe_adapterId (obj_at s i) = a" "pe_conversationKey (obj_at s i) = k"
    and "pe_idleTimer (obj_at s i)" "\<not> pe_inUse (obj_at s i)" "a \<noteq> []" "k \<noteq> []" "\<not> pl_closed s" "map_get (pl_inflight s) (conversationIdOf a k) = None"
    and "occupiedSlots s < int (pl_max s)"
  shows "pool_step s (idle_timeout i s) \<and> pool_step (idle_timeout i s) (acquire ts c a k parent (idle_timeout i s)) \<and>
    SweepingIdle i \<in> set (pl_tasks (acquire ts c a k parent (idle_timeout i s))) \<and>
    Spawning (pl_creations s) a k parent \<in> set (pl_tasks (acquire ts c a k parent (idle_timeout i s)))"
proof -
  let ?u = "upd_obj i (\<lambda>e. e\<lparr>pe_idleTimer := False\<rparr>) s"
  have o: "obj_id s i = conversationIdOf a k" "\<not> pe_inUse (obj_at ?u i)" using assms(2-4,6) by (simp_all add: obj_id_def obj_at_def upd_obj_def)
  have e: "pl_entries ?u = pl_entries s" by (simp add: upd_obj_def)
  have t: "idle_timeout i s = evict_start (conversationIdOf a k) i (SweepingIdle i) ?u"
    using assms(1) o e by (simp add: idle_timeout_def Let_def evictEntryAsync_def evictable_def)
  let ?s1 = "idle_timeout i s"
  have s1: "pl_entries ?s1 = map_delete (pl_entries s) (conversationIdOf a k)" "pl_inflight ?s1 = pl_inflight s" "pl_closed ?s1 = pl_closed s" "pl_creations ?s1 = pl_creations s"
    "SweepingIdle i \<in> set (pl_tasks ?s1)" "pl_max ?s1 = pl_max s" "occupiedSlots ?s1 \<le> occupiedSlots s"
    using length_delete [OF get_in_set [OF assms(1)]] by (simp_all add: t evict_start_def suspend_def upd_obj_def occupiedSlots_def)
  have "acquire ts c a k parent ?s1 = start_acquired c a k parent ?s1"
    using assms(7-11) s1 by (simp add: acquire_def Let_def jm.get_del)
  then have "SweepingIdle i \<in> set (pl_tasks (acquire ts c a k parent ?s1)) \<and> Spawning (pl_creations s) a k parent \<in> set (pl_tasks (acquire ts c a k parent ?s1))"
    using s1 assms(9,10) by (simp add: start_acquired_def createEntry_def Let_def suspend_def)
  then show ?thesis using pool_step.timeout [OF assms(2,5)] pool_step.acquired [of ?s1 ts c a k parent] by blast
qed

definition w_half :: pool where
  "w_half = lease_release ''t'' 1 0 (w_created 0 ''a'' 1 (acquire ''t'' 1 ''web'' ''a'' None w_pool))"

theorem closing_child_overlaps_witness:
  "SweepingIdle 0 \<in> set (pl_tasks (acquire ''t'' 2 ''web'' ''a'' None (idle_timeout 0 w_half))) \<and>
   Spawning 1 ''web'' ''a'' None \<in> set (pl_tasks (acquire ''t'' 2 ''web'' ''a'' None (idle_timeout 0 w_half)))"
proof -
  have "map_get (pl_entries w_half) (conversationIdOf ''web'' ''a'') = Some 0" "0 < length (pl_objs w_half)" "pe_adapterId (obj_at w_half 0) = ''web''"
    "pe_conversationKey (obj_at w_half 0) = ''a''" "pe_idleTimer (obj_at w_half 0)" "\<not> pe_inUse (obj_at w_half 0)" "\<not> pl_closed w_half"
    "map_get (pl_inflight w_half) (conversationIdOf ''web'' ''a'') = None" "occupiedSlots w_half < int (pl_max w_half)" "pl_creations w_half = 1"
    by code_simp+
  then show ?thesis using closing_child_overlaps [of w_half "''web''" "''a''" 0 "''t''" 2 None] by simp
qed

text \<open>
  C7. One child can be leased twice. Two calls of \<open>acquire\<close> for the same new conversation that
  both wait for an eviction share one creation, and neither looks whether the entry is in use
  when it settles: both are answered with a lease of the same child.
\<close>

theorem shared_creation_double_lease:
  assumes "filter (awaits_creation n) (pl_tasks s) = [Started c1 a k n, Started c2 a k n]" "\<not> pl_closed s" "claim_owner ts token a k rows = (Inr (), rows')"
  shows "pl_answers (resume_attach ts token (Inr ()) rows n a k child s) = pl_answers s @ [(c1, Leased (length (pl_objs s))), (c2, Leased (length (pl_objs s)))]"
proof -
  have "pl_answers (lease_entry ts c a k i u) = pl_answers u @ [(c, Leased i)]" "pl_closed (lease_entry ts c a k i u) = pl_closed u" for c a k i u
    by (simp_all add: lease_entry_def answer_to_def reg_touch_def touchLru_def upd_obj_def split: option.split)
  then show ?thesis using assms by (simp add: resume_attach_def Let_def settle_creation_def resume_created_def)
qed

definition w_shared :: pool where
  "w_shared = resume_spawn ''t'' (Inr 9) 2 ''web'' ''c'' None
     (resume_evict ''t'' (Inr ()) 1 (EvictAcquire 4 ''web'' ''c'' None) []
       (resume_evict ''t'' (Inr ()) 0 (EvictAcquire 3 ''web'' ''c'' None) [(conversationIdOf ''web'' ''b'', 1)]
         (acquire ''t'' 4 ''web'' ''c'' None (acquire ''t'' 3 ''web'' ''c'' None w_idle))))"

theorem shared_creation_double_lease_witness:
  "\<exists>s. pool_run w_pool s \<and> pl_answers s = pl_answers w_shared @ [(3, Leased 2), (4, Leased 2)]"
proof -
  let ?s4 = "acquire ''t'' 4 ''web'' ''c'' None (acquire ''t'' 3 ''web'' ''c'' None w_idle)"
  let ?s5 = "resume_evict ''t'' (Inr ()) 0 (EvictAcquire 3 ''web'' ''c'' None) [(conversationIdOf ''web'' ''b'', 1)] ?s4"
  let ?s6 = "resume_evict ''t'' (Inr ()) 1 (EvictAcquire 4 ''web'' ''c'' None) [] ?s5"
  have t: "EvictingFor 0 (EvictAcquire 3 ''web'' ''c'' None) [(conversationIdOf ''web'' ''b'', 1)] \<in> set (pl_tasks ?s4)"
    "EvictingFor 1 (EvictAcquire 4 ''web'' ''c'' None) [] \<in> set (pl_tasks ?s5)" "Spawning 2 ''web'' ''c'' None \<in> set (pl_tasks ?s6)"
    "Attaching 2 ''web'' ''c'' 9 \<in> set (pl_tasks w_shared)"
    by code_simp+
  have h: "filter (awaits_creation 2) (pl_tasks w_shared) = [Started 3 ''web'' ''c'' 2, Started 4 ''web'' ''c'' 2]" "\<not> pl_closed w_shared"
    "length (pl_objs w_shared) = 2" by code_simp+
  have c: "fst (claim_owner ''t'' ''oc'' ''web'' ''c'' w_sessions) = Inr ()" by code_simp
  have "pool_run w_pool ?s4" by (intro pool_run.next_step [OF _ pool_step.acquired] w_idle_run)
  then have "pool_run w_pool ?s6" by (intro pool_run.next_step [OF _ pool_step.evicted] t)
  then have "pool_run w_pool w_shared" unfolding w_shared_def by (rule pool_run.next_step [OF _ pool_step.spawned [OF t(3)]])
  then have "pool_run w_pool (resume_attach ''t'' ''oc'' (Inr ()) w_sessions 2 ''web'' ''c'' 9 w_shared)"
    by (rule pool_run.next_step [OF _ pool_step.attached [OF t(4)]])
  moreover have "pl_answers (resume_attach ''t'' ''oc'' (Inr ()) w_sessions 2 ''web'' ''c'' 9 w_shared) = pl_answers w_shared @ [(3, Leased 2), (4, Leased 2)]"
    using shared_creation_double_lease [OF h(1,2), of "''t''" "''oc''" w_sessions "snd (claim_owner ''t'' ''oc'' ''web'' ''c'' w_sessions)" 9] c h(3)
    by (simp add: prod_eq_iff)
  ultimately show ?thesis by blast
qed

end
