(* ===== verification/Spec2Isabelle.thy ===== *)
theory Spec2Isabelle
  imports Session_Registry Idempotency_Store Ingest_Buffer Cron_Scheduler Emitter_Turn Core_Server Supervisor_Laws Ambient_Extension Pool_Laws
begin

text \<open>Skeleton.\<close>

end
